(* ===== verification/Prelude.thy ===== *)
theory Prelude
  imports Main "HOL-Library.Word" "HOL-Library.Monad_Syntax"
begin

text \<open>
  What the components share: the model's basic types, the pieces of the Rust standard library
  the sources use (big-endian \<open>u32\<close> fields, decimal printing and parsing, \<open>str::split\<close> and
  \<open>str::trim\<close>), the lemma collections of the development, and two generic interfaces: a
  round-tripping pair of conversions and a state machine with an invariant.

  Conventions used everywhere:
  \<^item> a byte is an \<open>8 word\<close>; text (Rust \<open>str\<close>, header names and values) is a \<open>string\<close>, one
    \<open>char\<close> per byte of its UTF-8 form;
  \<^item> \<open>usize\<close> is \<open>nat\<close> (64-bit targets, where no length of the program wraps);
  \<^item> a Rust \<open>Result\<close> is a sum, \<open>Inl\<close> the error and \<open>Inr\<close> the value;
  \<^item> a computation that may panic has an \<open>option\<close> result, and \<open>None\<close> is the panic.
\<close>

named_theorems wire "equations for byte buffers and length fields"
named_theorems machine "case analyses and equations of the state machines"

type_synonym byte = "8 word"

datatype 'a Poll = Pending | Ready 'a

subsection \<open>Big-endian length fields\<close>

definition put_u32 :: "nat \<Rightarrow> byte list" where
  "put_u32 n = [of_nat (n div 2 ^ 24), of_nat (n div 2 ^ 16), of_nat (n div 2 ^ 8), of_nat n]"

definition get_u32 :: "byte \<Rightarrow> byte \<Rightarrow> byte \<Rightarrow> byte \<Rightarrow> nat" where
  "get_u32 a b c d = unat a * 2 ^ 24 + unat b * 2 ^ 16 + unat c * 2 ^ 8 + unat d"

lemma length_put_u32 [simp, wire]: "length (put_u32 n) = 4"
  by (simp add: put_u32_def)

lemma unat_of_nat_byte [simp]: "unat (of_nat n :: byte) = n mod 256"
  by (simp add: unat_of_nat)

lemma get_u32_put_u32 [wire]:
  assumes "n < 2 ^ 32"
  shows "get_u32 (of_nat (n div 2 ^ 24)) (of_nat (n div 2 ^ 16)) (of_nat (n div 2 ^ 8)) (of_nat n) = n"
proof -
  define q1 where "q1 = n div 256"
  define q2 where "q2 = q1 div 256"
  define q3 where "q3 = q2 div 256"
  have n: "n = q1 * 256 + n mod 256"
    unfolding q1_def by (simp add: div_mult_mod_eq)
  have q1: "q1 = q2 * 256 + q1 mod 256"
    unfolding q2_def by (simp add: div_mult_mod_eq)
  have q2: "q2 = q3 * 256 + q2 mod 256"
    unfolding q3_def by (simp add: div_mult_mod_eq)
  have e: "n div 65536 = q2" "n div 16777216 = q3"
    unfolding q1_def q2_def q3_def by (simp_all flip: div_mult2_eq)
  have "q3 < 256"
    using assms unfolding e [symmetric] by (simp add: less_mult_imp_div_less)
  then have "q3 mod 256 * 16777216 + q2 mod 256 * 65536 + q1 mod 256 * 256 + n mod 256 = n"
    using n q1 q2 by simp
  then show ?thesis by (simp add: get_u32_def e flip: q1_def)
qed

lemma get_u32_bound: "get_u32 a b c d < 2 ^ 32"
proof -
  have "unat a < 256" "unat b < 256" "unat c < 256" "unat d < 256"
    using unsigned_less [of a] unsigned_less [of b] unsigned_less [of c] unsigned_less [of d]
    by simp_all
  then have "unat a * 16777216 + unat b * 65536 + unat c * 256 + unat d < 4294967296"
    by linarith
  then show ?thesis by (simp add: get_u32_def)
qed

subsection \<open>Decimal numbers: Display of unsigned integers and \<open>u64::from_str\<close>\<close>

definition digit_char :: "nat \<Rightarrow> char" where
  "digit_char d = char_of (48 + d)"

definition is_digit :: "char \<Rightarrow> bool" where
  "is_digit c \<longleftrightarrow> 48 \<le> (of_char c :: nat) \<and> (of_char c :: nat) \<le> 57"

definition digit_val :: "char \<Rightarrow> nat" where
  "digit_val c = of_char c - 48"

fun show_nat :: "nat \<Rightarrow> string" where
  "show_nat n = (if n < 10 then [digit_char n] else show_nat (n div 10) @ [digit_char (n mod 10)])"

declare show_nat.simps [simp del]

fun parse_digits :: "nat \<Rightarrow> string \<Rightarrow> nat option" where
  "parse_digits acc [] = Some acc"
| "parse_digits acc (c # cs) = (if is_digit c then parse_digits (acc * 10 + digit_val c) cs else None)"

text \<open>
  \<open>u64::from_str\<close>: one leading \<open>+\<close> is accepted when something follows it, then decimal digits
  only; an empty string and a value past \<open>u64::MAX\<close> are errors.
\<close>

definition parse_u64 :: "string \<Rightarrow> nat option" where
  "parse_u64 s =
     (case s of [] \<Rightarrow> None
      | c # cs \<Rightarrow>
          (let ds = (if c = CHR ''+'' then cs else s)
           in if ds = [] then None
              else (case parse_digits 0 ds of
                      None \<Rightarrow> None
                    | Some n \<Rightarrow> if n < 2 ^ 64 then Some n else None)))"

lemma digit_char_props [simp]:
  assumes "d < 10"
  shows "is_digit (digit_char d)" "digit_val (digit_char d) = d" "digit_char d \<noteq> CHR ''+''"
proof -
  have d: "of_char (digit_char d) = 48 + d"
    using assms by (simp add: digit_char_def)
  then show "is_digit (digit_char d)" "digit_val (digit_char d) = d"
    using assms by (simp_all add: is_digit_def digit_val_def)
  show "digit_char d \<noteq> CHR ''+''"
    using d by auto
qed

lemma parse_digits_snoc:
  "parse_digits acc (xs @ [c]) =
     (case parse_digits acc xs of None \<Rightarrow> None
      | Some n \<Rightarrow> if is_digit c then Some (n * 10 + digit_val c) else None)"
  by (induction acc xs rule: parse_digits.induct) (auto split: option.splits)

lemma parse_digits_show_nat: "parse_digits 0 (show_nat n) = Some n"
proof (induction n rule: show_nat.induct)
  case (1 n)
  then show ?case
    by (cases "n < 10") (simp_all add: show_nat.simps [of n] parse_digits_snoc)
qed

lemma show_nat_nonempty [simp]: "show_nat n \<noteq> []"
  by (subst show_nat.simps) simp

lemma hd_show_nat: "hd (show_nat n) \<noteq> CHR ''+''"
proof (induction n rule: show_nat.induct)
  case (1 n)
  then show ?case
    by (cases "n < 10") (simp_all add: show_nat.simps [of n] hd_append)
qed

lemma parse_u64_show_nat: "n < 2 ^ 64 \<Longrightarrow> parse_u64 (show_nat n) = Some n"
  using hd_show_nat [of n] parse_digits_show_nat [of n]
  by (cases "show_nat n") (auto simp: parse_u64_def Let_def simp del: parse_digits.simps)

lemma length_show_nat_le: "n < 10 ^ k \<Longrightarrow> 0 < k \<Longrightarrow> length (show_nat n) \<le> k"
proof (induction n arbitrary: k rule: show_nat.induct)
  case (1 n)
  show ?case
  proof (cases "n < 10")
    case True
    with 1 show ?thesis by (simp add: show_nat.simps [of n])
  next
    case False
    with 1 obtain j where k: "k = Suc j" "0 < j"
      by (cases k; cases "k - 1") auto
    then have "length (show_nat (n div 10)) \<le> j"
      using 1 False by (simp add: less_mult_imp_div_less mult.commute)
    with False k show ?thesis by (simp add: show_nat.simps [of n])
  qed
qed

lemma parse_digits_bound:
  "parse_digits acc s = Some n \<Longrightarrow> n < (acc + 1) * 10 ^ length s"
proof (induction acc s rule: parse_digits.induct)
  case (2 acc c cs)
  then have d: "is_digit c" and r: "parse_digits (acc * 10 + digit_val c) cs = Some n"
    by (simp_all split: if_splits)
  have "digit_val c < 10"
    using d by (auto simp: is_digit_def digit_val_def)
  then have "(acc * 10 + digit_val c + 1) * 10 ^ length cs \<le> ((acc + 1) * 10) * 10 ^ length cs"
    by (intro mult_right_mono) simp_all
  also have "\<dots> = (acc + 1) * 10 ^ length (c # cs)"
    by (simp add: algebra_simps)
  finally show ?case
    using "2.IH" [OF d r] by (rule less_le_trans [rotated])
qed simp

subsection \<open>Splitting and trimming text\<close>

text \<open>\<open>str::split\<close> on one character: always at least one piece, the empty text included.\<close>

fun split_on :: "char \<Rightarrow> string \<Rightarrow> string list" where
  "split_on c [] = [[]]"
| "split_on c (x # xs) =
     (if x = c then [] # split_on c xs
      else (case split_on c xs of [] \<Rightarrow> [[x]] | p # ps \<Rightarrow> (x # p) # ps))"

definition is_space :: "char \<Rightarrow> bool" where
  "is_space c \<longleftrightarrow> c = CHR '' '' \<or> (9 \<le> (of_char c :: nat) \<and> (of_char c :: nat) \<le> 13)"

definition trim :: "string \<Rightarrow> string" where
  "trim s = rev (dropWhile is_space (rev (dropWhile is_space s)))"

lemma split_on_nonempty [simp]: "split_on c s \<noteq> []"
  by (induction s) (auto split: list.splits)

lemma split_on_no_sep: "c \<notin> set p \<Longrightarrow> split_on c p = [p]"
  by (induction p) auto

lemma split_on_append_sep: "c \<notin> set p \<Longrightarrow> split_on c (p @ c # rest) = p # split_on c rest"
  by (induction p) auto

lemma trim_id: "\<forall>c \<in> set s. \<not> is_space c \<Longrightarrow> trim s = s"
proof -
  assume s: "\<forall>c \<in> set s. \<not> is_space c"
  then have "dropWhile is_space s = s" "dropWhile is_space (rev s) = rev s"
    by (metis dropWhile_eq_self_iff hd_in_set, metis dropWhile_eq_self_iff hd_in_set set_rev)
  then show ?thesis by (simp add: trim_def)
qed

subsection \<open>Other pieces of the standard library\<close>

text \<open>\<open>Iterator::find_map\<close>.\<close>

fun find_map :: "('a \<Rightarrow> 'b option) \<Rightarrow> 'a list \<Rightarrow> 'b option" where
  "find_map f [] = None"
| "find_map f (x # xs) = (case f x of Some y \<Rightarrow> Some y | None \<Rightarrow> find_map f xs)"

lemma find_map_map: "find_map f (map g xs) = find_map (\<lambda>x. f (g x)) xs"
  by (induction xs) (auto split: option.splits)

lemma find_map_find: "find_map (\<lambda>x. if P x then Some x else None) xs = find P xs"
  by (induction xs) auto

lemma find_map_append:
  "find_map f (xs @ ys) = (case find_map f xs of Some y \<Rightarrow> Some y | None \<Rightarrow> find_map f ys)"
  by (induction xs) (auto split: option.splits)

text \<open>\<open>std::str::from_utf8\<close> succeeds: the well-formed byte sequences of UTF-8.\<close>

fun cont :: "nat \<Rightarrow> nat \<Rightarrow> nat \<Rightarrow> bool" where
  "cont lo hi b \<longleftrightarrow> lo \<le> b \<and> b \<le> hi"

fun valid_utf8 :: "nat list \<Rightarrow> bool" where
  "valid_utf8 [] = True"
| "valid_utf8 (a # bs) =
     (if a < 128 then valid_utf8 bs
      else (case bs of
        [] \<Rightarrow> False
      | b # cs \<Rightarrow>
          if cont 194 223 a then cont 128 191 b \<and> valid_utf8 cs
          else (case cs of
            [] \<Rightarrow> False
          | c # ds \<Rightarrow>
              if cont 224 239 a then
                cont (if a = 224 then 160 else 128) (if a = 237 then 159 else 191) b \<and>
                cont 128 191 c \<and> valid_utf8 ds
              else (case ds of
                [] \<Rightarrow> False
              | d # es \<Rightarrow>
                  cont 240 244 a \<and>
                  cont (if a = 240 then 144 else 128) (if a = 244 then 143 else 191) b \<and>
                  cont 128 191 c \<and> cont 128 191 d \<and> valid_utf8 es))))"

text \<open>\<open>Debug\<close> of a byte slice.\<close>

fun comma_sep :: "string list \<Rightarrow> string" where
  "comma_sep [] = []"
| "comma_sep [x] = x"
| "comma_sep (x # xs) = x @ '', '' @ comma_sep xs"

definition debug_bytes :: "string \<Rightarrow> string" where
  "debug_bytes s = ''['' @ comma_sep (map (\<lambda>c. show_nat (of_char c)) s) @ '']''"

subsection \<open>Conversions that round-trip\<close>

text \<open>
  A printing and a parsing function of the program: parsing what was printed gives the value
  back, so printing loses nothing.
\<close>

locale round_trip =
  fixes enc :: "'a \<Rightarrow> 'b" and dec :: "'b \<Rightarrow> 'a"
  assumes dec_enc: "dec (enc x) = x"
begin

lemma enc_eq_iff: "enc x = enc y \<longleftrightarrow> x = y"
  by (metis dec_enc)

lemma enc_inj: "inj enc"
  by (rule injI) (simp add: enc_eq_iff)

lemma dec_surj: "\<exists>b. dec b = x"
  using dec_enc by blast

end

text \<open>Facts on computed options.\<close>

lemma not_none_the: "\<not> Option.is_none x \<Longrightarrow> x = Some (the x)"
  by (cases x) simp_all

lemma not_none_dom: "\<not> Option.is_none (m x) \<Longrightarrow> x \<in> dom m"
  by (cases "m x") auto

subsection \<open>State machines\<close>

text \<open>
  Running a list of events through a handler that may panic (\<open>None\<close>); a run stops at the first
  panic.
\<close>

fun run :: "('e \<Rightarrow> 's \<Rightarrow> 's option) \<Rightarrow> 'e list \<Rightarrow> 's \<Rightarrow> 's option" where
  "run step [] s = Some s"
| "run step (e # es) s = (case step e s of None \<Rightarrow> None | Some s' \<Rightarrow> run step es s')"

lemma run_append: "run step (xs @ ys) s = (case run step xs s of None \<Rightarrow> None | Some t \<Rightarrow> run step ys t)"
  by (induction xs arbitrary: s) (simp_all split: option.split)

text \<open>The events of a run that their environment may deliver in the state each one meets.\<close>

fun admissible :: "('e \<Rightarrow> 's \<Rightarrow> 's option) \<Rightarrow> ('s \<Rightarrow> 'e \<Rightarrow> bool) \<Rightarrow> 'e list \<Rightarrow> 's \<Rightarrow> bool" where
  "admissible step allowed [] s = True"
| "admissible step allowed (e # es) s =
     (allowed s e \<and> (case step e s of None \<Rightarrow> True | Some s' \<Rightarrow> admissible step allowed es s'))"

text \<open>
  The contract of a handler: an invariant every step keeps, and, for the events its environment
  may deliver, no panic. A run of such events then ends without a panic in a state that satisfies
  the invariant.
\<close>

locale invariant_machine =
  fixes step :: "'e \<Rightarrow> 's \<Rightarrow> 's option" and inv :: "'s \<Rightarrow> bool" and allowed :: "'s \<Rightarrow> 'e \<Rightarrow> bool"
  assumes step_inv: "inv s \<Longrightarrow> allowed s e \<Longrightarrow> step e s = Some s' \<Longrightarrow> inv s'"
    and step_safe: "inv s \<Longrightarrow> allowed s e \<Longrightarrow> step e s \<noteq> None"
begin

lemma run_safe: "inv s \<Longrightarrow> admissible step allowed es s \<Longrightarrow> \<exists>s'. run step es s = Some s' \<and> inv s'"
proof (induction es arbitrary: s)
  case Nil
  then show ?case by simp
next
  case (Cons e es)
  from Cons.prems obtain t where t: "step e s = Some t"
    using step_safe by fastforce
  with Cons.prems have "inv t" by (auto intro: step_inv)
  with Cons t show ?case by simp
qed

lemma run_inv: "inv s \<Longrightarrow> admissible step allowed es s \<Longrightarrow> run step es s = Some s' \<Longrightarrow> inv s'"
  using run_safe by fastforce

end

text \<open>Where the environment is free to deliver anything, every run is admissible.\<close>

lemma admissible_always: "admissible step (\<lambda>_ _. True) es s"
  by (induction es arbitrary: s) (simp_all split: option.split)

subsection \<open>ASCII case: \<open>to_ascii_lowercase\<close> and \<open>eq_ignore_ascii_case\<close>\<close>

definition ascii_lower :: "char \<Rightarrow> char" where
  "ascii_lower c = (if 65 \<le> (of_char c :: nat) \<and> (of_char c :: nat) \<le> 90 then char_of (of_char c + 32 :: nat) else c)"

definition to_ascii_lowercase :: "string \<Rightarrow> string" where
  "to_ascii_lowercase s = map ascii_lower s"

definition eq_ignore_ascii_case :: "string \<Rightarrow> string \<Rightarrow> bool" where
  "eq_ignore_ascii_case a b \<longleftrightarrow> length a = length b \<and> list_all2 (\<lambda>x y. ascii_lower x = ascii_lower y) a b"

lemma ascii_lower_idem [simp]: "ascii_lower (ascii_lower c) = ascii_lower c"
proof (cases "65 \<le> (of_char c :: nat) \<and> (of_char c :: nat) \<le> 90")
  case True
  have "of_char (char_of (of_char c + 32 :: nat) :: char) = (of_char c + 32 :: nat) mod 256"
    by (simp only: of_char_of)
  also have "\<dots> = of_char c + 32" using True by simp
  finally show ?thesis using True by (simp add: ascii_lower_def del: of_char_of)
next
  case False
  then have "ascii_lower c = c" unfolding ascii_lower_def by (rule if_not_P)
  then show ?thesis by simp
qed

lemma to_ascii_lowercase_idem [simp]: "to_ascii_lowercase (to_ascii_lowercase s) = to_ascii_lowercase s"
  by (simp add: to_ascii_lowercase_def comp_def)

lemma length_to_ascii_lowercase [simp]: "length (to_ascii_lowercase s) = length s"
  by (simp add: to_ascii_lowercase_def)

lemma eq_ignore_ascii_case_iff: "eq_ignore_ascii_case a b \<longleftrightarrow> to_ascii_lowercase a = to_ascii_lowercase b"
  by (auto simp: eq_ignore_ascii_case_def to_ascii_lowercase_def list_all2_conv_all_nth list_eq_iff_nth_eq)

text \<open>\<open>join\<close> on a slice of texts.\<close>

fun join_strings :: "string \<Rightarrow> string list \<Rightarrow> string" where
  "join_strings sep [] = []"
| "join_strings sep [x] = x"
| "join_strings sep (x # xs) = x @ sep @ join_strings sep xs"

lemma set_map_filter: "set (List.map_filter f xs) = {y. \<exists>x \<in> set xs. f x = Some y}"
  by (induction xs) (auto simp: List.map_filter_def image_def split: option.splits)

end
