(* ===== verification/Status_Code.thy ===== *)
theory Status_Code
  imports Prelude
begin

text \<open>
  The gRPC status codes of \<open>tonic/src/status.rs\<close>: the \<open>Code\<close> enumeration, its conversions from
  and to \<open>i32\<close> and the \<open>grpc-status\<close> header value, and the mappings from HTTP/2 reset reasons,
  \<open>std::io\<close> errors and HTTP status codes. The \<open>h2::Reason\<close> and \<open>std::io::ErrorKind\<close> values the
  source names are constructors; every other value is \<open>OtherReason\<close> or \<open>OtherKind\<close>.
\<close>

type_synonym i32 = "32 word"

datatype Code =
    Ok
  | Cancelled
  | Unknown
  | InvalidArgument
  | DeadlineExceeded
  | NotFound
  | AlreadyExists
  | PermissionDenied
  | ResourceExhausted
  | FailedPrecondition
  | Aborted
  | OutOfRange
  | Unimplemented
  | Internal
  | Unavailable
  | DataLoss
  | Unauthenticated

fun description :: "Code \<Rightarrow> string" where
  "description Ok = ''The operation completed successfully''"
| "description Cancelled = ''The operation was cancelled''"
| "description Unknown = ''Unknown error''"
| "description InvalidArgument = ''Client specified an invalid argument''"
| "description DeadlineExceeded = ''Deadline expired before operation could complete''"
| "description NotFound = ''Some requested entity was not found''"
| "description AlreadyExists = ''Some entity that we attempted to create already exists''"
| "description PermissionDenied = ''The caller does not have permission to execute the specified operation''"
| "description ResourceExhausted = ''Some resource has been exhausted''"
| "description FailedPrecondition = ''The system is not in a state required for the operation'' @ [CHR 0x27] @ ''s execution''"
| "description Aborted = ''The operation was aborted''"
| "description OutOfRange = ''Operation was attempted past the valid range''"
| "description Unimplemented = ''Operation is not implemented or not supported''"
| "description Internal = ''Internal error''"
| "description Unavailable = ''The service is currently unavailable''"
| "description DataLoss = ''Unrecoverable data loss or corruption''"
| "description Unauthenticated = ''The request does not have valid authentication credentials''"

definition from_i32 :: "i32 \<Rightarrow> Code" where
  "from_i32 i =
    (if i = 0 then Ok
     else if i = 1 then Cancelled
     else if i = 2 then Unknown
     else if i = 3 then InvalidArgument
     else if i = 4 then DeadlineExceeded
     else if i = 5 then NotFound
     else if i = 6 then AlreadyExists
     else if i = 7 then PermissionDenied
     else if i = 8 then ResourceExhausted
     else if i = 9 then FailedPrecondition
     else if i = 10 then Aborted
     else if i = 11 then OutOfRange
     else if i = 12 then Unimplemented
     else if i = 13 then Internal
     else if i = 14 then Unavailable
     else if i = 15 then DataLoss
     else if i = 16 then Unauthenticated
     else Unknown)"

fun as_i32 :: "Code \<Rightarrow> i32" where
  "as_i32 Ok = 0"
| "as_i32 Cancelled = 1"
| "as_i32 Unknown = 2"
| "as_i32 InvalidArgument = 3"
| "as_i32 DeadlineExceeded = 4"
| "as_i32 NotFound = 5"
| "as_i32 AlreadyExists = 6"
| "as_i32 PermissionDenied = 7"
| "as_i32 ResourceExhausted = 8"
| "as_i32 FailedPrecondition = 9"
| "as_i32 Aborted = 10"
| "as_i32 OutOfRange = 11"
| "as_i32 Unimplemented = 12"
| "as_i32 Internal = 13"
| "as_i32 Unavailable = 14"
| "as_i32 DataLoss = 15"
| "as_i32 Unauthenticated = 16"

definition parse_err :: Code where
  "parse_err = Unknown"

fun from_bytes :: "string \<Rightarrow> Code" where
  "from_bytes [a] =
    (if a = CHR ''0'' then Ok
     else if a = CHR ''1'' then Cancelled
     else if a = CHR ''2'' then Unknown
     else if a = CHR ''3'' then InvalidArgument
     else if a = CHR ''4'' then DeadlineExceeded
     else if a = CHR ''5'' then NotFound
     else if a = CHR ''6'' then AlreadyExists
     else if a = CHR ''7'' then PermissionDenied
     else if a = CHR ''8'' then ResourceExhausted
     else if a = CHR ''9'' then FailedPrecondition
     else parse_err)"
| "from_bytes [a, b] =
    (if a = CHR ''1'' \<and> b = CHR ''0'' then Aborted
     else if a = CHR ''1'' \<and> b = CHR ''1'' then OutOfRange
     else if a = CHR ''1'' \<and> b = CHR ''2'' then Unimplemented
     else if a = CHR ''1'' \<and> b = CHR ''3'' then Internal
     else if a = CHR ''1'' \<and> b = CHR ''4'' then Unavailable
     else if a = CHR ''1'' \<and> b = CHR ''5'' then DataLoss
     else if a = CHR ''1'' \<and> b = CHR ''6'' then Unauthenticated
     else parse_err)"
| "from_bytes _ = parse_err"

fun to_header_value :: "Code \<Rightarrow> string" where
  "to_header_value Ok = ''0''"
| "to_header_value Cancelled = ''1''"
| "to_header_value Unknown = ''2''"
| "to_header_value InvalidArgument = ''3''"
| "to_header_value DeadlineExceeded = ''4''"
| "to_header_value NotFound = ''5''"
| "to_header_value AlreadyExists = ''6''"
| "to_header_value PermissionDenied = ''7''"
| "to_header_value ResourceExhausted = ''8''"
| "to_header_value FailedPrecondition = ''9''"
| "to_header_value Aborted = ''10''"
| "to_header_value OutOfRange = ''11''"
| "to_header_value Unimplemented = ''12''"
| "to_header_value Internal = ''13''"
| "to_header_value Unavailable = ''14''"
| "to_header_value DataLoss = ''15''"
| "to_header_value Unauthenticated = ''16''"

datatype Reason =
    NO_ERROR | PROTOCOL_ERROR | INTERNAL_ERROR | FLOW_CONTROL_ERROR | SETTINGS_TIMEOUT
  | FRAME_SIZE_ERROR | COMPRESSION_ERROR | CONNECT_ERROR | REFUSED_STREAM | CANCEL
  | ENHANCE_YOUR_CALM | INADEQUATE_SECURITY | OtherReason nat

fun code_from_h2 :: "Reason option \<Rightarrow> Code" where
  "code_from_h2 (Some NO_ERROR) = Internal"
| "code_from_h2 (Some PROTOCOL_ERROR) = Internal"
| "code_from_h2 (Some INTERNAL_ERROR) = Internal"
| "code_from_h2 (Some FLOW_CONTROL_ERROR) = Internal"
| "code_from_h2 (Some SETTINGS_TIMEOUT) = Internal"
| "code_from_h2 (Some FRAME_SIZE_ERROR) = Internal"
| "code_from_h2 (Some COMPRESSION_ERROR) = Internal"
| "code_from_h2 (Some CONNECT_ERROR) = Internal"
| "code_from_h2 (Some REFUSED_STREAM) = Unavailable"
| "code_from_h2 (Some CANCEL) = Cancelled"
| "code_from_h2 (Some ENHANCE_YOUR_CALM) = ResourceExhausted"
| "code_from_h2 (Some INADEQUATE_SECURITY) = PermissionDenied"
| "code_from_h2 _ = Unknown"

definition to_h2_reason :: "Code \<Rightarrow> Reason" where
  "to_h2_reason c = (case c of Cancelled \<Rightarrow> CANCEL | _ \<Rightarrow> INTERNAL_ERROR)"

datatype ErrorKind =
    BrokenPipe | WouldBlock | WriteZero | Interrupted | ConnectionRefused | ConnectionReset
  | NotConnected | AddrInUse | AddrNotAvailable | KindAlreadyExists | ConnectionAborted
  | InvalidData | InvalidInput | KindNotFound | KindPermissionDenied | TimedOut | UnexpectedEof
  | OtherKind nat

fun code_of_io_kind :: "ErrorKind \<Rightarrow> Code" where
  "code_of_io_kind BrokenPipe = Internal"
| "code_of_io_kind WouldBlock = Internal"
| "code_of_io_kind WriteZero = Internal"
| "code_of_io_kind Interrupted = Internal"
| "code_of_io_kind ConnectionRefused = Unavailable"
| "code_of_io_kind ConnectionReset = Unavailable"
| "code_of_io_kind NotConnected = Unavailable"
| "code_of_io_kind AddrInUse = Unavailable"
| "code_of_io_kind AddrNotAvailable = Unavailable"
| "code_of_io_kind KindAlreadyExists = AlreadyExists"
| "code_of_io_kind ConnectionAborted = Aborted"
| "code_of_io_kind InvalidData = DataLoss"
| "code_of_io_kind InvalidInput = InvalidArgument"
| "code_of_io_kind KindNotFound = NotFound"
| "code_of_io_kind KindPermissionDenied = PermissionDenied"
| "code_of_io_kind TimedOut = DeadlineExceeded"
| "code_of_io_kind UnexpectedEof = OutOfRange"
| "code_of_io_kind (OtherKind _) = Unknown"

subsection \<open>Round trips\<close>

lemma from_bytes_to_header_value [simp]: "from_bytes (to_header_value c) = c"
  by (cases c) simp_all

lemma from_i32_as_i32 [simp]: "from_i32 (as_i32 c) = c"
  by (cases c) (simp_all add: from_i32_def)

interpretation code_header: round_trip to_header_value from_bytes
  by unfold_locales simp

interpretation code_i32: round_trip as_i32 from_i32
  by unfold_locales simp

lemma from_bytes_known:
  assumes "from_bytes bs \<noteq> Unknown"
  shows "bs = to_header_value (from_bytes bs)"
  using assms
  by (induction bs rule: from_bytes.induct) (auto simp: parse_err_def split: if_splits)

lemma from_i32_known:
  assumes "from_i32 i \<noteq> Unknown"
  shows "i = as_i32 (from_i32 i)"
  using assms by (auto simp: from_i32_def split: if_splits)

subsection \<open>Properties\<close>

text \<open>
  Parsing a \<open>grpc-status\<close> value is the exact inverse of printing a code: the printed
  form of a code, and nothing else, parses to it, and every other byte string parses to \<open>Unknown\<close>.
\<close>

theorem from_bytes_inverts_to_header_value:
  "from_bytes bs =
     (if bs \<in> range to_header_value then the_inv to_header_value bs else Unknown)"
proof (cases "bs \<in> range to_header_value")
  case True
  then show ?thesis
    by (auto simp: the_inv_f_f [OF code_header.enc_inj])
next
  case False
  then show ?thesis
    using from_bytes_known [of bs] by (auto simp: image_iff)
qed

text \<open>
  Every \<open>i32\<close> converts to a code: the sixteen error codes and \<open>Ok\<close> keep their number,
  every other number, negative ones included, becomes \<open>Unknown\<close>.
\<close>

theorem from_i32_total:
  "as_i32 (from_i32 i) = (if 0 \<le> sint i \<and> sint i \<le> 16 then i else as_i32 Unknown)"
proof (cases "from_i32 i = Unknown")
  case True
  have w: "i = word_of_int k" if "sint i = k" for k
    using that by auto
  have "\<not> (0 \<le> sint i \<and> sint i \<le> 16) \<or> sint i \<in> {0,1,2,3,4,5,6,7,8,9,10,11,12,13,14,15,16}"
    by (simp only: insert_iff empty_iff) presburger
  then have "\<not> (0 \<le> sint i \<and> sint i \<le> 16) \<or> i \<in> {0,1,2,3,4,5,6,7,8,9,10,11,12,13,14,15,16}"
    by (auto dest!: w)
  then show ?thesis
    using True by (auto simp: from_i32_def split: if_splits)
next
  case False
  then have "i = as_i32 (from_i32 i)" by (rule from_i32_known)
  then show ?thesis by (cases "from_i32 i") simp_all
qed

end
