(* ===== verification/Extern.thy ===== *)
theory Extern
  imports Status_Code
begin

text \<open>
  The third-party functions the program calls, as one record of parameters: the operations of
  \<open>http::HeaderMap\<close> and \<open>http::HeaderValue\<close>, the \<open>percent_encoding\<close> and \<open>base64\<close> crates, the
  Display texts of \<open>http::StatusCode\<close> and \<open>h2::Reason\<close>, and the streaming compressors. Every definition that uses
  one of them takes the record as its first argument. What the program relies on is stated by the
  named hypotheses below, each the documented behaviour of that crate; \<open>list_ext\<close> is a concrete
  record that satisfies all of them, used where a theorem is applied to concrete data.
\<close>

datatype CompressionEncoding = Gzip | Deflate | Zstd

text \<open>A \<open>std::io::Error\<close>: its kind and its Display text.\<close>

datatype io_error = IoError (kind: ErrorKind) (io_text: string)

record 'h ext =
  hm_new :: 'h
  hm_get :: "'h \<Rightarrow> string \<Rightarrow> string option"
  hm_insert :: "'h \<Rightarrow> string \<Rightarrow> string \<Rightarrow> 'h"
  hm_remove :: "'h \<Rightarrow> string \<Rightarrow> 'h"
  hm_extend :: "'h \<Rightarrow> 'h \<Rightarrow> 'h"
  hm_iter :: "'h \<Rightarrow> (string \<times> string) list"
  hn_parse :: "string \<Rightarrow> string + string"
  hv_valid :: "string \<Rightarrow> bool"
  hv_to_str :: "string \<Rightarrow> string option"
  hv_error :: string
  pct_encode :: "(char \<Rightarrow> bool) \<Rightarrow> string \<Rightarrow> string"
  pct_decode_utf8 :: "string \<Rightarrow> string + string"
  b64_encode :: "byte list \<Rightarrow> string"
  b64_encode_no_pad :: "byte list \<Rightarrow> string"
  b64_decode :: "string \<Rightarrow> byte list option"
  b64_error :: "string \<Rightarrow> string"
  show_status_code :: "nat \<Rightarrow> string"
  show_reason :: "Reason \<Rightarrow> string"
  compressor :: "CompressionEncoding \<Rightarrow> byte list \<Rightarrow> byte list \<times> io_error option"
  decompressor :: "CompressionEncoding \<Rightarrow> byte list \<Rightarrow> byte list \<times> io_error option"

text \<open>
  \<open>HeaderMap\<close>: an insert replaces the values of its name and leaves other names alone, a remove
  drops the name, and extending with another map replaces the names that map has.
\<close>

definition header_map_laws :: "'h ext \<Rightarrow> bool" where
  "header_map_laws E \<longleftrightarrow>
     (\<forall>k. hm_get E (hm_new E) k = None) \<and>
     (\<forall>h k v j. hm_get E (hm_insert E h k v) j = (if j = k then Some v else hm_get E h j)) \<and>
     (\<forall>h k j. hm_get E (hm_remove E h k) j = (if j = k then None else hm_get E h j)) \<and>
     (\<forall>g h j. hm_get E (hm_extend E g h) j =
        (case hm_get E h j of Some v \<Rightarrow> Some v | None \<Rightarrow> hm_get E g j))"

text \<open>
  \<open>HeaderValue\<close>: visible ASCII text is an acceptable value, and \<open>to_str\<close> gives it back.
\<close>

definition visible_ascii :: "string \<Rightarrow> bool" where
  "visible_ascii s \<longleftrightarrow> (\<forall>c \<in> set s. 32 \<le> (of_char c :: nat) \<and> (of_char c :: nat) < 127)"

definition header_value_laws :: "'h ext \<Rightarrow> bool" where
  "header_value_laws E \<longleftrightarrow> (\<forall>s. visible_ascii s \<longrightarrow> hv_valid E s \<and> hv_to_str E s = Some s)"

text \<open>
  Percent-encoding: whatever the set of escaped characters is, decoding undoes encoding, and a text
  with its control characters escaped is an acceptable header value.
\<close>

definition percent_laws :: "'h ext \<Rightarrow> (char \<Rightarrow> bool) \<Rightarrow> bool" where
  "percent_laws E S \<longleftrightarrow>
     (\<forall>s. pct_decode_utf8 E (pct_encode E S s) = Inr s) \<and> (\<forall>s. hv_valid E (pct_encode E S s))"

text \<open>Base64 with indifferent padding on decode: both encoders are undone by the decoder.\<close>

definition base64_laws :: "'h ext \<Rightarrow> bool" where
  "base64_laws E \<longleftrightarrow>
     (\<forall>b. b64_decode E (b64_encode E b) = Some b) \<and>
     (\<forall>b. b64_decode E (b64_encode_no_pad E b) = Some b) \<and>
     (\<forall>b. hv_valid E (b64_encode_no_pad E b))"

text \<open>
  Iterating a \<open>HeaderMap\<close> gives its entries, the first value of a name being the one \<open>get\<close> returns. A
  map's own names are header names in their normal form without a colon, and neither they nor its
  values hold a carriage return or a line feed.
\<close>

definition header_iter_laws :: "'h ext \<Rightarrow> bool" where
  "header_iter_laws E \<longleftrightarrow> (\<forall>h. map_of (hm_iter E h) = hm_get E h)"

definition proper_entry :: "'h ext \<Rightarrow> string \<times> string \<Rightarrow> bool" where
  "proper_entry E e \<longleftrightarrow>
     hn_parse E (fst e) = Inr (fst e) \<and> hv_valid E (snd e) \<and> CHR '':'' \<notin> set (fst e) \<and>
     set (fst e @ snd e) \<inter> {CHR 0x0D, CHR 0x0A} = {}"

text \<open>Compressors: a complete compressed stream decompresses to the original without an error.\<close>

definition compression_laws :: "'h ext \<Rightarrow> bool" where
  "compression_laws E \<longleftrightarrow>
     (\<forall>c b. snd (compressor E c b) = None) \<and>
     (\<forall>c b. decompressor E c (fst (compressor E c b)) = (b, None))"

lemma header_map_lawsD:
  assumes "header_map_laws E"
  shows "hm_get E (hm_new E) k = None"
    and "hm_get E (hm_insert E h k v) j = (if j = k then Some v else hm_get E h j)"
    and "hm_get E (hm_remove E h k) j = (if j = k then None else hm_get E h j)"
    and "hm_get E (hm_extend E g h) j =
          (case hm_get E h j of Some v \<Rightarrow> Some v | None \<Rightarrow> hm_get E g j)"
  using assms unfolding header_map_laws_def by blast+

lemma hm_get_fold_remove:
  assumes "header_map_laws E"
  shows "hm_get E (foldl (hm_remove E) h ks) j = (if j \<in> set ks then None else hm_get E h j)"
  by (induction ks arbitrary: h) (simp_all add: header_map_lawsD(3) [OF assms])

subsection \<open>A concrete record\<close>

text \<open>
  Header maps as association lists, base64 and percent-encoding as reversible byte-for-byte
  copies, and a compressor that puts a magic byte in front of the data.
\<close>

definition magic :: "CompressionEncoding \<Rightarrow> byte" where
  "magic c = (case c of Gzip \<Rightarrow> 31 | Deflate \<Rightarrow> 120 | Zstd \<Rightarrow> 40)"

definition list_ext :: "(string \<times> string) list ext" where
  "list_ext =
     \<lparr>hm_new = [],
      hm_get = map_of,
      hm_insert = (\<lambda>h k v. (k, v) # filter (\<lambda>p. fst p \<noteq> k) h),
      hm_remove = (\<lambda>h k. filter (\<lambda>p. fst p \<noteq> k) h),
      hm_extend = (\<lambda>g h. h @ filter (\<lambda>p. map_of h (fst p) = None) g),
      hm_iter = (\<lambda>h. h),
      hn_parse = Inr,
      hv_valid = (\<lambda>_. True),
      hv_to_str = Some,
      hv_error = ''failed to parse header value'',
      pct_encode = (\<lambda>_ s. s),
      pct_decode_utf8 = Inr,
      b64_encode = map (\<lambda>b. char_of (unat b)),
      b64_encode_no_pad = map (\<lambda>b. char_of (unat b)),
      b64_decode = (\<lambda>s. Some (map of_char s)),
      b64_error = (\<lambda>_. ''invalid base64''),
      show_status_code = show_nat,
      show_reason = (\<lambda>_. ''reset''),
      compressor = (\<lambda>c b. (magic c # b, None)),
      decompressor = (\<lambda>c b. case b of [] \<Rightarrow> ([], Some (IoError UnexpectedEof ''unexpected end of file''))
         | m # b' \<Rightarrow> if m = magic c then (b', None) else ([], Some (IoError InvalidInput ''corrupt stream'')))\<rparr>"

lemma map_of_filter_neq: "map_of (filter (\<lambda>p. fst p \<noteq> k) h) j = (if j = k then None else map_of h j)"
  by (induction h) auto

lemma map_of_filter_key:
  "map_of (filter (\<lambda>p. P (fst p)) g) j = (if P j then map_of g j else None)"
  by (induction g) auto

lemma list_ext_header_map [simp]: "header_map_laws list_ext"
  by (auto simp: header_map_laws_def list_ext_def map_of_filter_neq map_add_def
      map_of_filter_key [where P = "\<lambda>k. map_of h k = None" for h] map_of_append split: option.splits)

lemma list_ext_header_value [simp]: "header_value_laws list_ext"
  by (simp add: header_value_laws_def list_ext_def)

lemma list_ext_percent [simp]: "percent_laws list_ext S"
  by (simp add: percent_laws_def list_ext_def)

lemma of_char_char_of_byte [simp]: "of_char (char_of (unat (b :: byte))) = b"
proof -
  have "unat b < 2 ^ 8"
    using unsigned_less [of b, where 'a = nat] by simp
  then have "unat b mod 256 = unat b"
    by simp
  then have "of_nat (of_char (char_of (unat b) :: char)) = (of_nat (unat b) :: byte)"
    by (simp only: of_char_of)
  then show ?thesis
    unfolding of_nat_of_char by simp
qed

text \<open>Header text as bytes and back.\<close>

definition bytes_of :: "string \<Rightarrow> byte list" where
  "bytes_of s = map of_char s"

definition string_of :: "byte list \<Rightarrow> string" where
  "string_of b = map (\<lambda>x. char_of (unat x)) b"

lemma bytes_of_string_of [simp]: "bytes_of (string_of b) = b"
  by (simp add: bytes_of_def string_of_def comp_def)

lemma string_of_bytes_of [simp]: "string_of (bytes_of s) = s"
proof -
  have "char_of (unat (of_char c :: byte)) = c" for c
  proof -
    have "(of_char c :: byte) = of_nat (of_char c)" by (simp only: of_nat_of_char)
    then have "unat (of_char c :: byte) = of_char c mod 256" by (simp only: unat_of_nat_byte)
    then show ?thesis by simp
  qed
  then show ?thesis by (simp add: bytes_of_def string_of_def comp_def)
qed

lemma inj_bytes_of: "bytes_of a = bytes_of b \<longleftrightarrow> a = b"
  by (metis string_of_bytes_of)

lemma list_ext_header_iter [simp]: "header_iter_laws list_ext"
  by (simp add: header_iter_laws_def list_ext_def)

lemma list_ext_base64 [simp]: "base64_laws list_ext"
  by (simp add: base64_laws_def list_ext_def comp_def)

lemma list_ext_compression [simp]: "compression_laws list_ext"
  by (simp add: compression_laws_def list_ext_def)

end
