(* ===== verification/Status.thy ===== *)
theory Status
  imports Extern
begin

text \<open>
  \<open>tonic/src/status.rs\<close>: the \<open>Status\<close> value and its constructors, its conversion to and from the
  \<open>grpc-status\<close>, \<open>grpc-message\<close> and \<open>grpc-status-details-bin\<close> headers, the inference of a status
  from an error's source chain, and from the HTTP status code when the trailers carry none.

  \<open>StatusInner\<close> and the boxed errors it can carry refer to each other, so both are one mutual
  \<open>datatype\<close>. An error is one of the types the source downcasts to (a status, an HTTP/2 error, the
  load-shed error, the timeout and connect errors, a hyper error) or any other error, with its
  Display text and its source.
\<close>

datatype 'h dyn_error =
    StatusError "'h Status"
  | H2Error "Reason option" string
  | Overloaded string
  | TimeoutExpired
  | ConnectError "'h dyn_error"
  | HyperError (is_timeout: bool) (is_canceled: bool) string "'h dyn_error option"
  | OtherError string "'h dyn_error option"
and 'h Status =
    Status (code: Code) (message: string) (details: "byte list") (metadata: 'h)
      (source: "'h dyn_error option")

definition ENCODING_SET :: "char \<Rightarrow> bool" where
  "ENCODING_SET c \<longleftrightarrow> (of_char c :: nat) < 32 \<or> (of_char c :: nat) = 127 \<or>
     c \<in> {CHR '' '', CHR 0x22, CHR ''#'', CHR ''%'', CHR ''<'', CHR ''>'', CHR 0x60, CHR ''?'',
          CHR ''{'', CHR ''}''}"

definition GRPC_STATUS :: string where "GRPC_STATUS = ''grpc-status''"
definition GRPC_MESSAGE :: string where "GRPC_MESSAGE = ''grpc-message''"
definition GRPC_STATUS_DETAILS :: string where "GRPC_STATUS_DETAILS = ''grpc-status-details-bin''"

definition GRPC_RESERVED_HEADERS :: "string list" where
  "GRPC_RESERVED_HEADERS =
     [''te'', ''content-type'', ''grpc-message'', ''grpc-message-type'', ''grpc-status'']"

subsection \<open>Constructors\<close>

definition new_status :: "'h ext \<Rightarrow> Code \<Rightarrow> string \<Rightarrow> 'h Status" where
  "new_status E c msg = Status c msg [] (hm_new E) None"

definition with_details_and_metadata :: "Code \<Rightarrow> string \<Rightarrow> byte list \<Rightarrow> 'h \<Rightarrow> 'h Status" where
  "with_details_and_metadata c msg d md = Status c msg d md None"

definition with_details :: "'h ext \<Rightarrow> Code \<Rightarrow> string \<Rightarrow> byte list \<Rightarrow> 'h Status" where
  "with_details E c msg d = with_details_and_metadata c msg d (hm_new E)"

definition with_metadata :: "Code \<Rightarrow> string \<Rightarrow> 'h \<Rightarrow> 'h Status" where
  "with_metadata c msg md = with_details_and_metadata c msg [] md"

definition set_source :: "'h dyn_error \<Rightarrow> 'h Status \<Rightarrow> 'h Status" where
  "set_source e s = Status (code s) (message s) (details s) (metadata s) (Some e)"

definition status_ok :: "'h ext \<Rightarrow> string \<Rightarrow> 'h Status" where
  "status_ok E = new_status E Ok"
definition cancelled :: "'h ext \<Rightarrow> string \<Rightarrow> 'h Status" where
  "cancelled E = new_status E Cancelled"
definition unknown :: "'h ext \<Rightarrow> string \<Rightarrow> 'h Status" where
  "unknown E = new_status E Unknown"
definition out_of_range :: "'h ext \<Rightarrow> string \<Rightarrow> 'h Status" where
  "out_of_range E = new_status E OutOfRange"
definition resource_exhausted :: "'h ext \<Rightarrow> string \<Rightarrow> 'h Status" where
  "resource_exhausted E = new_status E ResourceExhausted"
definition unimplemented :: "'h ext \<Rightarrow> string \<Rightarrow> 'h Status" where
  "unimplemented E = new_status E Unimplemented"
definition internal :: "'h ext \<Rightarrow> string \<Rightarrow> 'h Status" where
  "internal E = new_status E Internal"
definition unavailable :: "'h ext \<Rightarrow> string \<Rightarrow> 'h Status" where
  "unavailable E = new_status E Unavailable"
definition data_loss :: "'h ext \<Rightarrow> string \<Rightarrow> 'h Status" where
  "data_loss E = new_status E DataLoss"

lemmas constructor_defs =
  new_status_def with_details_and_metadata_def with_details_def with_metadata_def status_ok_def
  cancelled_def unknown_def out_of_range_def resource_exhausted_def unimplemented_def internal_def
  unavailable_def data_loss_def set_source_def

subsection \<open>Headers\<close>

definition into_sanitized_headers :: "'h ext \<Rightarrow> 'h \<Rightarrow> 'h" where
  "into_sanitized_headers E h = foldl (hm_remove E) h GRPC_RESERVED_HEADERS"

definition from_header_map :: "'h ext \<Rightarrow> 'h \<Rightarrow> 'h Status option option" where
  "from_header_map E h =
     (case hm_get E h GRPC_STATUS of
        None \<Rightarrow> Some None
      | Some v \<Rightarrow>
          (let c = from_bytes v;
               error_message = (case hm_get E h GRPC_MESSAGE of
                                  Some m \<Rightarrow> pct_decode_utf8 E m
                                | None \<Rightarrow> Inr [])
           in do {
             details \<leftarrow> (case hm_get E h GRPC_STATUS_DETAILS of
                           Some d \<Rightarrow> b64_decode E d
                         | None \<Rightarrow> Some []);
             let other_headers =
               hm_remove E (hm_remove E (hm_remove E h GRPC_STATUS) GRPC_MESSAGE) GRPC_STATUS_DETAILS;
             let (c', msg) = (case error_message of
                 Inr m \<Rightarrow> (c, m)
               | Inl e \<Rightarrow> (Unknown, ''Error deserializing status message header: '' @ e));
             Some (Some (Status c' msg details other_headers None))
           }))"

definition invalid_header_value_byte :: "'h ext \<Rightarrow> 'h Status" where
  "invalid_header_value_byte E =
     new_status E Internal (''Couldn'' @ [CHR 0x27] @ ''t serialize non-text grpc status header'')"

definition add_header :: "'h ext \<Rightarrow> 'h Status \<Rightarrow> 'h \<Rightarrow> ('h Status + unit) \<times> 'h" where
  "add_header E s h =
     (let h1 = hm_extend E h (into_sanitized_headers E (metadata s));
          h2 = hm_insert E h1 GRPC_STATUS (to_header_value (code s));
          m = pct_encode E ENCODING_SET (message s);
          d = b64_encode_no_pad E (details s)
      in if message s \<noteq> [] \<and> \<not> hv_valid E m then (Inl (invalid_header_value_byte E), h2)
         else
           (let h3 = (if message s \<noteq> [] then hm_insert E h2 GRPC_MESSAGE m else h2)
            in if details s \<noteq> [] \<and> \<not> hv_valid E d then (Inl (invalid_header_value_byte E), h3)
               else (Inr (), if details s \<noteq> [] then hm_insert E h3 GRPC_STATUS_DETAILS d else h3)))"

definition to_header_map :: "'h ext \<Rightarrow> 'h Status \<Rightarrow> 'h Status + 'h" where
  "to_header_map E s =
     (case add_header E s (hm_new E) of (Inr _, h) \<Rightarrow> Inr h | (Inl e, _) \<Rightarrow> Inl e)"

text \<open>\<open>Status::into_http\<close>: the response's headers and the status kept as its extension.\<close>

definition into_http :: "'h ext \<Rightarrow> 'h Status \<Rightarrow> ('h \<times> 'h Status) option" where
  "into_http E s =
     (case add_header E s (hm_insert E (hm_new E) ''content-type'' ''application/grpc'') of
        (Inr _, h) \<Rightarrow> Some (h, s)
      | (Inl _, _) \<Rightarrow> None)"

subsection \<open>Statuses from errors\<close>

text \<open>
  \<open>to_string\<close> of an error: \<open>Display\<close> of the timeout and connect errors is the source's; \<open>disp\<close> is
  the \<open>Display\<close> text of every other error.
\<close>

fun error_text :: "('h dyn_error \<Rightarrow> string) \<Rightarrow> 'h dyn_error \<Rightarrow> string" where
  "error_text disp TimeoutExpired = ''Timeout expired''"
| "error_text disp (ConnectError e) = error_text disp e"
| "error_text disp e = disp e"

definition from_h2_error :: "'h ext \<Rightarrow> Reason option \<Rightarrow> string \<Rightarrow> 'h Status" where
  "from_h2_error E r t =
     set_source (H2Error r t) (new_status E (code_from_h2 r) (''h2 protocol error: '' @ t))"

definition from_hyper_error :: "'h ext \<Rightarrow> bool \<Rightarrow> bool \<Rightarrow> string \<Rightarrow> 'h dyn_error option \<Rightarrow> 'h Status option" where
  "from_hyper_error E timeout canceled t src =
     (if timeout then Some (unavailable E t)
      else if canceled then Some (cancelled E t)
      else (case src of
              Some (H2Error r _) \<Rightarrow> Some (new_status E (code_from_h2 r) (''h2 protocol error: '' @ t))
            | _ \<Rightarrow> None))"

fun find_status_in_source_chain :: "'h ext \<Rightarrow> ('h dyn_error \<Rightarrow> string) \<Rightarrow> 'h dyn_error \<Rightarrow> 'h Status option" where
  "find_status_in_source_chain E disp (StatusError s) =
     Some (Status (code s) (message s) (details s) (metadata s) None)"
| "find_status_in_source_chain E disp TimeoutExpired =
     Some (cancelled E (error_text disp TimeoutExpired))"
| "find_status_in_source_chain E disp (ConnectError e) =
     Some (unavailable E (error_text disp (ConnectError e)))"
| "find_status_in_source_chain E disp (HyperError timeout canceled t None) =
     from_hyper_error E timeout canceled t None"
| "find_status_in_source_chain E disp (HyperError timeout canceled t (Some src)) =
     (case from_hyper_error E timeout canceled t (Some src) of
        Some s \<Rightarrow> Some s
      | None \<Rightarrow> find_status_in_source_chain E disp src)"
| "find_status_in_source_chain E disp (H2Error r t) = None"
| "find_status_in_source_chain E disp (Overloaded t) = None"
| "find_status_in_source_chain E disp (OtherError t None) = None"
| "find_status_in_source_chain E disp (OtherError t (Some src)) = find_status_in_source_chain E disp src"

definition try_from_error ::
    "'h ext \<Rightarrow> ('h dyn_error \<Rightarrow> string) \<Rightarrow> 'h dyn_error \<Rightarrow> 'h dyn_error + 'h Status" where
  "try_from_error E disp err =
     (case err of
        StatusError s \<Rightarrow> Inr s
      | H2Error r t \<Rightarrow> Inr (from_h2_error E r t)
      | Overloaded t \<Rightarrow> Inr (resource_exhausted E ''Too many active requests for the connection'')
      | _ \<Rightarrow> (case find_status_in_source_chain E disp err of
                Some s \<Rightarrow> Inr (set_source err s)
              | None \<Rightarrow> Inl err))"

definition from_error :: "'h ext \<Rightarrow> ('h dyn_error \<Rightarrow> string) \<Rightarrow> 'h dyn_error \<Rightarrow> 'h Status" where
  "from_error E disp err =
     (case try_from_error E disp err of
        Inr s \<Rightarrow> s
      | Inl e \<Rightarrow> set_source e (new_status E Unknown (error_text disp e)))"

definition status_of_io_error :: "'h ext \<Rightarrow> ErrorKind \<Rightarrow> string \<Rightarrow> 'h Status" where
  "status_of_io_error E k t = new_status E (code_of_io_kind k) t"

subsection \<open>Inferring the status of a response\<close>

definition MISSING_STATUS_MESSAGE :: string where
  "MISSING_STATUS_MESSAGE =
     ''protocol error: missing grpc-status trailer, stream was terminated without a final status '' @
     ''(possible truncation by a proxy or load balancer)''"

text \<open>The code for an HTTP status without a \<open>grpc-status\<close>, \<open>200\<close> excepted.\<close>

definition code_of_http :: "nat \<Rightarrow> Code" where
  "code_of_http sc =
     (if sc = 400 then Internal
      else if sc = 401 then Unauthenticated
      else if sc = 403 then PermissionDenied
      else if sc = 404 then Unimplemented
      else if sc = 429 \<or> sc = 502 \<or> sc = 503 \<or> sc = 504 then Unavailable
      else Unknown)"

definition infer_grpc_status :: "'h ext \<Rightarrow> 'h option \<Rightarrow> nat \<Rightarrow> ('h Status option + unit) option" where
  "infer_grpc_status E trailers sc =
     do {
       found \<leftarrow> (case trailers of None \<Rightarrow> Some None | Some t \<Rightarrow> from_header_map E t);
       Some (case found of
           Some s \<Rightarrow> if code s = Ok then Inr () else Inl (Some s)
         | None \<Rightarrow>
             if sc = 200 then Inl (Some (unknown E MISSING_STATUS_MESSAGE))
             else Inl (Some (new_status E (code_of_http sc)
               (''grpc-status header missing, mapped from HTTP status code '' @ show_nat sc))))
     }"

subsection \<open>Lemmas\<close>

lemma reserved_names [simp]:
  "GRPC_STATUS \<in> set GRPC_RESERVED_HEADERS" "GRPC_MESSAGE \<in> set GRPC_RESERVED_HEADERS"
  "GRPC_STATUS_DETAILS \<notin> set GRPC_RESERVED_HEADERS"
  "GRPC_STATUS \<noteq> GRPC_MESSAGE" "GRPC_STATUS \<noteq> GRPC_STATUS_DETAILS" "GRPC_MESSAGE \<noteq> GRPC_STATUS_DETAILS"
  "GRPC_MESSAGE \<noteq> GRPC_STATUS" "GRPC_STATUS_DETAILS \<noteq> GRPC_STATUS" "GRPC_STATUS_DETAILS \<noteq> GRPC_MESSAGE"
  by (simp_all add: GRPC_STATUS_def GRPC_MESSAGE_def GRPC_STATUS_DETAILS_def GRPC_RESERVED_HEADERS_def)

lemma hm_get_sanitized:
  "header_map_laws E \<Longrightarrow>
     hm_get E (into_sanitized_headers E h) k =
       (if k \<in> set GRPC_RESERVED_HEADERS then None else hm_get E h k)"
  by (simp add: into_sanitized_headers_def hm_get_fold_remove)

text \<open>The headers a status is written to, one name at a time.\<close>

lemma to_header_map_get:
  assumes "header_map_laws E" and "percent_laws E ENCODING_SET" and "base64_laws E"
  obtains h where "to_header_map E s = Inr h"
    and "hm_get E h GRPC_STATUS = Some (to_header_value (code s))"
    and "hm_get E h GRPC_MESSAGE =
           (if message s = [] then None else Some (pct_encode E ENCODING_SET (message s)))"
    and "hm_get E h GRPC_STATUS_DETAILS =
           (if details s = [] then hm_get E (metadata s) GRPC_STATUS_DETAILS
            else Some (b64_encode_no_pad E (details s)))"
    and "\<And>k. k \<notin> {GRPC_STATUS, GRPC_MESSAGE, GRPC_STATUS_DETAILS} \<Longrightarrow>
           hm_get E h k = (if k \<in> set GRPC_RESERVED_HEADERS then None else hm_get E (metadata s) k)"
proof -
  note L = header_map_lawsD [OF assms(1)] hm_get_sanitized [OF assms(1)]
  have V: "hv_valid E (pct_encode E ENCODING_SET (message s))" "hv_valid E (b64_encode_no_pad E (details s))"
    using assms(2,3) by (simp_all add: percent_laws_def base64_laws_def)
  show thesis
    by (rule that [of "snd (add_header E s (hm_new E))"])
      (auto simp: to_header_map_def add_header_def Let_def L V split: option.splits)
qed

lemma from_header_map_get:
  assumes "hm_get E h GRPC_STATUS = Some v"
    and "(case hm_get E h GRPC_MESSAGE of Some m \<Rightarrow> pct_decode_utf8 E m | None \<Rightarrow> Inr []) = Inr msg"
    and "(case hm_get E h GRPC_STATUS_DETAILS of Some d \<Rightarrow> b64_decode E d | None \<Rightarrow> Some []) = Some d"
  shows "from_header_map E h =
     Some (Some (Status (from_bytes v) msg d
       (hm_remove E (hm_remove E (hm_remove E h GRPC_STATUS) GRPC_MESSAGE) GRPC_STATUS_DETAILS) None))"
  using assms by (simp add: from_header_map_def)

lemma from_bytes_eq_Ok: "from_bytes v = Ok \<longleftrightarrow> v = ''0''"
  using from_bytes_known [of v] by fastforce

lemma infer_grpc_status_Inr:
  "infer_grpc_status E tr sc = Some (Inr ()) \<longleftrightarrow>
     (\<exists>t s. tr = Some t \<and> from_header_map E t = Some (Some s) \<and> code s = Ok)"
proof (cases tr)
  case (Some t)
  then show ?thesis
    by (cases "from_header_map E t"; cases "the (from_header_map E t)")
      (auto simp: infer_grpc_status_def)
qed (simp add: infer_grpc_status_def)

lemma from_header_map_Ok:
  "(\<exists>s. from_header_map E t = Some (Some s) \<and> code s = Ok) \<longleftrightarrow>
     hm_get E t GRPC_STATUS = Some ''0'' \<and>
     (case hm_get E t GRPC_MESSAGE of None \<Rightarrow> True | Some m \<Rightarrow> \<not> isl (pct_decode_utf8 E m)) \<and>
     (case hm_get E t GRPC_STATUS_DETAILS of None \<Rightarrow> True | Some d \<Rightarrow> b64_decode E d \<noteq> None)"
  by (auto simp: from_header_map_def Let_def bind_eq_Some_conv from_bytes_eq_Ok
      split: option.splits sum.splits)

lemma to_from_header_map:
  assumes "header_map_laws E" and "percent_laws E ENCODING_SET" and "base64_laws E"
    and "details s \<noteq> [] \<or> hm_get E (metadata s) GRPC_STATUS_DETAILS = None"
  obtains h s' where "to_header_map E s = Inr h" "from_header_map E h = Some (Some s')"
    "code s' = code s" "message s' = message s" "details s' = details s"
    "\<And>k. hm_get E (metadata s') k =
       (if k \<in> set GRPC_RESERVED_HEADERS \<or> k = GRPC_STATUS_DETAILS then None else hm_get E (metadata s) k)"
proof -
  obtain h where h: "to_header_map E s = Inr h"
    "hm_get E h GRPC_STATUS = Some (to_header_value (code s))"
    "hm_get E h GRPC_MESSAGE =
       (if message s = [] then None else Some (pct_encode E ENCODING_SET (message s)))"
    "hm_get E h GRPC_STATUS_DETAILS =
       (if details s = [] then hm_get E (metadata s) GRPC_STATUS_DETAILS
        else Some (b64_encode_no_pad E (details s)))"
    "\<And>k. k \<notin> {GRPC_STATUS, GRPC_MESSAGE, GRPC_STATUS_DETAILS} \<Longrightarrow>
       hm_get E h k = (if k \<in> set GRPC_RESERVED_HEADERS then None else hm_get E (metadata s) k)"
    using to_header_map_get [OF assms(1-3)] by blast
  have m: "(case hm_get E h GRPC_MESSAGE of Some m \<Rightarrow> pct_decode_utf8 E m | None \<Rightarrow> Inr []) = Inr (message s)"
    using assms(2) h(3) by (simp add: percent_laws_def)
  have d: "(case hm_get E h GRPC_STATUS_DETAILS of Some d \<Rightarrow> b64_decode E d | None \<Rightarrow> Some []) = Some (details s)"
    using assms(3,4) h(4) by (auto simp: base64_laws_def)
  show thesis
    by (rule that [OF h(1) from_header_map_get [OF h(2) m d]])
      (auto simp: header_map_lawsD [OF assms(1)] h(5))
qed

subsection \<open>Properties\<close>



text \<open>
  A status without details whose metadata has a \<open>grpc-status-details-bin\<close> entry comes
  back with that entry as its details: the name is not among the reserved headers, so the entry is
  sent, although the metadata field is documented to ignore names reserved by the status fields.
\<close>

theorem status_details_from_metadata:
  assumes "header_map_laws E" and "percent_laws E ENCODING_SET" and "base64_laws E"
    and "details s = []" and "hm_get E (metadata s) GRPC_STATUS_DETAILS = Some v"
    and "b64_decode E v = Some d"
  shows "\<exists>h s'. to_header_map E s = Inr h \<and> from_header_map E h = Some (Some s') \<and> details s' = d"
proof -
  obtain h where h: "to_header_map E s = Inr h"
    "hm_get E h GRPC_STATUS = Some (to_header_value (code s))"
    "hm_get E h GRPC_MESSAGE =
       (if message s = [] then None else Some (pct_encode E ENCODING_SET (message s)))"
    "hm_get E h GRPC_STATUS_DETAILS = Some v"
    using to_header_map_get [OF assms(1-3), of s] assms(4,5) by auto
  have m: "(case hm_get E h GRPC_MESSAGE of Some m \<Rightarrow> pct_decode_utf8 E m | None \<Rightarrow> Inr []) = Inr (message s)"
    using assms(2) h(3) by (simp add: percent_laws_def)
  show ?thesis
    using h(1) from_header_map_get [OF h(2) m, of d] h(4) assms(6) by auto
qed

theorem status_details_from_metadata_witness:
  "\<exists>h s'. to_header_map list_ext (Status NotFound [] [] [(GRPC_STATUS_DETAILS, ''ab'')] None) = Inr h \<and>
     from_header_map list_ext h = Some (Some s') \<and> details s' = [97, 98]"
  using status_details_from_metadata
      [of list_ext "Status NotFound [] [] [(GRPC_STATUS_DETAILS, ''ab'')] None" "''ab''" "[97, 98]"]
  by (simp add: list_ext_def [THEN arg_cong, of hm_get] list_ext_def [THEN arg_cong, of b64_decode])

text \<open>
  Reading a status from headers panics exactly when the headers carry a \<open>grpc-status\<close>
  and a \<open>grpc-status-details-bin\<close> that is not base64; in every other case it returns.
\<close>

theorem from_header_map_panics_iff:
  "from_header_map E h = None \<longleftrightarrow>
     (\<exists>v d. hm_get E h GRPC_STATUS = Some v \<and> hm_get E h GRPC_STATUS_DETAILS = Some d \<and>
            b64_decode E d = None)"
  by (auto simp: from_header_map_def Let_def bind_eq_None_conv split: option.splits sum.splits)

text \<open>
  The inferred status of a response is success exactly when its trailers hold
  \<open>grpc-status: 0\<close> with a message that decodes and details that decode: no HTTP status code alone,
  \<open>200\<close> included, is taken for success.
\<close>

theorem infer_grpc_status_ok_iff:
  "infer_grpc_status E tr sc = Some (Inr ()) \<longleftrightarrow>
     (\<exists>t. tr = Some t \<and> hm_get E t GRPC_STATUS = Some ''0'' \<and>
        (case hm_get E t GRPC_MESSAGE of None \<Rightarrow> True | Some m \<Rightarrow> \<not> isl (pct_decode_utf8 E m)) \<and>
        (case hm_get E t GRPC_STATUS_DETAILS of None \<Rightarrow> True | Some d \<Rightarrow> b64_decode E d \<noteq> None))"
  unfolding infer_grpc_status_Inr using from_header_map_Ok [of E] by blast

text \<open>
  Without a \<open>grpc-status\<close> the inferred status is never success: it is \<open>Unknown\<close> for HTTP
  \<open>200\<close> and the mapped code otherwise, and an error status is always given.
\<close>

theorem infer_grpc_status_missing:
  assumes "case tr of None \<Rightarrow> True | Some t \<Rightarrow> hm_get E t GRPC_STATUS = None"
  shows "\<exists>s. infer_grpc_status E tr sc = Some (Inl (Some s)) \<and> code s \<noteq> Ok \<and>
           code s = (if sc = 200 then Unknown else code_of_http sc)"
  using assms
  by (auto simp: infer_grpc_status_def from_header_map_def constructor_defs code_of_http_def
      split: option.splits)

theorem infer_grpc_status_missing_witness:
  "\<exists>s. infer_grpc_status list_ext (Some [(''x'', ''y'')]) 503 = Some (Inl (Some s)) \<and>
     code s \<noteq> Ok \<and> code s = Unavailable"
  using infer_grpc_status_missing [of list_ext "Some [(''x'', ''y'')]" 503]
  by (simp add: list_ext_def [THEN arg_cong, of hm_get] GRPC_STATUS_def code_of_http_def)

text \<open>
  A status wrapped in any number of errors of types the program does not recognise is
  recovered from the source chain with its code, message, details and metadata.
\<close>

theorem from_error_recovers_nested_status:
  "\<exists>src. from_error E disp (foldr (\<lambda>t e. OtherError t (Some e)) ts (StatusError s)) =
     Status (code s) (message s) (details s) (metadata s) src"
proof -
  have "find_status_in_source_chain E disp (foldr (\<lambda>t e. OtherError t (Some e)) ts (StatusError s)) =
      Some (Status (code s) (message s) (details s) (metadata s) None)"
    by (induction ts) simp_all
  then show ?thesis
    by (cases ts; cases s) (simp_all add: from_error_def try_from_error_def set_source_def)
qed

end
