(* ===== verification/Compression.thy ===== *)
theory Compression
  imports Status
begin

text \<open>
  \<open>tonic/src/codec/compression.rs\<close>: the ordered list of enabled encodings, the negotiation of an
  encoding through the \<open>grpc-encoding\<close> and \<open>grpc-accept-encoding\<close> headers, and the compression of
  one message. All three encodings are compiled in. The buffers are byte lists; their capacity
  (\<open>reserve\<close>) has no effect on their contents and is not modelled, but the division by
  \<open>buffer_growth_interval\<close> that computes it is: it panics for an interval of zero.
\<close>

definition ENCODING_HEADER :: string where "ENCODING_HEADER = ''grpc-encoding''"
definition ACCEPT_ENCODING_HEADER :: string where "ACCEPT_ENCODING_HEADER = ''grpc-accept-encoding''"

record EnabledCompressionEncodings =
  inner :: "CompressionEncoding option list"

definition default_encodings :: EnabledCompressionEncodings where
  "default_encodings = \<lparr>inner = [None, None, None]\<rparr>"

fun enable_slot :: "CompressionEncoding \<Rightarrow> CompressionEncoding option list \<Rightarrow> CompressionEncoding option list" where
  "enable_slot c [] = []"
| "enable_slot c (None # es) = Some c # es"
| "enable_slot c (Some e # es) = (if e = c then Some e # es else Some e # enable_slot c es)"

definition enable :: "CompressionEncoding \<Rightarrow> EnabledCompressionEncodings \<Rightarrow> EnabledCompressionEncodings" where
  "enable c s = s\<lparr>inner := enable_slot c (inner s)\<rparr>"

text \<open>\<open>pop\<close>: from the back, the first slot that is filled is taken.\<close>

fun take_first :: "'a option list \<Rightarrow> 'a option \<times> 'a option list" where
  "take_first [] = (None, [])"
| "take_first (None # es) = (let (r, es') = take_first es in (r, None # es'))"
| "take_first (Some e # es) = (Some e, None # es)"

definition pop :: "EnabledCompressionEncodings \<Rightarrow> CompressionEncoding option \<times> EnabledCompressionEncodings" where
  "pop s = (let (r, es) = take_first (rev (inner s)) in (r, s\<lparr>inner := rev es\<rparr>))"

definition is_enabled :: "CompressionEncoding \<Rightarrow> EnabledCompressionEncodings \<Rightarrow> bool" where
  "is_enabled c s \<longleftrightarrow> Some c \<in> set (inner s)"

definition is_empty :: "EnabledCompressionEncodings \<Rightarrow> bool" where
  "is_empty s \<longleftrightarrow> list_all (\<lambda>e. e = None) (inner s)"

fun as_str :: "CompressionEncoding \<Rightarrow> string" where
  "as_str Gzip = ''gzip''"
| "as_str Deflate = ''deflate''"
| "as_str Zstd = ''zstd''"

definition flatten :: "'a option list \<Rightarrow> 'a list" where
  "flatten xs = map the (filter (\<lambda>x. x \<noteq> None) xs)"

definition into_accept_encoding_header_value ::
    "'h ext \<Rightarrow> EnabledCompressionEncodings \<Rightarrow> string option option" where
  "into_accept_encoding_header_value E s =
     (let value = concat (map (\<lambda>c. as_str c @ '','') (flatten (inner s)))
      in if value = [] then Some None
         else let value' = value @ ''identity''
              in if hv_valid E value' then Some (Some value') else None)"

definition split_by_comma :: "string \<Rightarrow> string list" where
  "split_by_comma s = map trim (split_on (CHR '','') s)"

definition encoding_named :: "EnabledCompressionEncodings \<Rightarrow> string \<Rightarrow> CompressionEncoding option" where
  "encoding_named s v =
     (if v = ''gzip'' \<and> is_enabled Gzip s then Some Gzip
      else if v = ''deflate'' \<and> is_enabled Deflate s then Some Deflate
      else if v = ''zstd'' \<and> is_enabled Zstd s then Some Zstd
      else None)"

definition from_accept_encoding_header ::
    "'h ext \<Rightarrow> 'h \<Rightarrow> EnabledCompressionEncodings \<Rightarrow> CompressionEncoding option" where
  "from_accept_encoding_header E h s =
     (if is_empty s then None
      else do {
        v \<leftarrow> hm_get E h ACCEPT_ENCODING_HEADER;
        t \<leftarrow> hv_to_str E v;
        find_map (encoding_named s) (split_by_comma t)
      })"

definition from_encoding_header ::
    "'h ext \<Rightarrow> 'h \<Rightarrow> EnabledCompressionEncodings \<Rightarrow> ('h Status + CompressionEncoding option) option" where
  "from_encoding_header E h s =
     (case hm_get E h ENCODING_HEADER of
        None \<Rightarrow> Some (Inr None)
      | Some v \<Rightarrow>
          (case encoding_named s v of
             Some c \<Rightarrow> Some (Inr (Some c))
           | None \<Rightarrow>
               if v = ''identity'' then Some (Inr None)
               else do {
                 let other = (if valid_utf8 (map of_char v) then v else debug_bytes v);
                 let status = unimplemented E
                   (''Content is compressed with `'' @ other @ ''` which isn'' @ [CHR 0x27] @ ''t supported'');
                 accept \<leftarrow> into_accept_encoding_header_value E s;
                 let header_value = (case accept of Some a \<Rightarrow> a | None \<Rightarrow> ''identity'');
                 Some (Inl (Status (code status) (message status) (details status)
                   (hm_insert E (metadata status) ACCEPT_ENCODING_HEADER header_value) (source status)))
               }))"

record CompressionSettings =
  cs_encoding :: CompressionEncoding
  buffer_growth_interval :: nat

text \<open>
  \<open>compress\<close> and \<open>decompress\<close> return the io error, the source buffer and the output buffer.
  The output of \<open>decompress\<close> goes through a limited writer, which fails with \<open>WriteZero\<close> when
  there is more than \<open>limit\<close> bytes to write.
\<close>

definition write_zero :: io_error where
  "write_zero = IoError WriteZero ''failed to write whole buffer''"

definition compress ::
    "'h ext \<Rightarrow> CompressionSettings \<Rightarrow> byte list \<Rightarrow> byte list \<Rightarrow> nat \<Rightarrow>
     ((io_error + unit) \<times> byte list \<times> byte list) option" where
  "compress E settings decompressed_buf out_buf len =
     (if buffer_growth_interval settings = 0 \<or> length decompressed_buf < len then None
      else (case compressor E (cs_encoding settings) (take len decompressed_buf) of
              (bs, Some k) \<Rightarrow> Some (Inl k, decompressed_buf, out_buf @ bs)
            | (bs, None) \<Rightarrow> Some (Inr (), drop len decompressed_buf, out_buf @ bs)))"

definition decompress ::
    "'h ext \<Rightarrow> CompressionSettings \<Rightarrow> byte list \<Rightarrow> byte list \<Rightarrow> nat \<Rightarrow> nat \<Rightarrow>
     ((io_error + unit) \<times> byte list \<times> byte list) option" where
  "decompress E settings compressed_buf out_buf limit len =
     (if buffer_growth_interval settings = 0 \<or> length compressed_buf < len then None
      else (case decompressor E (cs_encoding settings) (take len compressed_buf) of
              (bs, err) \<Rightarrow>
                if limit < length bs then Some (Inl write_zero, compressed_buf, out_buf @ take limit bs)
                else (case err of
                        Some k \<Rightarrow> Some (Inl k, compressed_buf, out_buf @ bs)
                      | None \<Rightarrow> Some (Inr (), drop len compressed_buf, out_buf @ bs))))"

datatype SingleMessageCompressionOverride = Inherit | Disable

subsection \<open>The abstract list of enabled encodings\<close>

text \<open>
  The contract of an ordered list of enabled encodings: enabling adds at the end what is not
  there yet, popping removes the last. \<open>abs\<close> is the list, \<open>ok\<close> the representation invariant.
\<close>

locale ordered_encodings =
  fixes empty :: 's and add :: "'c \<Rightarrow> 's \<Rightarrow> 's" and pop_last :: "'s \<Rightarrow> 'c option \<times> 's"
    and has :: "'c \<Rightarrow> 's \<Rightarrow> bool" and abs :: "'s \<Rightarrow> 'c list" and ok :: "'s \<Rightarrow> bool"
  assumes abs_empty: "ok empty" "abs empty = []"
    and ok_add: "ok s \<Longrightarrow> ok (add c s)"
    and abs_add: "ok s \<Longrightarrow> abs (add c s) = (if c \<in> set (abs s) then abs s else abs s @ [c])"
    and ok_pop: "ok s \<Longrightarrow> ok (snd (pop_last s))"
    and abs_pop: "ok s \<Longrightarrow> abs (snd (pop_last s)) = butlast (abs s)"
    and pop_value: "ok s \<Longrightarrow> fst (pop_last s) = (if abs s = [] then None else Some (last (abs s)))"
    and has_abs: "ok s \<Longrightarrow> has c s \<longleftrightarrow> c \<in> set (abs s)"
begin

lemma ok_fold: "ok s \<Longrightarrow> ok (fold add cs s)"
  by (induction cs arbitrary: s) (simp_all add: ok_add)

lemma has_add: "ok s \<Longrightarrow> has x (add c s) \<longleftrightarrow> x = c \<or> has x s"
  by (auto simp: has_abs ok_add abs_add)

lemma has_fold: "ok s \<Longrightarrow> has x (fold add cs s) \<longleftrightarrow> x \<in> set cs \<or> has x s"
  by (induction cs arbitrary: s) (auto simp: ok_add has_add)

lemma distinct_add: "ok s \<Longrightarrow> distinct (abs s) \<Longrightarrow> distinct (abs (add c s))"
  by (simp add: abs_add)

lemma distinct_fold: "ok s \<Longrightarrow> distinct (abs s) \<Longrightarrow> distinct (abs (fold add cs s))"
  by (induction cs arbitrary: s) (simp_all add: ok_add distinct_add)

lemma pop_add: "ok s \<Longrightarrow> \<not> has c s \<Longrightarrow> fst (pop_last (add c s)) = Some c \<and> abs (snd (pop_last (add c s))) = abs s"
  by (simp add: pop_value abs_pop ok_add abs_add has_abs)

end

definition encodings_list :: "EnabledCompressionEncodings \<Rightarrow> CompressionEncoding list" where
  "encodings_list s = flatten (inner s)"

text \<open>The filled slots come first and hold distinct encodings; there are three slots.\<close>

definition wf_encodings :: "EnabledCompressionEncodings \<Rightarrow> bool" where
  "wf_encodings s \<longleftrightarrow>
     distinct (encodings_list s) \<and> length (encodings_list s) \<le> 3 \<and>
     inner s = map Some (encodings_list s) @ replicate (3 - length (encodings_list s)) None"

lemma flatten_simps [simp]:
  "flatten [] = []" "flatten (None # xs) = flatten xs" "flatten (Some x # xs) = x # flatten xs"
  "flatten (xs @ ys) = flatten xs @ flatten ys" "flatten (map Some es) = es"
  "flatten (replicate n None) = []"
  by (simp_all add: flatten_def filter_map comp_def)

lemma UNIV_CompressionEncoding: "(UNIV :: CompressionEncoding set) = {Gzip, Deflate, Zstd}"
  by (auto intro: CompressionEncoding.exhaust)

lemma three_encodings:
  fixes es :: "CompressionEncoding list"
  assumes "distinct es" and "c \<notin> set es"
  shows "length es < 3"
proof -
  have "insert c (set es) \<subseteq> {Gzip, Deflate, Zstd}"
    using UNIV_CompressionEncoding by blast
  then have "card (insert c (set es)) \<le> card {Gzip, Deflate, Zstd}"
    by (rule card_mono [rotated]) simp
  then show ?thesis
    using assms by (simp add: distinct_card card_insert_if)
qed

lemma enable_slot_filled:
  "enable_slot c (map Some es @ replicate n None) =
     (if c \<in> set es \<or> n = 0 then map Some es @ replicate n None
      else map Some (es @ [c]) @ replicate (n - 1) None)"
  by (induction es; cases n) auto

lemma take_first_filled:
  "take_first (replicate n None @ rev (map Some es)) =
     (if es = [] then (None, replicate n None)
      else (Some (last es), replicate n None @ None # rev (map Some (butlast es))))"
proof (induction n)
  case 0
  then show ?case by (cases es rule: rev_cases) simp_all
next
  case (Suc n)
  then show ?case by (auto split: prod.splits)
qed

lemma wf_encodingsE:
  assumes "wf_encodings s"
  obtains es where "distinct es" "length es \<le> 3" "encodings_list s = es"
    "inner s = map Some es @ replicate (3 - length es) None"
  using assms unfolding wf_encodings_def by blast

lemma wf_encodingsI:
  assumes "inner s = map Some es @ replicate (3 - length es) None" "distinct es" "length es \<le> 3"
  shows "wf_encodings s" "encodings_list s = es"
  using assms by (simp_all add: wf_encodings_def encodings_list_def)

lemma enable_wf:
  assumes "wf_encodings s"
  shows "wf_encodings (enable c s)"
    and "encodings_list (enable c s) =
          (if c \<in> set (encodings_list s) then encodings_list s else encodings_list s @ [c])"
proof -
  from assms obtain es where es: "distinct es" "length es \<le> 3" "encodings_list s = es"
    "inner s = map Some es @ replicate (3 - length es) None"
    by (rule wf_encodingsE)
  let ?es = "if c \<in> set es then es else es @ [c]"
  have "inner (enable c s) = map Some ?es @ replicate (3 - length ?es) None"
    using es three_encodings [of es c] by (auto simp: enable_def enable_slot_filled)
  moreover have "distinct ?es" "length ?es \<le> 3"
    using es three_encodings [of es c] by auto
  ultimately show "wf_encodings (enable c s)"
    "encodings_list (enable c s) =
       (if c \<in> set (encodings_list s) then encodings_list s else encodings_list s @ [c])"
    using wf_encodingsI [of "enable c s" ?es] es(3) by auto
qed

lemma pop_wf:
  assumes "wf_encodings s"
  shows "wf_encodings (snd (pop s))" and "encodings_list (snd (pop s)) = butlast (encodings_list s)"
    and "fst (pop s) = (if encodings_list s = [] then None else Some (last (encodings_list s)))"
proof -
  from assms obtain es where es: "distinct es" "length es \<le> 3" "encodings_list s = es"
    "inner s = map Some es @ replicate (3 - length es) None"
    by (rule wf_encodingsE)
  have t: "take_first (rev (inner s)) =
      (if es = [] then (None, replicate (3 - length es) None)
       else (Some (last es), replicate (3 - length es) None @ None # rev (map Some (butlast es))))"
    unfolding take_first_filled [symmetric] using es by simp
  have n: "es \<noteq> [] \<Longrightarrow> 3 - (length es - Suc 0) = Suc (3 - length es)"
    using es by (cases es rule: rev_cases) auto
  have "inner (snd (pop s)) = map Some (butlast es) @ replicate (3 - length (butlast es)) None"
    by (cases "es = []") (simp_all add: pop_def t n)
  moreover have "distinct (butlast es)" "length (butlast es) \<le> 3"
    using es by (simp_all add: distinct_butlast)
  ultimately show "wf_encodings (snd (pop s))" "encodings_list (snd (pop s)) = butlast (encodings_list s)"
    using wf_encodingsI [of "snd (pop s)" "butlast es"] es(3) by auto
  show "fst (pop s) = (if encodings_list s = [] then None else Some (last (encodings_list s)))"
    using es(3) by (simp add: pop_def t)
qed

lemma is_enabled_list: "is_enabled c s \<longleftrightarrow> c \<in> set (encodings_list s)"
  by (force simp: is_enabled_def encodings_list_def flatten_def image_iff)

interpretation enabled: ordered_encodings default_encodings enable pop is_enabled encodings_list wf_encodings
  by unfold_locales
    (simp_all add: enable_wf pop_wf is_enabled_list,
     simp_all add: wf_encodings_def encodings_list_def default_encodings_def numeral_3_eq_3)


subsection \<open>The accept-encoding header\<close>

lemma comma_list_split:
  "split_by_comma (concat (map (\<lambda>c. as_str c @ '','') es) @ ''identity'') = map as_str es @ [''identity'']"
proof (induction es)
  case Nil
  have "split_on (CHR '','') ''identity'' = [''identity'']" "trim ''identity'' = ''identity''"
    by (rule split_on_no_sep, simp) (rule trim_id, simp add: is_space_def)
  then show ?case by (simp add: split_by_comma_def)
next
  case (Cons c es)
  have "CHR '','' \<notin> set (as_str c)" and t: "trim (as_str c) = as_str c"
    by (cases c; simp) (cases c; auto intro!: trim_id simp: is_space_def)
  then show ?case
    using Cons by (simp add: split_by_comma_def split_on_append_sep)
qed

lemma encoding_named_as_str: "encoding_named s (as_str c) = (if is_enabled c s then Some c else None)"
  by (cases c) (simp_all add: encoding_named_def)

lemma visible_append [simp]: "visible_ascii (a @ b) \<longleftrightarrow> visible_ascii a \<and> visible_ascii b"
  by (auto simp: visible_ascii_def)

lemma visible_accept_list: "visible_ascii (concat (map (\<lambda>c. as_str c @ '','') es) @ ''identity'')"
proof (induction es)
  case (Cons c es)
  then show ?case by (cases c) (simp_all add: visible_ascii_def)
qed (simp add: visible_ascii_def)

lemma as_str_nonempty [simp]: "as_str c \<noteq> []"
  by (cases c) simp_all

lemma into_accept_encoding_header_value_eq:
  assumes "header_value_laws E"
  shows "into_accept_encoding_header_value E s =
     Some (if encodings_list s = [] then None
           else Some (concat (map (\<lambda>c. as_str c @ '','') (encodings_list s)) @ ''identity''))"
  using assms visible_accept_list [of "encodings_list s"]
  by (auto simp: into_accept_encoding_header_value_def header_value_laws_def encodings_list_def Let_def)

lemma find_map_encoding_named:
  "find_map (encoding_named s) (map as_str es @ [''identity'']) = find (\<lambda>c. is_enabled c s) es"
proof -
  have i: "encoding_named s ''identity'' = None"
    by (simp add: encoding_named_def)
  have e: "(\<lambda>c. encoding_named s (as_str c)) = (\<lambda>c. if is_enabled c s then Some c else None)"
    by (simp add: encoding_named_as_str)
  show ?thesis
    by (simp add: find_map_append find_map_map e find_map_find i split: option.splits)
qed

subsection \<open>Properties\<close>

text \<open>
  The fixed array of three slots is an ordered list of encodings: after any sequence of
  \<open>enable\<close> calls it holds exactly the encodings that were enabled, each once, in the order of their
  first call, and none is ever lost for want of a slot.
\<close>

theorem enable_sequence:
  "encodings_list (fold enable cs default_encodings) = rev (remdups (rev cs)) \<and>
   (is_enabled c (fold enable cs default_encodings) \<longleftrightarrow> c \<in> set cs)"
proof
  have "wf_encodings default_encodings" by (rule enabled.abs_empty)
  then show "encodings_list (fold enable cs default_encodings) = rev (remdups (rev cs))"
    by (induction cs rule: rev_induct)
      (simp_all add: enabled.abs_empty enabled.abs_add enabled.ok_fold)
  show "is_enabled c (fold enable cs default_encodings) \<longleftrightarrow> c \<in> set cs"
    by (simp add: enabled.has_fold enabled.abs_empty enabled.has_abs)
qed

text \<open>
  Property C34. Negotiation: the \<open>grpc-accept-encoding\<close> value one side writes, read by the other side,
  selects the first encoding of the writer's list that the reader has enabled, and none when they
  share no encoding.
\<close>

theorem accept_encoding_negotiation:
  assumes "header_value_laws E" and "encodings_list peer \<noteq> []"
    and "into_accept_encoding_header_value E peer = Some (Some v)"
    and "hm_get E h ACCEPT_ENCODING_HEADER = Some v"
  shows "from_accept_encoding_header E h mine = find (\<lambda>c. is_enabled c mine) (encodings_list peer)"
proof (cases "is_empty mine")
  case True
  then have "\<not> is_enabled c mine" for c
    by (auto simp: is_empty_def is_enabled_def list_all_iff)
  then show ?thesis
    using True by (simp add: from_accept_encoding_header_def find_None_iff eq_commute [of None])
next
  case False
  have v: "v = concat (map (\<lambda>c. as_str c @ '','') (encodings_list peer)) @ ''identity''"
    using assms by (simp add: into_accept_encoding_header_value_eq)
  then have "hv_to_str E v = Some v"
    using assms(1) visible_accept_list by (auto simp: header_value_laws_def)
  then show ?thesis
    using False assms(4) v comma_list_split
    by (simp add: from_accept_encoding_header_def find_map_encoding_named)
qed

theorem accept_encoding_negotiation_witness:
  "from_accept_encoding_header list_ext
     [(ACCEPT_ENCODING_HEADER, ''zstd,gzip,identity'')] \<lparr>inner = [Some Gzip, None, None]\<rparr> = Some Gzip"
  using accept_encoding_negotiation
      [of list_ext "\<lparr>inner = [Some Zstd, Some Gzip, None]\<rparr>" "''zstd,gzip,identity''"
        "[(ACCEPT_ENCODING_HEADER, ''zstd,gzip,identity'')]" "\<lparr>inner = [Some Gzip, None, None]\<rparr>"]
  by (simp add: encodings_list_def into_accept_encoding_header_value_eq is_enabled_def
      list_ext_def [THEN arg_cong, of hm_get])

text \<open>
  A \<open>grpc-encoding\<close> the receiver has enabled is accepted; one it has not enabled is
  rejected with \<open>Unimplemented\<close>, and the error's metadata lists what the receiver does accept.
\<close>

theorem encoding_header_checked:
  assumes "header_value_laws E" and "header_map_laws E"
    and "hm_get E h ENCODING_HEADER = Some (as_str c)"
  shows "if is_enabled c s then from_encoding_header E h s = Some (Inr (Some c))
         else \<exists>st. from_encoding_header E h s = Some (Inl st) \<and> code st = Unimplemented \<and>
                hm_get E (metadata st) ACCEPT_ENCODING_HEADER =
                  Some (if encodings_list s = [] then ''identity''
                        else concat (map (\<lambda>c. as_str c @ '','') (encodings_list s)) @ ''identity'')"
proof -
  have "as_str c \<noteq> ''identity''" by (cases c) simp_all
  then show ?thesis
    using assms
    by (simp add: from_encoding_header_def encoding_named_as_str constructor_defs
        into_accept_encoding_header_value_eq header_map_lawsD)
qed

theorem encoding_header_checked_witness:
  "\<exists>st. from_encoding_header list_ext [(ENCODING_HEADER, ''zstd'')] \<lparr>inner = [Some Gzip, None, None]\<rparr> =
          Some (Inl st) \<and> code st = Unimplemented \<and>
          hm_get list_ext (metadata st) ACCEPT_ENCODING_HEADER = Some ''gzip,identity''"
  using encoding_header_checked
      [of list_ext "[(ENCODING_HEADER, ''zstd'')]" Zstd "\<lparr>inner = [Some Gzip, None, None]\<rparr>"]
  by (simp add: encodings_list_def is_enabled_def list_ext_def [THEN arg_cong, of hm_get])

text \<open>
  Compressing a message and decompressing the result under a size limit gives the
  message back and leaves the bytes that follow it, when the message fits the limit; when it does
  not, decompression fails with \<open>WriteZero\<close> and never yields more than the limit.
\<close>

theorem compress_decompress:
  assumes "compression_laws E" and "0 < buffer_growth_interval settings"
  shows "\<exists>z. compress E settings msg out (length msg) = Some (Inr (), [], out @ z) \<and>
     decompress E settings (z @ rest) [] limit (length z) =
       (if length msg \<le> limit then Some (Inr (), rest, msg)
        else Some (Inl write_zero, z @ rest, take limit msg))"
proof -
  obtain z where z: "compressor E (cs_encoding settings) msg = (z, None)"
    using assms(1) by (metis compression_laws_def prod.collapse)
  then have "decompressor E (cs_encoding settings) z = (msg, None)"
    using assms(1) by (metis compression_laws_def fst_conv)
  then show ?thesis
    using assms(2) z by (intro exI [of _ z]) (simp add: compress_def decompress_def)
qed

theorem compress_decompress_witness:
  "\<exists>z. compress list_ext \<lparr>cs_encoding = Gzip, buffer_growth_interval = 8192\<rparr> [7, 8, 9] [] 3 = Some (Inr (), [], z) \<and>
     decompress list_ext \<lparr>cs_encoding = Gzip, buffer_growth_interval = 8192\<rparr> (z @ [5]) [] 2 (length z) =
       Some (Inl write_zero, z @ [5], [7, 8])"
  using compress_decompress [of list_ext "\<lparr>cs_encoding = Gzip, buffer_growth_interval = 8192\<rparr>" "[7, 8, 9]" "[]" "[5]" 2]
  by (simp add: numeral_2_eq_2 numeral_3_eq_3)

end
