(* ===== verification/Codec.thy ===== *)
theory Codec
  imports Compression
begin

text \<open>
  \<open>tonic/src/codec/mod.rs\<close> and \<open>tonic/src/codec/buffer.rs\<close>: the buffer settings and size limits of
  the codec, and the \<open>DecodeBuf\<close> window a message decoder reads from. A decoder is a parameter: a
  function from the bytes in its window to a result and the number of bytes it takes.
\<close>

definition DEFAULT_CODEC_BUFFER_SIZE :: nat where "DEFAULT_CODEC_BUFFER_SIZE = 8 * 1024"
definition DEFAULT_YIELD_THRESHOLD :: nat where "DEFAULT_YIELD_THRESHOLD = 32 * 1024"

record BufferSettings =
  buffer_size :: nat
  yield_threshold :: nat

definition default_settings :: BufferSettings where
  "default_settings =
     \<lparr>buffer_size = DEFAULT_CODEC_BUFFER_SIZE, yield_threshold = DEFAULT_YIELD_THRESHOLD\<rparr>"

definition HEADER_SIZE :: nat where "HEADER_SIZE = 1 + 4"

definition DEFAULT_MAX_RECV_MESSAGE_SIZE :: nat where
  "DEFAULT_MAX_RECV_MESSAGE_SIZE = 4 * 1024 * 1024"

definition DEFAULT_MAX_SEND_MESSAGE_SIZE :: nat where
  "DEFAULT_MAX_SEND_MESSAGE_SIZE = 2 ^ 64 - 1"

definition u32_max :: nat where "u32_max = 2 ^ 32 - 1"

lemmas codec_limits = HEADER_SIZE_def DEFAULT_MAX_RECV_MESSAGE_SIZE_def DEFAULT_MAX_SEND_MESSAGE_SIZE_def
  u32_max_def

subsection \<open>The window of a decoder\<close>

record DecodeBuf =
  db_buf :: "byte list"
  db_len :: nat

definition remaining :: "DecodeBuf \<Rightarrow> nat" where
  "remaining d = db_len d"

definition chunk :: "DecodeBuf \<Rightarrow> byte list" where
  "chunk d = (if db_len d < length (db_buf d) then take (db_len d) (db_buf d) else db_buf d)"

text \<open>
  \<open>advance\<close> and \<open>copy_to_bytes\<close> panic past the window, and past the end of the buffer below it.
\<close>

definition advance :: "nat \<Rightarrow> DecodeBuf \<Rightarrow> DecodeBuf option" where
  "advance cnt d =
     (if cnt \<le> db_len d \<and> cnt \<le> length (db_buf d)
      then Some \<lparr>db_buf = drop cnt (db_buf d), db_len = db_len d - cnt\<rparr> else None)"

definition copy_to_bytes :: "nat \<Rightarrow> DecodeBuf \<Rightarrow> (byte list \<times> DecodeBuf) option" where
  "copy_to_bytes n d =
     (if n \<le> db_len d \<and> n \<le> length (db_buf d)
      then Some (take n (db_buf d), \<lparr>db_buf = drop n (db_buf d), db_len = db_len d - n\<rparr>) else None)"

type_synonym ('m, 'h) decoder = "byte list \<Rightarrow> ('h Status + 'm option) \<times> nat"

text \<open>
  An encoder appends bytes to the buffer it is given and may then fail; the Display text of its
  error is all the program uses of it.
\<close>

type_synonym 'm encoder = "'m \<Rightarrow> byte list \<times> string option"

text \<open>
  The contract of a codec: every message encodes, and decoding a window that holds exactly the
  encoded bytes gives the message and consumes the window.
\<close>

definition codec_laws :: "'m encoder \<Rightarrow> ('m, 'h) decoder \<Rightarrow> bool" where
  "codec_laws enc dec \<longleftrightarrow>
     (\<forall>m. snd (enc m) = None) \<and>
     (\<forall>m. dec (fst (enc m)) = (Inr (Some m), length (fst (enc m))))"

text \<open>The codec of raw byte messages, which copies them.\<close>

definition bytes_encoder :: "byte list encoder" where
  "bytes_encoder m = (m, None)"

definition bytes_decoder :: "(byte list, 'h) decoder" where
  "bytes_decoder b = (Inr (Some b), length b)"

lemma bytes_codec_laws [simp]: "codec_laws bytes_encoder bytes_decoder"
  by (simp add: codec_laws_def bytes_encoder_def bytes_decoder_def)

lemma length_chunk: "db_len d \<le> length (db_buf d) \<Longrightarrow> length (chunk d) = remaining d"
  by (simp add: chunk_def remaining_def)

lemma copy_to_bytes_advance:
  "copy_to_bytes n d = Some (b, d') \<longleftrightarrow> advance n d = Some d' \<and> b = take n (chunk d)"
  by (auto simp: copy_to_bytes_def advance_def chunk_def min_def)

text \<open>A frame on the wire: the compressed flag, the length and the payload.\<close>

definition message_frame :: "bool \<Rightarrow> byte list \<Rightarrow> byte list" where
  "message_frame compressed p = (if compressed then 1 else 0) # put_u32 (length p) @ p"

subsection \<open>Bodies\<close>

text \<open>The polls of an HTTP body: pending, a data, trailers or other frame, or an error. The end is the end of the list.\<close>

datatype ('h, 'e) body_poll = BPending | BData "byte list" | BTrailers 'h | BOther | BError 'e

text \<open>The bytes of its data frames.\<close>

fun body_bytes :: "('h, 'e) body_poll list \<Rightarrow> byte list" where
  "body_bytes [] = []"
| "body_bytes (BData d # b) = d @ body_bytes b"
| "body_bytes (_ # b) = body_bytes b"

text \<open>The data part of a body: data frames, with pending polls anywhere between them.\<close>

fun is_data :: "('h, 'e) body_poll \<Rightarrow> bool" where
  "is_data BPending = True"
| "is_data (BData _) = True"
| "is_data _ = False"

lemma body_bytes_append [simp]: "body_bytes (b @ b') = body_bytes b @ body_bytes b'"
  by (induction b rule: body_bytes.induct) simp_all

lemma map_body_poll_data [simp]:
  "list_all is_data (map (map_body_poll id f) b) = list_all is_data b"
  "body_bytes (map (map_body_poll id f) b) = body_bytes b"
  by (induction b rule: body_bytes.induct) simp_all

end
