(* ===== verification/Codec_Encode.thy ===== *)
theory Codec_Encode
  imports Codec
begin

text \<open>
  \<open>tonic/src/codec/encode.rs\<close>: encoding one message into a length-prefixed frame, batching the
  frames of a message stream into buffers (\<open>EncodedBytes\<close>), and the HTTP body made of them
  (\<open>EncodeBody\<close>), which ends with trailers on the server side. The stream of messages is the list
  of what its polls return; the end of the list is the end of the stream.
\<close>

subsection \<open>One message\<close>

definition finish_encoding ::
    "'h ext \<Rightarrow> CompressionEncoding option \<Rightarrow> nat option \<Rightarrow> byte list \<Rightarrow> (('h Status + unit) \<times> byte list) option" where
  "finish_encoding E compression_encoding max_message_size buf =
     (if length buf < HEADER_SIZE then None
      else
        (let len = length buf - HEADER_SIZE;
             limit = (case max_message_size of Some l \<Rightarrow> l | None \<Rightarrow> DEFAULT_MAX_SEND_MESSAGE_SIZE)
         in if limit < len then
              Some (Inl (out_of_range E (''Error, encoded message length too large: found '' @ show_nat len @
                '' bytes, the limit is: '' @ show_nat limit @ '' bytes'')), buf)
            else if u32_max < len then
              Some (Inl (resource_exhausted E (''Cannot return body with more than 4GB of data but got '' @
                show_nat len @ '' bytes'')), buf)
            else
              Some (Inr (), (if compression_encoding = None then 0 else 1) # put_u32 len @ drop HEADER_SIZE buf)))"

definition encode_item ::
    "'h ext \<Rightarrow> 'm encoder \<Rightarrow> byte list \<Rightarrow> byte list \<Rightarrow> CompressionEncoding option \<Rightarrow> nat option \<Rightarrow>
     BufferSettings \<Rightarrow> 'm \<Rightarrow> (('h Status + unit) \<times> byte list \<times> byte list) option" where
  "encode_item E encoder buf uncompression_buf compression_encoding max_message_size settings item =
     (let offset = length buf;
          buf1 = buf @ replicate HEADER_SIZE 0
      in case compression_encoding of
           Some c \<Rightarrow>
             (case encoder item of
                (bs, Some err) \<Rightarrow> Some (Inl (internal E (''Error encoding: '' @ err)), buf1, bs)
              | (bs, None) \<Rightarrow> do {
                  (r, ubuf, buf2) \<leftarrow> compress E
                     \<lparr>cs_encoding = c, buffer_growth_interval = buffer_size settings\<rparr> bs buf1 (length bs);
                  (case r of
                     Inl e \<Rightarrow> Some (Inl (internal E (''Error compressing: '' @ io_text e)), buf2, ubuf)
                   | Inr _ \<Rightarrow> do {
                       (r', tail) \<leftarrow> finish_encoding E compression_encoding max_message_size (drop offset buf2);
                       Some (r', take offset buf2 @ tail, ubuf)
                     })
                })
         | None \<Rightarrow>
             (case encoder item of
                (bs, Some err) \<Rightarrow>
                  Some (Inl (internal E (''Error encoding: '' @ err)), buf1 @ bs, uncompression_buf)
              | (bs, None) \<Rightarrow> do {
                  (r', tail) \<leftarrow> finish_encoding E None max_message_size (drop offset (buf1 @ bs));
                  Some (r', take offset (buf1 @ bs) @ tail, uncompression_buf)
                }))"

subsection \<open>Batching\<close>

datatype ('m, 'h) source_poll = SPending | SItem 'm | SErr "'h Status"

record ('m, 'h) EncodedBytes =
  eb_source :: "('m, 'h) source_poll list"
  eb_compression_encoding :: "CompressionEncoding option"
  eb_max_message_size :: "nat option"
  eb_buf :: "byte list"
  eb_uncompression_buf :: "byte list"
  eb_error :: "'h Status option"

definition new_encoded_bytes ::
    "('m, 'h) source_poll list \<Rightarrow> CompressionEncoding option \<Rightarrow> SingleMessageCompressionOverride \<Rightarrow>
     nat option \<Rightarrow> ('m, 'h) EncodedBytes" where
  "new_encoded_bytes src compression_encoding override max_size =
     \<lparr>eb_source = src,
      eb_compression_encoding = (if override = Disable then None else compression_encoding),
      eb_max_message_size = max_size, eb_buf = [], eb_uncompression_buf = [], eb_error = None\<rparr>"

text \<open>The loop of \<open>poll_next\<close>, over the remaining polls of the source.\<close>

fun encode_loop ::
    "'h ext \<Rightarrow> 'm encoder \<Rightarrow> BufferSettings \<Rightarrow> ('m, 'h) source_poll list \<Rightarrow> ('m, 'h) EncodedBytes \<Rightarrow>
     (('h Status + byte list) option Poll \<times> ('m, 'h) EncodedBytes) option" where
  "encode_loop E enc settings [] s =
     (let s' = s\<lparr>eb_source := []\<rparr>
      in if eb_buf s = [] then Some (Ready None, s')
         else Some (Ready (Some (Inr (eb_buf s))), s'\<lparr>eb_buf := []\<rparr>))"
| "encode_loop E enc settings (SPending # src) s =
     (let s' = s\<lparr>eb_source := src\<rparr>
      in if eb_buf s = [] then Some (Pending, s')
         else Some (Ready (Some (Inr (eb_buf s))), s'\<lparr>eb_buf := []\<rparr>))"
| "encode_loop E enc settings (SItem item # src) s =
     (case encode_item E enc (eb_buf s) (eb_uncompression_buf s) (eb_compression_encoding s)
             (eb_max_message_size s) settings item of
        None \<Rightarrow> None
      | Some (r, buf', ubuf') \<Rightarrow>
          (let s' = s\<lparr>eb_source := src, eb_buf := buf', eb_uncompression_buf := ubuf'\<rparr>
           in case r of
                Inl status \<Rightarrow> Some (Ready (Some (Inl status)), s')
              | Inr _ \<Rightarrow>
                  if yield_threshold settings \<le> length buf'
                  then Some (Ready (Some (Inr buf')), s'\<lparr>eb_buf := []\<rparr>)
                  else encode_loop E enc settings src s'))"
| "encode_loop E enc settings (SErr status # src) s =
     (let s' = s\<lparr>eb_source := src\<rparr>
      in if eb_buf s = [] then Some (Ready (Some (Inl status)), s')
         else Some (Ready (Some (Inr (eb_buf s))), s'\<lparr>eb_error := Some status, eb_buf := []\<rparr>))"

definition encoded_poll_next ::
    "'h ext \<Rightarrow> 'm encoder \<Rightarrow> BufferSettings \<Rightarrow> ('m, 'h) EncodedBytes \<Rightarrow>
     (('h Status + byte list) option Poll \<times> ('m, 'h) EncodedBytes) option" where
  "encoded_poll_next E enc settings s =
     (case eb_error s of
        Some status \<Rightarrow> Some (Ready (Some (Inl status)), s\<lparr>eb_error := None\<rparr>)
      | None \<Rightarrow> encode_loop E enc settings (eb_source s) s)"

subsection \<open>The HTTP body\<close>

datatype Role = Client | Server

record 'h EncodeState =
  es_error :: "'h Status option"
  role :: Role
  is_end_stream :: bool

text \<open>
  \<open>cancellation\<close> is the state of the cancellation token: \<open>None\<close> without one, else whether it has
  been cancelled.
\<close>

record ('m, 'h) EncodeBody =
  encoded :: "('m, 'h) EncodedBytes"
  encode_state :: "'h EncodeState"
  cancellation :: "bool option"

datatype 'h frame = DataFrame "byte list" | TrailersFrame 'h

definition new_client_with_cancellation ::
    "('m, 'h) source_poll list \<Rightarrow> CompressionEncoding option \<Rightarrow> nat option \<Rightarrow> bool option \<Rightarrow> ('m, 'h) EncodeBody" where
  "new_client_with_cancellation src c max_size token =
     \<lparr>encoded = new_encoded_bytes src c Inherit max_size,
      encode_state = \<lparr>es_error = None, role = Client, is_end_stream = False\<rparr>,
      cancellation = token\<rparr>"

definition new_client ::
    "('m, 'h) source_poll list \<Rightarrow> CompressionEncoding option \<Rightarrow> nat option \<Rightarrow> ('m, 'h) EncodeBody" where
  "new_client src c max_size = new_client_with_cancellation src c max_size None"

definition new_server ::
    "('m, 'h) source_poll list \<Rightarrow> CompressionEncoding option \<Rightarrow> SingleMessageCompressionOverride \<Rightarrow>
     nat option \<Rightarrow> ('m, 'h) EncodeBody" where
  "new_server src c override max_size =
     \<lparr>encoded = new_encoded_bytes src c override max_size,
      encode_state = \<lparr>es_error = None, role = Server, is_end_stream = False\<rparr>,
      cancellation = None\<rparr>"

definition encode_trailers_of ::
    "'h ext \<Rightarrow> 'h EncodeState \<Rightarrow> ('h Status + 'h) option \<times> 'h EncodeState" where
  "encode_trailers_of E st =
     (case role st of
        Client \<Rightarrow> (None, st)
      | Server \<Rightarrow>
          if is_end_stream st then (None, st)
          else
            (let status = (case es_error st of Some s \<Rightarrow> s | None \<Rightarrow> status_ok E [])
             in (Some (to_header_map E status), st\<lparr>is_end_stream := True, es_error := None\<rparr>)))"

definition encode_poll_frame ::
    "'h ext \<Rightarrow> 'm encoder \<Rightarrow> BufferSettings \<Rightarrow> ('m, 'h) EncodeBody \<Rightarrow>
     (('h Status + 'h frame) option Poll \<times> ('m, 'h) EncodeBody) option" where
  "encode_poll_frame E enc settings b =
     (if cancellation b = Some True then
        Some (Ready (Some (Inl (set_source (H2Error (Some CANCEL) (show_reason E CANCEL))
                (cancelled E ''client cancelled'')))), b)
      else do {
        (p, inner') \<leftarrow> encoded_poll_next E enc settings (encoded b);
        let b' = b\<lparr>encoded := inner'\<rparr>;
        Some (case p of
            Pending \<Rightarrow> (Pending, b')
          | Ready (Some (Inr d)) \<Rightarrow> (Ready (Some (Inr (DataFrame d))), b')
          | Ready (Some (Inl status)) \<Rightarrow>
              (case role (encode_state b) of
                 Client \<Rightarrow> (Ready (Some (Inl status)), b')
               | Server \<Rightarrow>
                   (Ready (Some (case to_header_map E status of
                                   Inr h \<Rightarrow> Inr (TrailersFrame h) | Inl e \<Rightarrow> Inl e)),
                    b'\<lparr>encode_state := (encode_state b)\<lparr>is_end_stream := True\<rparr>\<rparr>))
          | Ready None \<Rightarrow>
              (let (t, st) = encode_trailers_of E (encode_state b)
               in (Ready (map_option (map_sum id TrailersFrame) t), b'\<lparr>encode_state := st\<rparr>)))
      })"

subsection \<open>Frames of messages\<close>

definition send_limit :: "nat option \<Rightarrow> nat" where
  "send_limit max_size = (case max_size of Some l \<Rightarrow> l | None \<Rightarrow> DEFAULT_MAX_SEND_MESSAGE_SIZE)"

text \<open>The payload of a message on the wire, and the messages that can be sent.\<close>

definition wire_payload :: "'h ext \<Rightarrow> 'm encoder \<Rightarrow> CompressionEncoding option \<Rightarrow> 'm \<Rightarrow> byte list" where
  "wire_payload E enc c m = (case c of None \<Rightarrow> fst (enc m) | Some k \<Rightarrow> fst (compressor E k (fst (enc m))))"

definition encodable :: "'h ext \<Rightarrow> 'm encoder \<Rightarrow> CompressionEncoding option \<Rightarrow> BufferSettings \<Rightarrow> 'm \<Rightarrow> bool" where
  "encodable E enc c settings m \<longleftrightarrow>
     snd (enc m) = None \<and>
     (case c of None \<Rightarrow> True
      | Some k \<Rightarrow> snd (compressor E k (fst (enc m))) = None \<and> 0 < buffer_size settings)"

definition sendable ::
    "'h ext \<Rightarrow> 'm encoder \<Rightarrow> CompressionEncoding option \<Rightarrow> nat option \<Rightarrow> BufferSettings \<Rightarrow> 'm \<Rightarrow> bool" where
  "sendable E enc c max_size settings m \<longleftrightarrow>
     encodable E enc c settings m \<and>
     length (wire_payload E enc c m) \<le> send_limit max_size \<and> length (wire_payload E enc c m) \<le> u32_max"

definition wire_frame :: "'h ext \<Rightarrow> 'm encoder \<Rightarrow> CompressionEncoding option \<Rightarrow> 'm \<Rightarrow> byte list" where
  "wire_frame E enc c m = message_frame (c \<noteq> None) (wire_payload E enc c m)"

lemma encode_item_encodable:
  assumes "encodable E enc c settings m"
  obtains u where "encode_item E enc b ub c max_size settings m =
     do { (r, tail) \<leftarrow> finish_encoding E c max_size (replicate HEADER_SIZE 0 @ wire_payload E enc c m);
          Some (r, b @ tail, u) }"
proof (cases c)
  case None
  with assms show thesis
    by (intro that [of ub]) (cases "enc m", simp add: encode_item_def encodable_def wire_payload_def Let_def)
next
  case (Some k)
  with assms obtain bs z where "enc m = (bs, None)" "compressor E k bs = (z, None)"
    by (cases "enc m"; cases "compressor E k (fst (enc m))") (auto simp: encodable_def)
  with Some assms show thesis
    by (intro that [of "[]"]) (simp add: encode_item_def encodable_def wire_payload_def compress_def Let_def)
qed

lemma encode_item_sendable:
  assumes "sendable E enc c max_size settings m"
  obtains u where "encode_item E enc b ub c max_size settings m = Some (Inr (), b @ wire_frame E enc c m, u)"
proof -
  from assms have "encodable E enc c settings m" by (simp add: sendable_def)
  then obtain u where e: "encode_item E enc b ub c max_size settings m =
      do { (r, tail) \<leftarrow> finish_encoding E c max_size (replicate HEADER_SIZE 0 @ wire_payload E enc c m);
           Some (r, b @ tail, u) }"
    by (rule encode_item_encodable)
  have "finish_encoding E c max_size (replicate HEADER_SIZE 0 @ wire_payload E enc c m) = Some (Inr (), wire_frame E enc c m)"
    using assms
    by (auto simp: finish_encoding_def sendable_def send_limit_def wire_frame_def message_frame_def Let_def)
  with e that show thesis by simp
qed

subsection \<open>Batching a stream of messages\<close>

fun is_item :: "('m, 'h) source_poll \<Rightarrow> bool" where
  "is_item (SErr _) = False"
| "is_item _ = True"

fun items :: "('m, 'h) source_poll list \<Rightarrow> 'm list" where
  "items [] = []"
| "items (SItem m # src) = m # items src"
| "items (_ # src) = items src"

definition wire_frames :: "'h ext \<Rightarrow> 'm encoder \<Rightarrow> CompressionEncoding option \<Rightarrow> ('m, 'h) source_poll list \<Rightarrow> byte list" where
  "wire_frames E enc c src = concat (map (wire_frame E enc c) (items src))"

lemma wire_frames_simps [simp]:
  "wire_frames E enc c [] = []"
  "wire_frames E enc c (SPending # src) = wire_frames E enc c src"
  "wire_frames E enc c (SItem m # src) = wire_frame E enc c m @ wire_frames E enc c src"
  by (simp_all add: wire_frames_def)

text \<open>
  The outcome of a poll that stops at \<open>src'\<close> inside the messages \<open>src\<close>: a pending poll, or the frames up
  to there as one batch.
\<close>

definition stops_at where
  "stops_at E enc c src after s src' p s' \<longleftrightarrow>
     (\<exists>u d. s' = s\<lparr>eb_source := src' @ after, eb_buf := [], eb_uncompression_buf := u\<rparr> \<and>
        length src' < length src \<and> list_all is_item src' \<and> set (items src') \<subseteq> set (items src) \<and>
        d @ wire_frames E enc c src' = eb_buf s @ wire_frames E enc c src \<and>
        (p = Pending \<and> d = [] \<or> p = Ready (Some (Inr d))))"

lemma stops_at_item:
  assumes "stops_at E enc c src after (s\<lparr>eb_source := x, eb_buf := eb_buf s @ wire_frame E enc c m, eb_uncompression_buf := u\<rparr>) src' p s'"
  shows "stops_at E enc c (SItem m # src) after s src' p s'"
  using assms by (auto simp: stops_at_def)

lemma stops_here:
  assumes "list_all is_item src" and "e = SPending \<and> b = [] \<or> (\<exists>m. e = SItem m \<and> b = wire_frame E enc c m)"
    and "p = Pending \<and> eb_buf s @ b = [] \<or> p = Ready (Some (Inr (eb_buf s @ b)))"
  shows "stops_at E enc c (e # src) after s src p (s\<lparr>eb_source := src @ after, eb_buf := [], eb_uncompression_buf := u\<rparr>)"
  unfolding stops_at_def
  by (rule exI [of _ u], rule exI [of _ "eb_buf s @ b"]) (use assms in auto)

lemma encode_loop_items:
  assumes "eb_compression_encoding s = c" "eb_max_message_size s = max_size"
    and "list_all is_item src" and "\<forall>m \<in> set (items src). sendable E enc c max_size settings m"
  shows "(\<exists>src' p s'. encode_loop E enc settings (src @ after) s = Some (p, s') \<and> stops_at E enc c src after s src' p s') \<or>
         (\<exists>u x. encode_loop E enc settings (src @ after) s =
            encode_loop E enc settings after
              (s\<lparr>eb_source := x, eb_buf := eb_buf s @ wire_frames E enc c src, eb_uncompression_buf := u\<rparr>))"
  using assms
proof (induction src arbitrary: s)
  case Nil
  then show ?case by (intro disjI2 exI [of _ "eb_uncompression_buf s"] exI [of _ "eb_source s"]) simp
next
  case (Cons e src)
  show ?case
  proof (cases e)
    case SPending
    let ?p = "if eb_buf s = [] then Pending else Ready (Some (Inr (eb_buf s)))"
    have "stops_at E enc c (e # src) after s src ?p
        (s\<lparr>eb_source := src @ after, eb_buf := [], eb_uncompression_buf := eb_uncompression_buf s\<rparr>)"
      using Cons.prems SPending by (intro stops_here [where b = "[]"]) auto
    moreover have "encode_loop E enc settings ((e # src) @ after) s =
        Some (?p, s\<lparr>eb_source := src @ after, eb_buf := [], eb_uncompression_buf := eb_uncompression_buf s\<rparr>)"
      using SPending by (simp add: Let_def)
    ultimately show ?thesis by blast
  next
    case (SItem m)
    with Cons.prems have "sendable E enc c max_size settings m" by simp
    then obtain u where i: "encode_item E enc (eb_buf s) (eb_uncompression_buf s) c max_size settings m =
        Some (Inr (), eb_buf s @ wire_frame E enc c m, u)"
      by (rule encode_item_sendable)
    let ?b = "eb_buf s @ wire_frame E enc c m"
    let ?s = "s\<lparr>eb_source := src @ after, eb_buf := ?b, eb_uncompression_buf := u\<rparr>"
    show ?thesis
    proof (cases "yield_threshold settings \<le> length ?b")
      case True
      have "stops_at E enc c (e # src) after s src (Ready (Some (Inr ?b)))
          (s\<lparr>eb_source := src @ after, eb_buf := [], eb_uncompression_buf := u\<rparr>)"
        using Cons.prems SItem by (intro stops_here [where b = "wire_frame E enc c m"]) auto
      moreover have "encode_loop E enc settings ((e # src) @ after) s =
          Some (Ready (Some (Inr ?b)), s\<lparr>eb_source := src @ after, eb_buf := [], eb_uncompression_buf := u\<rparr>)"
        using True Cons.prems(1,2) SItem i by (simp add: Let_def)
      ultimately show ?thesis by blast
    next
      case False
      then have l: "encode_loop E enc settings ((e # src) @ after) s = encode_loop E enc settings (src @ after) ?s"
        using SItem i Cons.prems(1,2) by (simp add: Let_def)
      have "eb_compression_encoding ?s = c" "eb_max_message_size ?s = max_size" "list_all is_item src"
        "\<forall>m \<in> set (items src). sendable E enc c max_size settings m"
        using Cons.prems SItem by simp_all
      from Cons.IH [OF this] show ?thesis
        unfolding SItem l [unfolded SItem] by (elim disjE) (blast dest: stops_at_item, auto)
    qed
  qed (use Cons.prems in simp)
qed

subsection \<open>Running a body to its end\<close>

text \<open>The frames of the first \<open>n\<close> polls of a body, up to its end, and whether the end was met.\<close>

fun encode_run ::
    "'h ext \<Rightarrow> 'm encoder \<Rightarrow> BufferSettings \<Rightarrow> nat \<Rightarrow> ('m, 'h) EncodeBody \<Rightarrow>
     (('h Status + 'h frame) list \<times> bool) option" where
  "encode_run E enc settings 0 b = Some ([], False)"
| "encode_run E enc settings (Suc n) b =
     (case encode_poll_frame E enc settings b of
        None \<Rightarrow> None
      | Some (Pending, b') \<Rightarrow> encode_run E enc settings n b'
      | Some (Ready None, b') \<Rightarrow> Some ([], True)
      | Some (Ready (Some x), b') \<Rightarrow>
          map_option (\<lambda>(xs, fin). (x # xs, fin)) (encode_run E enc settings n b'))"

text \<open>How a body ends: a client's with its error, if any, a server's with the trailers of its status.\<close>

definition body_end :: "'h ext \<Rightarrow> Role \<Rightarrow> 'h Status option \<Rightarrow> ('h Status + 'h frame) list" where
  "body_end E r err =
     (case r of
        Client \<Rightarrow> (case err of None \<Rightarrow> [] | Some st \<Rightarrow> [Inl st])
      | Server \<Rightarrow>
          [map_sum id TrailersFrame (to_header_map E (case err of None \<Rightarrow> status_ok E [] | Some st \<Rightarrow> st))])"

definition drained :: "('m, 'h) EncodeBody \<Rightarrow> bool" where
  "drained b \<longleftrightarrow> cancellation b \<noteq> Some True \<and> eb_source (encoded b) = [] \<and> eb_buf (encoded b) = []"

lemma encode_run_finished:
  assumes "drained b" "eb_error (encoded b) = None" "role (encode_state b) = Client \<or> is_end_stream (encode_state b)"
  shows "encode_run E enc settings (Suc n) b = Some ([], True)"
  using assms
  by (cases "role (encode_state b)")
    (simp_all add: drained_def encode_poll_frame_def encoded_poll_next_def encode_trailers_of_def Let_def)

text \<open>A poll of the batches that meets their end, in a body that is then drained.\<close>

lemma encode_run_ok:
  assumes "encoded_poll_next E enc settings (encoded b) = Some (Ready None, e)"
    and "drained (b\<lparr>encoded := e\<rparr>)" "eb_error e = None"
    and "\<not> is_end_stream (encode_state b)" "es_error (encode_state b) = None"
  shows "encode_run E enc settings (Suc (Suc n)) b = Some (body_end E (role (encode_state b)) None, True)"
proof (cases "role (encode_state b)")
  case Client
  then show ?thesis
    using assms by (simp add: encode_poll_frame_def encode_trailers_of_def body_end_def drained_def)
next
  case Server
  let ?b = "b\<lparr>encoded := e, encode_state := (encode_state b)\<lparr>is_end_stream := True, es_error := None\<rparr>\<rparr>"
  have "encode_poll_frame E enc settings b =
     Some (Ready (Some (map_sum id TrailersFrame (to_header_map E (status_ok E [])))), ?b)"
    using assms Server by (simp add: drained_def encode_poll_frame_def encode_trailers_of_def)
  moreover have "encode_run E enc settings (Suc n) ?b = Some ([], True)"
    using assms by (intro encode_run_finished) (simp_all add: drained_def)
  ultimately show ?thesis
    by (subst encode_run.simps(2)) (simp add: Server body_end_def)
qed

text \<open>A poll of the batches that gives an error of the source, in a body that is otherwise drained.\<close>

lemma encode_run_failed:
  assumes "encoded_poll_next E enc settings (encoded b) = Some (Ready (Some (Inl st)), e)"
    and "drained (b\<lparr>encoded := e\<rparr>)" "eb_error e = None"
  shows "encode_run E enc settings (Suc (Suc n)) b = Some (body_end E (role (encode_state b)) (Some st), True)"
proof -
  let ?b = "if role (encode_state b) = Client then b\<lparr>encoded := e\<rparr>
    else b\<lparr>encoded := e, encode_state := (encode_state b)\<lparr>is_end_stream := True\<rparr>\<rparr>"
  have x: "(case to_header_map E st of Inl e \<Rightarrow> Inl e | Inr h \<Rightarrow> Inr (TrailersFrame h)) =
      map_sum id TrailersFrame (to_header_map E st)"
    by (cases "to_header_map E st") simp_all
  have "encode_run E enc settings (Suc n) ?b = Some ([], True)"
    using assms(2,3) by (intro encode_run_finished) (auto simp: drained_def intro: Role.exhaust)
  moreover have "\<exists>x. body_end E (role (encode_state b)) (Some st) = [x] \<and>
      encode_poll_frame E enc settings b = Some (Ready (Some x), ?b)"
    using assms(1,2) by (cases "role (encode_state b)") (simp_all add: encode_poll_frame_def body_end_def drained_def x)
  ultimately show ?thesis by (subst encode_run.simps(2)) auto
qed

definition source_end :: "'h Status option \<Rightarrow> ('m, 'h) source_poll list" where
  "source_end err = (case err of None \<Rightarrow> [] | Some st \<Rightarrow> [SErr st])"

declare encode_run.simps(2) [simp del]

lemma encode_run_data:
  assumes "encoded_poll_next E enc settings (encoded b) = Some (Ready (Some (Inr d)), e)" "cancellation b \<noteq> Some True"
  shows "encode_run E enc settings (Suc n) b =
     map_option (\<lambda>(xs, fin). (Inr (DataFrame d) # xs, fin)) (encode_run E enc settings n (b\<lparr>encoded := e\<rparr>))"
  using assms by (simp add: encode_run.simps(2) encode_poll_frame_def)

lemma encode_run_pending:
  assumes "encoded_poll_next E enc settings (encoded b) = Some (Pending, e)" "cancellation b \<noteq> Some True"
  shows "encode_run E enc settings (Suc n) b = encode_run E enc settings n (b\<lparr>encoded := e\<rparr>)"
  using assms by (simp add: encode_run.simps(2) encode_poll_frame_def)

lemma encode_run_source_end:
  assumes p: "encoded_poll_next E enc settings (encoded b) = encode_loop E enc settings (source_end err) s"
    and s: "eb_error s = None" and b: "cancellation b \<noteq> Some True" "\<not> is_end_stream (encode_state b)"
      "es_error (encode_state b) = None"
  shows "\<exists>ds. encode_run E enc settings (Suc (Suc (Suc n))) b =
           Some (map (Inr \<circ> DataFrame) ds @ body_end E (role (encode_state b)) err, True) \<and> concat ds = eb_buf s"
proof (cases "eb_buf s = []")
  case True
  show ?thesis
  proof (cases err)
    case None
    then show ?thesis
      using encode_run_ok [of E enc settings b "s\<lparr>eb_source := []\<rparr>" "Suc n"] p s b True
      by (intro exI [of _ "[]"]) (simp add: source_end_def drained_def)
  next
    case (Some st)
    then show ?thesis
      using encode_run_failed [of E enc settings b st "s\<lparr>eb_source := []\<rparr>" "Suc n"] p s b True
      by (intro exI [of _ "[]"]) (simp add: source_end_def drained_def)
  qed
next
  case False
  let ?e = "s\<lparr>eb_source := [], eb_buf := [], eb_error := err\<rparr>"
  let ?b = "b\<lparr>encoded := ?e\<rparr>"
  have "encoded_poll_next E enc settings (encoded b) = Some (Ready (Some (Inr (eb_buf s))), ?e)"
    using p s False by (cases err) (simp_all add: source_end_def Let_def)
  from encode_run_data [OF this b(1), of "Suc (Suc n)"]
  have r: "encode_run E enc settings (Suc (Suc (Suc n))) b =
      map_option (\<lambda>(xs, fin). (Inr (DataFrame (eb_buf s)) # xs, fin)) (encode_run E enc settings (Suc (Suc n)) ?b)" .
  have "encode_run E enc settings (Suc (Suc n)) ?b = Some (body_end E (role (encode_state ?b)) err, True)"
  proof (cases err)
    case None
    then show ?thesis
      using b by (simp only:) (rule encode_run_ok [where e = ?e], simp_all add: encoded_poll_next_def drained_def)
  next
    case (Some st)
    then show ?thesis
      using b by (simp only:) (rule encode_run_failed [where e = "?e\<lparr>eb_error := None\<rparr>"],
          simp_all add: encoded_poll_next_def drained_def)
  qed
  with r show ?thesis by (intro exI [of _ "[eb_buf s]"]) simp
qed

lemma encode_run_items:
  assumes "eb_source (encoded b) = src @ source_end err" "eb_error (encoded b) = None"
    and "cancellation b \<noteq> Some True" "\<not> is_end_stream (encode_state b)" "es_error (encode_state b) = None"
    and "eb_compression_encoding (encoded b) = c" "eb_max_message_size (encoded b) = max_size"
    and "list_all is_item src" and "\<forall>m \<in> set (items src). sendable E enc c max_size settings m"
    and "length src + 3 \<le> n"
  shows "\<exists>ds. encode_run E enc settings n b =
           Some (map (Inr \<circ> DataFrame) ds @ body_end E (role (encode_state b)) err, True) \<and>
           concat ds = eb_buf (encoded b) @ wire_frames E enc c src"
  using assms
proof (induction "length src" arbitrary: src b n rule: less_induct)
  case less
  have poll: "encoded_poll_next E enc settings (encoded b) = encode_loop E enc settings (src @ source_end err) (encoded b)"
    using less.prems(1,2) by (simp add: encoded_poll_next_def)
  obtain k where n: "n = Suc k" using less.prems(10) by (cases n) auto
  from encode_loop_items [OF less.prems(6-9), of "source_end err"] show ?case
  proof (elim disjE exE conjE)
    fix src' p s'
    assume l: "encode_loop E enc settings (src @ source_end err) (encoded b) = Some (p, s')"
      and st: "stops_at E enc c src (source_end err) (encoded b) src' p s'"
    then obtain u d where s': "s' = (encoded b)\<lparr>eb_source := src' @ source_end err, eb_buf := [], eb_uncompression_buf := u\<rparr>"
      "length src' < length src" "list_all is_item src'" "set (items src') \<subseteq> set (items src)"
      "d @ wire_frames E enc c src' = eb_buf (encoded b) @ wire_frames E enc c src"
      "p = Pending \<and> d = [] \<or> p = Ready (Some (Inr d))"
      by (auto simp: stops_at_def)
    obtain ds where ds: "encode_run E enc settings k (b\<lparr>encoded := s'\<rparr>) =
        Some (map (Inr \<circ> DataFrame) ds @ body_end E (role (encode_state b)) err, True)"
      "concat ds = wire_frames E enc c src'"
      using less.hyps [OF s'(2), of "b\<lparr>encoded := s'\<rparr>" k] less.prems s' n by auto
    from s'(6) show ?case
    proof
      assume "p = Pending \<and> d = []"
      then show ?case
        using encode_run_pending [of E enc settings b s' k] poll l ds s'(5) less.prems(3) n by auto
    next
      assume "p = Ready (Some (Inr d))"
      then show ?case
        using encode_run_data [of E enc settings b d s' k] poll l ds s'(5) less.prems(3) n
        by (intro exI [of _ "d # ds"]) simp
    qed
  next
    fix u x
    assume l: "encode_loop E enc settings (src @ source_end err) (encoded b) = encode_loop E enc settings (source_end err)
      ((encoded b)\<lparr>eb_source := x, eb_buf := eb_buf (encoded b) @ wire_frames E enc c src, eb_uncompression_buf := u\<rparr>)"
    obtain j where "n = Suc (Suc (Suc j))"
      using less.prems(10) by (intro that [of "n - 3"]) simp
    then show ?case
      using encode_run_source_end [OF trans [OF poll l] _ less.prems(3-5), of j] less.prems(2) by auto
  qed
qed

subsection \<open>Properties\<close>

text \<open>
  Property C7. A server's body is its messages and then its status. For a stream of messages that
  can be sent, with pending polls anywhere, that ends normally or with an error status, polling the
  body to its end gives data frames whose bytes are exactly the frames of the messages, in order,
  followed by one trailers frame with the final status; \<open>length src + 3\<close> polls are enough.
\<close>

theorem server_body_frames:
  assumes "list_all is_item src"
    and "\<forall>m \<in> set (items src). sendable E enc (if override = Disable then None else c) max_size settings m"
    and "length src + 3 \<le> n"
  shows "\<exists>ds. encode_run E enc settings n (new_server (src @ source_end err) c override max_size) =
           Some (map (Inr \<circ> DataFrame) ds @
             [map_sum id TrailersFrame (to_header_map E (case err of None \<Rightarrow> status_ok E [] | Some st \<Rightarrow> st))], True) \<and>
           concat ds = wire_frames E enc (if override = Disable then None else c) src"
  using encode_run_items [of "new_server (src @ source_end err) c override max_size" src err
      "if override = Disable then None else c" max_size E enc settings n] assms
  by (simp add: new_server_def new_encoded_bytes_def body_end_def)

theorem server_body_frames_witness:
  "\<exists>ds. encode_run list_ext bytes_encoder default_settings 7
           (new_server ([SItem [1], SPending, SItem [2, 3]] @ source_end (Some (internal list_ext ''boom''))) (Some Gzip) Inherit None) =
         Some (map (Inr \<circ> DataFrame) ds @
           [map_sum id TrailersFrame (to_header_map list_ext (internal list_ext ''boom''))], True) \<and>
       concat ds = wire_frames list_ext bytes_encoder (Some Gzip) [SItem [1], SPending, SItem [2, 3]]"
  using server_body_frames [of "[SItem [1], SPending, SItem [2, 3]]" list_ext bytes_encoder Inherit "Some Gzip" None
      default_settings 7 "Some (internal list_ext ''boom'')"]
  by (simp add: sendable_def encodable_def send_limit_def wire_payload_def bytes_encoder_def codec_limits
      default_settings_def DEFAULT_CODEC_BUFFER_SIZE_def list_ext_def [THEN arg_cong, of compressor])

text \<open>
  A client's body is its messages, then the error of its stream if there is one; it has
  no trailers.
\<close>

theorem client_body_frames:
  assumes "list_all is_item src" and "\<forall>m \<in> set (items src). sendable E enc c max_size settings m"
    and "length src + 3 \<le> n" and "token \<noteq> Some True"
  shows "\<exists>ds. encode_run E enc settings n (new_client_with_cancellation (src @ source_end err) c max_size token) =
           Some (map (Inr \<circ> DataFrame) ds @ (case err of None \<Rightarrow> [] | Some st \<Rightarrow> [Inl st]), True) \<and>
           concat ds = wire_frames E enc c src"
  using encode_run_items [of "new_client_with_cancellation (src @ source_end err) c max_size token" src err
      c max_size E enc settings n] assms
  by (simp add: new_client_with_cancellation_def new_encoded_bytes_def body_end_def)

theorem client_body_frames_witness:
  "\<exists>ds. encode_run list_ext bytes_encoder default_settings 5
           (new_client_with_cancellation ([SPending, SItem [4]] @ source_end None) None None (Some False)) =
         Some (map (Inr \<circ> DataFrame) ds, True) \<and>
       concat ds = wire_frames list_ext bytes_encoder None [SPending, SItem [4]]"
  using client_body_frames [of "[SPending, SItem [4]]" list_ext bytes_encoder None None default_settings 5 "Some False" None]
  by (simp add: sendable_def encodable_def send_limit_def wire_payload_def bytes_encoder_def codec_limits)

text \<open>
  The size limits decide the outcome for a message that encodes: above the limit it is
  refused with \<open>OutOfRange\<close>, within the limit but above what four length bytes can hold it is
  refused with \<open>ResourceExhausted\<close>, and otherwise exactly its frame is appended to the buffer.
\<close>

theorem encode_item_limits:
  assumes "encodable E enc c settings m"
  shows "\<exists>r b' u. encode_item E enc b ub c max_size settings m = Some (r, b', u) \<and>
     (let len = length (wire_payload E enc c m)
      in if send_limit max_size < len then (\<exists>e. r = Inl e \<and> code e = OutOfRange)
         else if u32_max < len then (\<exists>e. r = Inl e \<and> code e = ResourceExhausted)
         else r = Inr () \<and> b' = b @ wire_frame E enc c m)"
proof -
  obtain u where "encode_item E enc b ub c max_size settings m =
      do { (r, tail) \<leftarrow> finish_encoding E c max_size (replicate HEADER_SIZE 0 @ wire_payload E enc c m);
           Some (r, b @ tail, u) }"
    using assms by (rule encode_item_encodable)
  then show ?thesis
    by (auto simp: finish_encoding_def send_limit_def wire_frame_def message_frame_def constructor_defs new_status_def Let_def
        split: option.split)
qed

theorem encode_item_limits_witness:
  "\<exists>r b' u. encode_item list_ext bytes_encoder [9] [] None (Some 1) default_settings [1, 2] = Some (r, b', u) \<and>
     (\<exists>e. r = Inl e \<and> code e = OutOfRange)"
  using encode_item_limits [of list_ext bytes_encoder None default_settings "[1, 2]" "[9]" "[]" "Some 1"]
  by (simp add: encodable_def send_limit_def wire_payload_def bytes_encoder_def)

text \<open>
  Property C40. A message that fails to encode takes the batch before it down: the poll returns the
  error although a complete frame was waiting in the buffer, and the next poll sends that frame
  followed by the zeroed header and the partial bytes of the failed message.
\<close>

theorem failed_encode_corrupts_batch:
  assumes "sendable E enc None max_size settings m" and "enc bad = (bs, Some err)"
    and "length (wire_frame E enc None m) < yield_threshold settings"
  shows "\<exists>s1 s2. encoded_poll_next E enc settings (new_encoded_bytes [SItem m, SItem bad] None Inherit max_size) =
             Some (Ready (Some (Inl (internal E (''Error encoding: '' @ err)))), s1) \<and>
           encoded_poll_next E enc settings s1 =
             Some (Ready (Some (Inr (wire_frame E enc None m @ replicate HEADER_SIZE 0 @ bs))), s2)"
proof -
  obtain u where "encode_item E enc [] [] None max_size settings m = Some (Inr (), [] @ wire_frame E enc None m, u)"
    using assms(1) by (rule encode_item_sendable)
  then show ?thesis
    using assms(2,3)
    by (simp add: encoded_poll_next_def new_encoded_bytes_def encode_item_def [where item = bad] Let_def HEADER_SIZE_def)
qed

theorem failed_encode_corrupts_batch_witness:
  "\<exists>s1 s2. encoded_poll_next list_ext (\<lambda>m. (m, if m = [7] then Some ''bad'' else None)) default_settings
       (new_encoded_bytes [SItem [1], SItem [7]] None Inherit None) =
       Some (Ready (Some (Inl (internal list_ext (''Error encoding: '' @ ''bad'')))), s1) \<and>
     encoded_poll_next list_ext (\<lambda>m. (m, if m = [7] then Some ''bad'' else None)) default_settings s1 =
       Some (Ready (Some (Inr (wire_frame list_ext (\<lambda>m. (m, if m = [7] then Some ''bad'' else None)) None [1] @
         replicate HEADER_SIZE 0 @ [7]))), s2)"
  by (rule failed_encode_corrupts_batch)
    (simp_all add: sendable_def encodable_def send_limit_def wire_payload_def wire_frame_def message_frame_def
      codec_limits default_settings_def DEFAULT_YIELD_THRESHOLD_def)

end
