(* ===== verification/Codec_Decode.thy ===== *)
theory Codec_Decode
  imports Codec
begin

text \<open>
  \<open>tonic/src/codec/decode.rs\<close>: the \<open>Streaming\<close> reader, which turns the frames of an HTTP body into
  messages. The body is the list of what its polls return (the end of the list is the end of the
  body), the decoder is a parameter, and a panic is \<open>None\<close>.
\<close>

datatype 'h State =
    ReadHeader
  | ReadBody "CompressionEncoding option" nat
  | Error "'h Status option"

datatype Direction = Request | Response nat | EmptyResponse

record 'h StreamingInner =
  body :: "('h, 'h Status) body_poll list"
  state :: "'h State"
  direction :: Direction
  buf :: "byte list"
  trailers :: "'h option"
  decompress_buf :: "byte list"
  encoding :: "CompressionEncoding option"
  max_message_size :: "nat option"

definition new_streaming ::
    "'h ext \<Rightarrow> ('h dyn_error \<Rightarrow> string) \<Rightarrow> ('h, 'h dyn_error) body_poll list \<Rightarrow> Direction \<Rightarrow>
     CompressionEncoding option \<Rightarrow> nat option \<Rightarrow> 'h StreamingInner" where
  "new_streaming E txt b dir enc max_size =
     \<lparr>body = map (map_body_poll id (from_error E txt)) b, state = ReadHeader, direction = dir, buf = [],
      trailers = None, decompress_buf = [], encoding = enc, max_message_size = max_size\<rparr>"

definition new_response where
  "new_response E txt b status_code enc max_size = new_streaming E txt b (Response status_code) enc max_size"

definition new_empty where
  "new_empty E txt b = new_streaming E txt b EmptyResponse None None"

definition new_request where
  "new_request E txt b enc max_size = new_streaming E txt b Request enc max_size"

definition recv_limit :: "'h StreamingInner \<Rightarrow> nat" where
  "recv_limit s = (case max_message_size s of Some l \<Rightarrow> l | None \<Rightarrow> DEFAULT_MAX_RECV_MESSAGE_SIZE)"

text \<open>The texts of the protocol errors, with the side the stream is on.\<close>

definition invalid_flag_text :: "'h ext \<Rightarrow> Direction \<Rightarrow> byte \<Rightarrow> string" where
  "invalid_flag_text E dir f =
     ''protocol error: received message with invalid compression flag: '' @ show_nat (unat f) @
     '' (valid flags are 0 and 1)'' @
     (case dir of
        Response status \<Rightarrow> '' while receiving response with status: '' @ show_status_code E status
      | _ \<Rightarrow> '', while sending request'')"

definition decompress_error :: "'h ext \<Rightarrow> Direction \<Rightarrow> nat \<Rightarrow> io_error \<Rightarrow> 'h Status" where
  "decompress_error E dir limit err =
     (if kind err = WriteZero then
        resource_exhausted E (''Error decompressing: size limit, of '' @ show_nat limit @
          '' bytes, exceeded while decompressing message'')
      else
        internal E (''Error decompressing: '' @ io_text err @
          (case dir of
             Response status \<Rightarrow> '', while receiving response with status: '' @ show_status_code E status
           | _ \<Rightarrow> '', while sending request'')))"

definition missing_encoding_text :: string where
  "missing_encoding_text =
     ''protocol error: received message with compressed-flag but no grpc-encoding was specified''"

definition too_large_text :: "nat \<Rightarrow> nat \<Rightarrow> string" where
  "too_large_text len limit =
     ''Error, decoded message length too large: found '' @ show_nat len @ '' bytes, the limit is: '' @
     show_nat limit @ '' bytes''"

text \<open>
  The \<open>ReadHeader\<close> part of \<open>StreamingInner::decode_chunk\<close>: \<open>Inr False\<close> is its early \<open>Ok(None)\<close>,
  \<open>Inr True\<close> falls through. Bytes taken from the buffer before an error stay taken.
\<close>

definition decode_header :: "'h ext \<Rightarrow> 'h StreamingInner \<Rightarrow> ('h Status + bool) \<times> 'h StreamingInner" where
  "decode_header E s =
     (case buf s of
        f # a # b # c # d # rest \<Rightarrow>
          (let s1 = s\<lparr>buf := a # b # c # d # rest\<rparr>
           in if f = 1 \<and> encoding s = None then (Inl (internal E missing_encoding_text), s1)
              else if f \<noteq> 0 \<and> f \<noteq> 1 then (Inl (internal E (invalid_flag_text E (direction s) f)), s1)
              else
                (let len = get_u32 a b c d;
                     s2 = s\<lparr>buf := rest\<rparr>
                 in if recv_limit s < len then
                      (Inl (out_of_range E (too_large_text len (recv_limit s))), s2)
                    else (Inr True, s2\<lparr>state := ReadBody (if f = 0 then None else encoding s) len\<rparr>)))
      | _ \<Rightarrow> (Inr False, s))"

text \<open>Which buffer the decoder's window lies in, and its length.\<close>

datatype window = InBuf nat | InDecompressBuf nat

definition decode_body ::
    "'h ext \<Rightarrow> BufferSettings \<Rightarrow> 'h StreamingInner \<Rightarrow>
     (('h Status + window option) \<times> 'h StreamingInner) option" where
  "decode_body E settings s =
     (case state s of
        ReadBody compression len \<Rightarrow>
          if length (buf s) < len then Some (Inr None, s)
          else (case compression of
                  None \<Rightarrow> Some (Inr (Some (InBuf len)), s)
                | Some c \<Rightarrow> do {
                    (r, buf', out) \<leftarrow> decompress E
                       \<lparr>cs_encoding = c, buffer_growth_interval = buffer_size settings\<rparr>
                       (buf s) [] (recv_limit s) len;
                    let s' = s\<lparr>buf := buf', decompress_buf := out\<rparr>;
                    Some (case r of
                        Inr _ \<Rightarrow> (Inr (Some (InDecompressBuf (length out))), s')
                      | Inl err \<Rightarrow> (Inl (decompress_error E (direction s) (recv_limit s) err), s'))
                  })
      | _ \<Rightarrow> Some (Inr None, s))"

definition inner_decode_chunk ::
    "'h ext \<Rightarrow> BufferSettings \<Rightarrow> 'h StreamingInner \<Rightarrow>
     (('h Status + window option) \<times> 'h StreamingInner) option" where
  "inner_decode_chunk E settings s =
     (case (if state s = ReadHeader then decode_header E s else (Inr True, s)) of
        (Inl e, s1) \<Rightarrow> Some (Inl e, s1)
      | (Inr False, s1) \<Rightarrow> Some (Inr None, s1)
      | (Inr True, s1) \<Rightarrow> decode_body E settings s1)"

text \<open>The decoder sees its window through \<open>chunk\<close> and takes bytes with \<open>advance\<close>.\<close>

definition run_decoder ::
    "('m, 'h) decoder \<Rightarrow> DecodeBuf \<Rightarrow> (('h Status + 'm option) \<times> byte list) option" where
  "run_decoder dec d =
     (case dec (chunk d) of (r, cnt) \<Rightarrow> map_option (\<lambda>d'. (r, db_buf d')) (advance cnt d))"

definition decode_chunk ::
    "'h ext \<Rightarrow> ('m, 'h) decoder \<Rightarrow> BufferSettings \<Rightarrow> 'h StreamingInner \<Rightarrow>
     (('h Status + 'm option) \<times> 'h StreamingInner) option" where
  "decode_chunk E dec settings s = do {
     (r, s1) \<leftarrow> inner_decode_chunk E settings s;
     (case r of
        Inl e \<Rightarrow> Some (Inl e, s1)
      | Inr None \<Rightarrow> Some (Inr None, s1)
      | Inr (Some w) \<Rightarrow> do {
          (res, s2) \<leftarrow>
            (case w of
               InBuf len \<Rightarrow> map_option (map_prod id (\<lambda>b. s1\<lparr>buf := b\<rparr>))
                 (run_decoder dec \<lparr>db_buf = buf s1, db_len = len\<rparr>)
             | InDecompressBuf len \<Rightarrow> map_option (map_prod id (\<lambda>b. s1\<lparr>decompress_buf := b\<rparr>))
                 (run_decoder dec \<lparr>db_buf = decompress_buf s1, db_len = len\<rparr>));
          Some (case res of
              Inl e \<Rightarrow> (Inl e, s2)
            | Inr (Some msg) \<Rightarrow> (Inr (Some msg), s2\<lparr>state := ReadHeader\<rparr>)
            | Inr None \<Rightarrow> (Inr None, s2))
        })
   }"

text \<open>\<open>Inr True\<close> stands for \<open>Ok(Some(()))\<close>: data was found.\<close>

definition poll_frame :: "'h ext \<Rightarrow> 'h StreamingInner \<Rightarrow> (('h Status + bool) Poll \<times> 'h StreamingInner) option" where
  "poll_frame E s =
     (case body s of
        [] \<Rightarrow> Some (Ready (if buf s \<noteq> [] then Inl (internal E ''Unexpected EOF decoding stream.'') else Inr False), s)
      | p # rest \<Rightarrow>
          (let s1 = s\<lparr>body := rest\<rparr>
           in case p of
                BPending \<Rightarrow> Some (Pending, s1)
              | BError status \<Rightarrow>
                  if direction s = Request \<and> code status = Cancelled then Some (Ready (Inr False), s1)
                  else Some (Ready (Inl status), s1\<lparr>state := Error (Some status)\<rparr>)
              | BData d \<Rightarrow> Some (Ready (Inr True), s1\<lparr>buf := buf s @ d\<rparr>)
              | BTrailers t \<Rightarrow>
                  Some (Ready (Inr False),
                    s1\<lparr>trailers := Some (case trailers s of Some g \<Rightarrow> hm_extend E g t | None \<Rightarrow> t)\<rparr>)
              | BOther \<Rightarrow> None))"

definition response :: "'h ext \<Rightarrow> 'h StreamingInner \<Rightarrow> (('h Status + unit) \<times> 'h StreamingInner) option" where
  "response E s =
     (case direction s of
        Response status \<Rightarrow> do {
          r \<leftarrow> infer_grpc_status E (trailers s) status;
          Some (case r of Inl (Some e) \<Rightarrow> (Inl e, s\<lparr>trailers := None\<rparr>) | _ \<Rightarrow> (Inr (), s))
        }
      | _ \<Rightarrow> Some (Inr (), s))"

subsection \<open>What an iteration changes\<close>

text \<open>Decoding leaves everything but the buffers and the state alone.\<close>

definition same_stream :: "'h StreamingInner \<Rightarrow> 'h StreamingInner \<Rightarrow> bool" where
  "same_stream s s' \<longleftrightarrow>
     body s' = body s \<and> direction s' = direction s \<and> trailers s' = trailers s \<and>
     encoding s' = encoding s \<and> max_message_size s' = max_message_size s"

lemma same_stream_trans: "same_stream s t \<Longrightarrow> same_stream t u \<Longrightarrow> same_stream s u"
  by (simp add: same_stream_def)

lemma decode_header_same: "decode_header E s = (r, s') \<Longrightarrow> same_stream s s'"
  by (auto simp: decode_header_def same_stream_def Let_def split: list.splits if_splits)

lemma decode_body_same: "decode_body E settings s = Some (r, s') \<Longrightarrow> same_stream s s'"
  by (auto simp: decode_body_def same_stream_def Let_def
      split: State.split_asm if_split_asm option.split_asm sum.split_asm bind_split_asm)

lemma inner_decode_chunk_same: "inner_decode_chunk E settings s = Some (r, s') \<Longrightarrow> same_stream s s'"
  by (auto simp: inner_decode_chunk_def dest: decode_body_same
      intro: decode_header_same same_stream_trans
      split: if_splits prod.splits sum.splits bool.splits)

lemma decode_chunk_same: "decode_chunk E dec settings s = Some (r, s') \<Longrightarrow> same_stream s s'"
  by (auto simp: decode_chunk_def same_stream_def dest!: inner_decode_chunk_same
      split: sum.split_asm option.split_asm window.split_asm bind_split_asm)

lemma decode_chunk_body: "decode_chunk E dec settings s = Some (r, s') \<Longrightarrow> body s' = body s"
  by (drule decode_chunk_same) (simp add: same_stream_def)

lemma poll_frame_found:
  "poll_frame E s = Some (Ready (Inr True), s') \<Longrightarrow>
     \<exists>d. body s = BData d # body s' \<and> s' = s\<lparr>body := body s', buf := buf s @ d\<rparr>"
  by (auto simp: poll_frame_def Let_def split: list.splits body_poll.splits if_splits)

lemma poll_frame_pending: "poll_frame E s = Some (Pending, s') \<Longrightarrow> body s = BPending # body s'"
  by (auto simp: poll_frame_def Let_def split: list.splits body_poll.splits if_splits)

lemma poll_frame_body:
  "poll_frame E s = Some (Ready (Inr found), s') \<Longrightarrow> length (body s') + of_bool found \<le> length (body s)"
  by (auto simp: poll_frame_def Let_def split: list.splits body_poll.splits if_splits)

lemma response_body: "response E s = Some (r, s') \<Longrightarrow> body s' = body s"
  by (auto simp: response_def split: Direction.split_asm sum.split_asm option.split_asm bind_split_asm)

subsection \<open>The stream\<close>

text \<open>Every iteration of the loop of \<open>poll_next\<close> returns, takes a poll of the body, or enters \<open>Error\<close>.\<close>

function poll_next ::
    "'h ext \<Rightarrow> ('m, 'h) decoder \<Rightarrow> BufferSettings \<Rightarrow> 'h StreamingInner \<Rightarrow>
     (('h Status + 'm) option Poll \<times> 'h StreamingInner) option" where
  "poll_next E dec settings s =
     (case state s of
        Error status \<Rightarrow> Some (Ready (map_option Inl status), s\<lparr>state := Error None\<rparr>)
      | _ \<Rightarrow>
        (case decode_chunk E dec settings s of
           None \<Rightarrow> None
         | Some (Inl e, s1) \<Rightarrow> Some (Ready (Some (Inl e)), s1)
         | Some (Inr (Some item), s1) \<Rightarrow> Some (Ready (Some (Inr item)), s1)
         | Some (Inr None, s1) \<Rightarrow>
             (case poll_frame E s1 of
                None \<Rightarrow> None
              | Some (Pending, s2) \<Rightarrow> Some (Pending, s2)
              | Some (Ready (Inl e), s2) \<Rightarrow> Some (Ready (Some (Inl e)), s2)
              | Some (Ready (Inr True), s2) \<Rightarrow> poll_next E dec settings s2
              | Some (Ready (Inr False), s2) \<Rightarrow>
                  (case response E s2 of
                     None \<Rightarrow> None
                   | Some (Inr _, s3) \<Rightarrow> Some (Ready None, s3)
                   | Some (Inl err, s3) \<Rightarrow> poll_next E dec settings (s3\<lparr>state := Error (Some err)\<rparr>)))))"
  by pat_completeness auto
termination
  by (relation "measure (\<lambda>(E, dec, settings, s).
        2 * length (body s) + (case state s of Error _ \<Rightarrow> 0 | _ \<Rightarrow> 1))")
    (auto dest!: decode_chunk_body poll_frame_body response_body split: State.splits)

declare poll_next.simps [simp del]

text \<open>The bytes a stream still holds, and one more inside a message: what every message uses up.\<close>

definition unread :: "'h StreamingInner \<Rightarrow> nat" where
  "unread s = length (buf s) + length (body_bytes (body s)) + (case state s of ReadBody _ _ \<Rightarrow> 1 | _ \<Rightarrow> 0)"

lemma decode_header_unread:
  assumes "state s = ReadHeader" "decode_header E s = (Inr found, s')"
  shows "unread s' + 4 * of_bool found \<le> unread s"
  using assms decode_header_same [OF assms(2)]
  by (auto simp: decode_header_def unread_def same_stream_def Let_def split: list.split_asm if_split_asm)

lemma decompress_length:
  "decompress E cs b out limit len = Some (r, b', out') \<Longrightarrow> length b' \<le> length b"
  by (auto simp: decompress_def split: if_split_asm prod.split_asm option.split_asm)

lemma decode_body_unread:
  assumes "decode_body E settings s = Some (Inr w, s')"
  shows "unread s' \<le> unread s \<and> state s' = state s \<and> (w \<noteq> None \<longrightarrow> (\<exists>c n. state s = ReadBody c n))"
  using assms decode_body_same [OF assms]
  by (auto simp: decode_body_def unread_def same_stream_def Let_def dest!: decompress_length
      split: State.split_asm if_split_asm option.split_asm sum.split_asm bind_split_asm)

lemma inner_decode_chunk_unread:
  assumes "inner_decode_chunk E settings s = Some (Inr w, s')"
  shows "unread s' \<le> unread s \<and> (w \<noteq> None \<longrightarrow> (\<exists>c n. state s' = ReadBody c n))"
  using assms
  by (fastforce simp: inner_decode_chunk_def dest: decode_body_unread decode_header_unread
      split: if_split_asm prod.split_asm sum.split_asm bool.split_asm)

lemma run_decoder_length: "run_decoder dec d = Some (r, b) \<Longrightarrow> length b \<le> length (db_buf d)"
  by (auto simp: run_decoder_def advance_def split: if_split_asm prod.split_asm)

lemma decode_chunk_unread:
  assumes "decode_chunk E dec settings s = Some (Inr m, s')"
  shows "unread s' + of_bool (m \<noteq> None) \<le> unread s"
proof -
  obtain w s1 where c: "inner_decode_chunk E settings s = Some (Inr w, s1)"
    using assms by (auto simp: decode_chunk_def split: bind_split_asm sum.split_asm)
  note u = inner_decode_chunk_unread [OF c]
  have "unread s' + of_bool (m \<noteq> None) \<le> unread s1"
    using assms u
    by (auto simp: decode_chunk_def c unread_def dest!: run_decoder_length
        split: bind_split_asm option.split_asm window.split_asm sum.split_asm State.split_asm)
  with u show ?thesis by linarith
qed

lemma poll_nextE:
  assumes "poll_next E dec settings s = Some (p, s')"
  obtains (error) status where "state s = Error status" "p = Ready (map_option Inl status)"
      "s' = s\<lparr>state := Error None\<rparr>"
  | (decode_error) e where "decode_chunk E dec settings s = Some (Inl e, s')" "p = Ready (Some (Inl e))"
  | (item) m where "decode_chunk E dec settings s = Some (Inr (Some m), s')" "p = Ready (Some (Inr m))"
  | (pending) s1 where "decode_chunk E dec settings s = Some (Inr None, s1)"
      "poll_frame E s1 = Some (Pending, s')" "p = Pending"
  | (frame_error) e s1 where "decode_chunk E dec settings s = Some (Inr None, s1)"
      "poll_frame E s1 = Some (Ready (Inl e), s')" "p = Ready (Some (Inl e))"
  | (more) s1 s2 where "\<And>st. state s \<noteq> Error st" "decode_chunk E dec settings s = Some (Inr None, s1)"
      "poll_frame E s1 = Some (Ready (Inr True), s2)" "poll_next E dec settings s2 = Some (p, s')"
  | (finished) s1 s2 where "decode_chunk E dec settings s = Some (Inr None, s1)"
      "poll_frame E s1 = Some (Ready (Inr False), s2)" "response E s2 = Some (Inr (), s')" "p = Ready None"
  | (failed) s1 s2 s3 e where "decode_chunk E dec settings s = Some (Inr None, s1)"
      "poll_frame E s1 = Some (Ready (Inr False), s2)" "response E s2 = Some (Inl e, s3)"
      "p = Ready (Some (Inl e))" "s' = s3\<lparr>state := Error None\<rparr>"
  using assms poll_next.simps [of E dec settings s] poll_next.simps [of E dec settings "s2\<lparr>state := Error (Some e)\<rparr>" for s2 e]
  by (fastforce split: State.split_asm option.split_asm prod.split_asm sum.split_asm Poll.split_asm bool.split_asm)

lemma poll_frame_unread:
  assumes "poll_frame E s = Some (p, s')" and "p = Pending \<or> p = Ready (Inr True)"
  shows "unread s' = unread s \<and> length (body s') < length (body s)"
  using assms by (auto simp: poll_frame_def unread_def Let_def
      split: list.split_asm body_poll.split_asm if_split_asm)

lemma poll_next_unread:
  assumes "poll_next E dec settings s = Some (p, s')"
  shows "(\<forall>m. p = Ready (Some (Inr m)) \<longrightarrow> unread s' < unread s) \<and>
         (p = Pending \<longrightarrow> unread s' \<le> unread s \<and> length (body s') < length (body s))"
  using assms
proof (induction "length (body s)" arbitrary: s rule: less_induct)
  case less
  from less.prems show ?case
  proof (cases rule: poll_nextE)
    case (item m)
    then show ?thesis using decode_chunk_unread [OF item(1)] by simp
  next
    case (pending s1)
    then show ?thesis
      using decode_chunk_unread [OF pending(1)] poll_frame_unread [OF pending(2)] decode_chunk_body [OF pending(1)]
      by simp
  next
    case (more s1 s2)
    have s2: "unread s2 = unread s1" "length (body s2) < length (body s)" "unread s1 \<le> unread s"
      using decode_chunk_unread [OF more(2)] poll_frame_unread [OF more(3)] decode_chunk_body [OF more(2)] by auto
    show ?thesis using less.hyps [OF s2(2) more(4)] s2 by auto
  qed auto
qed

text \<open>\<open>Streaming::message\<close> awaits the next item; a pending poll of the body is polled again.\<close>

function streaming_message ::
    "'h ext \<Rightarrow> ('m, 'h) decoder \<Rightarrow> BufferSettings \<Rightarrow> 'h StreamingInner \<Rightarrow>
     (('h Status + 'm option) \<times> 'h StreamingInner) option" where
  "streaming_message E dec settings s =
     (case poll_next E dec settings s of
        None \<Rightarrow> None
      | Some (Pending, s1) \<Rightarrow> streaming_message E dec settings s1
      | Some (Ready (Some (Inr m)), s1) \<Rightarrow> Some (Inr (Some m), s1)
      | Some (Ready (Some (Inl e)), s1) \<Rightarrow> Some (Inl e, s1)
      | Some (Ready None, s1) \<Rightarrow> Some (Inr None, s1))"
  by pat_completeness auto
termination
  by (relation "measure (\<lambda>(E, dec, settings, s). length (body s))") (auto dest: poll_next_unread)

declare streaming_message.simps [simp del]

lemma streaming_message_unread:
  "streaming_message E dec settings s = Some (Inr (Some m), s') \<Longrightarrow> unread s' < unread s"
proof (induction E dec settings s rule: streaming_message.induct)
  case (1 E dec settings s)
  show ?case
    using "1.prems" "1.IH"
    by (subst (asm) streaming_message.simps)
      (fastforce dest: poll_next_unread split: option.split_asm prod.split_asm Poll.split_asm sum.split_asm)
qed

text \<open>\<open>Streaming::trailers\<close>: the cached trailers, else those found after draining the messages.\<close>

function drain ::
    "'h ext \<Rightarrow> ('m, 'h) decoder \<Rightarrow> BufferSettings \<Rightarrow> 'h StreamingInner \<Rightarrow>
     (('h Status + unit) \<times> 'h StreamingInner) option" where
  "drain E dec settings s =
     (case streaming_message E dec settings s of
        None \<Rightarrow> None
      | Some (Inl e, s1) \<Rightarrow> Some (Inl e, s1)
      | Some (Inr None, s1) \<Rightarrow> Some (Inr (), s1)
      | Some (Inr (Some _), s1) \<Rightarrow> drain E dec settings s1)"
  by pat_completeness auto
termination
  by (relation "measure (\<lambda>(E, dec, settings, s). unread s)") (auto dest: streaming_message_unread)

declare drain.simps [simp del]

definition streaming_trailers ::
    "'h ext \<Rightarrow> ('m, 'h) decoder \<Rightarrow> BufferSettings \<Rightarrow> 'h StreamingInner \<Rightarrow>
     (('h Status + 'h option) \<times> 'h StreamingInner) option" where
  "streaming_trailers E dec settings s =
     (case trailers s of
        Some t \<Rightarrow> Some (Inr (Some t), s\<lparr>trailers := None\<rparr>)
      | None \<Rightarrow> do {
          (r, s1) \<leftarrow> drain E dec settings s;
          Some (case r of
              Inl e \<Rightarrow> (Inl e, s1)
            | Inr _ \<Rightarrow> (Inr (trailers s1), s1\<lparr>trailers := None\<rparr>))
        })"

text \<open>Everything there is to read: the messages up to the first error or the end of the stream.\<close>

function collect ::
    "'h ext \<Rightarrow> ('m, 'h) decoder \<Rightarrow> BufferSettings \<Rightarrow> 'h StreamingInner \<Rightarrow>
     ('m list \<times> ('h Status + unit) \<times> 'h StreamingInner) option" where
  "collect E dec settings s =
     (case streaming_message E dec settings s of
        None \<Rightarrow> None
      | Some (Inl e, s1) \<Rightarrow> Some ([], Inl e, s1)
      | Some (Inr None, s1) \<Rightarrow> Some ([], Inr (), s1)
      | Some (Inr (Some m), s1) \<Rightarrow> map_option (\<lambda>(ms, r). (m # ms, r)) (collect E dec settings s1))"
  by pat_completeness auto
termination
  by (relation "measure (\<lambda>(E, dec, settings, s). unread s)") (auto dest: streaming_message_unread)

declare collect.simps [simp del]

subsection \<open>Reading frames\<close>

text \<open>The payload \<open>p\<close>, sent with compression \<open>c\<close>, is within the limits of the stream and is that of \<open>m\<close>.\<close>

definition payload_of ::
    "'h ext \<Rightarrow> ('m, 'h) decoder \<Rightarrow> BufferSettings \<Rightarrow> CompressionEncoding option \<Rightarrow> nat \<Rightarrow>
     CompressionEncoding option \<Rightarrow> byte list \<Rightarrow> 'm \<Rightarrow> bool" where
  "payload_of E dec settings enc limit c p m \<longleftrightarrow>
     length p \<le> limit \<and> length p < 2 ^ 32 \<and>
     (case c of
        None \<Rightarrow> dec p = (Inr (Some m), length p)
      | Some k \<Rightarrow> enc = Some k \<and> 0 < buffer_size settings \<and> snd (decompressor E k p) = None \<and>
          (let q = fst (decompressor E k p)
           in length q \<le> limit \<and> dec q = (Inr (Some m), length q)))"

definition wire :: "'h StreamingInner \<Rightarrow> byte list" where
  "wire s = buf s @ body_bytes (body s)"

definition in_message :: "CompressionEncoding option \<Rightarrow> byte list \<Rightarrow> byte list \<Rightarrow> 'h StreamingInner \<Rightarrow> bool" where
  "in_message c p rest s \<longleftrightarrow>
     (state s = ReadHeader \<and> wire s = message_frame (c \<noteq> None) p @ rest) \<or>
     (state s = ReadBody c (length p) \<and> wire s = p @ rest)"

lemma run_decoder_exact:
  assumes "dec p = (r, length p)" and "take n b = p" and "n \<le> length b"
  shows "run_decoder dec \<lparr>db_buf = b, db_len = n\<rparr> = Some (r, drop n b)"
proof -
  have "chunk \<lparr>db_buf = b, db_len = n\<rparr> = p" "length p = n"
    using assms by (auto simp: chunk_def)
  then show ?thesis
    using assms by (simp add: run_decoder_def advance_def)
qed

lemma decode_chunk_body_state:
  assumes p: "payload_of E dec settings (encoding s) (recv_limit s) c p m"
    and st: "state s = ReadBody c (length p)" and w: "wire s = p @ rest"
  obtains (short) "decode_chunk E dec settings s = Some (Inr None, s)" "body_bytes (body s) \<noteq> []"
  | (full) s' where "decode_chunk E dec settings s = Some (Inr (Some m), s')" "state s' = ReadHeader" "wire s' = rest"
proof (cases "length (buf s) < length p")
  case True
  then have "body_bytes (body s) \<noteq> []"
    using w by (auto simp: wire_def dest: arg_cong [where f = length])
  with True st show ?thesis
    by (intro short) (simp_all add: decode_chunk_def inner_decode_chunk_def decode_body_def)
next
  case False
  then obtain r where b: "buf s = p @ r"
    using w by (metis append_eq_append_conv_if append_take_drop_id linorder_not_less wire_def)
  then have r: "r @ body_bytes (body s) = rest" using w by (simp add: wire_def)
  show ?thesis
  proof (cases c)
    case None
    then have "decode_chunk E dec settings s = Some (Inr (Some m), s\<lparr>buf := r, state := ReadHeader\<rparr>)"
      using p st run_decoder_exact [of dec p "Inr (Some m)" "length p" "buf s"]
      by (simp add: b decode_chunk_def inner_decode_chunk_def decode_body_def payload_of_def)
    from full [OF this] r show ?thesis by (simp add: wire_def)
  next
    case (Some k)
    then obtain q where q: "decompressor E k p = (q, None)" "length q \<le> recv_limit s"
      "dec q = (Inr (Some m), length q)" "0 < buffer_size settings"
      using p by (cases "decompressor E k p") (auto simp: payload_of_def)
    have "decode_chunk E dec settings s =
        Some (Inr (Some m), s\<lparr>buf := r, decompress_buf := [], state := ReadHeader\<rparr>)"
      using st Some q run_decoder_exact [of dec q "Inr (Some m)" "length q" q]
      by (simp add: b decode_chunk_def inner_decode_chunk_def decode_body_def decompress_def)
    from full [OF this] r show ?thesis by (simp add: wire_def)
  qed
qed

text \<open>A complete header moves the stream into its message.\<close>

lemma decode_chunk_header_state:
  assumes "decode_header E s = (Inr True, s1)" and "state s = ReadHeader" and "state s1 = ReadBody c n"
  shows "decode_chunk E dec settings s = decode_chunk E dec settings s1"
  using assms by (simp add: decode_chunk_def inner_decode_chunk_def)

lemma decode_header_frame:
  assumes p: "payload_of E dec settings (encoding s) (recv_limit s) c p m"
    and st: "state s = ReadHeader" and w: "wire s = message_frame (c \<noteq> None) p @ rest"
  obtains (short) "decode_header E s = (Inr False, s)" "body_bytes (body s) \<noteq> []"
  | (full) r where "decode_header E s = (Inr True, s\<lparr>buf := r, state := ReadBody c (length p)\<rparr>)"
      "r @ body_bytes (body s) = p @ rest"
proof (cases "length (buf s) < 5")
  case True
  then have "decode_header E s = (Inr False, s)"
    by (auto simp: decode_header_def split: list.split)
  moreover have "body_bytes (body s) \<noteq> []"
    using True w by (auto simp: wire_def message_frame_def dest: arg_cong [where f = length])
  ultimately show ?thesis by (rule short)
next
  case False
  let ?n = "length p"
  let ?f = "if c \<noteq> None then 1 else 0 :: byte"
  have n: "get_u32 (of_nat (?n div 2 ^ 24)) (of_nat (?n div 2 ^ 16)) (of_nat (?n div 2 ^ 8)) (of_nat ?n) = ?n"
    using p by (intro get_u32_put_u32) (simp add: payload_of_def)
  obtain f a b c' d r where b: "buf s = f # a # b # c' # d # r"
    using False by (auto simp: not_less numeral_eq_Suc Suc_le_length_iff)
  then have r: "r @ body_bytes (body s) = p @ rest" and
    h: "f = ?f" "a = of_nat (?n div 2 ^ 24)" "b = of_nat (?n div 2 ^ 16)" "c' = of_nat (?n div 2 ^ 8)" "d = of_nat ?n"
    using w by (simp_all add: wire_def message_frame_def put_u32_def)
  have "get_u32 a b c' d = ?n" using n h by simp
  moreover have "\<not> recv_limit s < ?n" "c \<noteq> None \<Longrightarrow> encoding s = c"
    using p by (auto simp: payload_of_def)
  ultimately have "decode_header E s = (Inr True, s\<lparr>buf := r, state := ReadBody c ?n\<rparr>)"
    using b h(1) by (cases c) (simp_all add: decode_header_def)
  from full [OF this r] show ?thesis .
qed

lemma decode_chunk_in_message:
  assumes p: "payload_of E dec settings (encoding s) (recv_limit s) c p m" and i: "in_message c p rest s"
  obtains (short) s' where "decode_chunk E dec settings s = Some (Inr None, s')" "in_message c p rest s'"
      "body_bytes (body s) \<noteq> []"
  | (full) s' where "decode_chunk E dec settings s = Some (Inr (Some m), s')" "state s' = ReadHeader" "wire s' = rest"
  using i unfolding in_message_def
proof (elim disjE conjE)
  assume s: "state s = ReadHeader" "wire s = message_frame (c \<noteq> None) p @ rest"
  from p s show thesis
  proof (cases rule: decode_header_frame)
    case h: short
    then show thesis
      using s by (intro short [of s]) (simp_all add: decode_chunk_def inner_decode_chunk_def in_message_def)
  next
    case (full r)
    let ?s1 = "s\<lparr>buf := r, state := ReadBody c (length p)\<rparr>"
    have c: "decode_chunk E dec settings s = decode_chunk E dec settings ?s1"
      by (rule decode_chunk_header_state [OF full(1) s(1)]) simp
    have "payload_of E dec settings (encoding ?s1) (recv_limit ?s1) c p m"
      using p by (simp add: recv_limit_def)
    then show thesis
    proof (rule decode_chunk_body_state [of E dec settings ?s1 c p m rest])
      show "state ?s1 = ReadBody c (length p)" "wire ?s1 = p @ rest"
        using full(2) by (simp_all add: wire_def)
    next
      assume "decode_chunk E dec settings ?s1 = Some (Inr None, ?s1)" "body_bytes (body ?s1) \<noteq> []"
      then show thesis
        using full(2) by (intro short [of ?s1]) (simp_all add: c in_message_def wire_def)
    qed (simp add: c that)
  qed
next
  assume "state s = ReadBody c (length p)" "wire s = p @ rest"
  with p show thesis
    by (rule decode_chunk_body_state) (use i in \<open>auto intro: that\<close>)
qed

text \<open>What reading a message keeps: the limits, the direction, the trailers, and the end of the body.\<close>

definition keeps :: "('h, 'h Status) body_poll list \<Rightarrow> 'h StreamingInner \<Rightarrow> 'h StreamingInner \<Rightarrow> bool" where
  "keeps sfx s s' \<longleftrightarrow>
     direction s' = direction s \<and> trailers s' = trailers s \<and> encoding s' = encoding s \<and>
     max_message_size s' = max_message_size s \<and> length (body s') \<le> length (body s) \<and>
     (\<exists>b. body s' = b @ sfx \<and> list_all is_data b)"

lemma keeps_trans: "keeps sfx s t \<Longrightarrow> keeps sfx t u \<Longrightarrow> keeps sfx s u"
  by (auto simp: keeps_def)

lemma same_stream_keeps:
  "same_stream s s' \<Longrightarrow> body s = b @ sfx \<Longrightarrow> list_all is_data b \<Longrightarrow> keeps sfx s s'"
  by (auto simp: keeps_def same_stream_def)

lemma keeps_limits: "keeps sfx s s' \<Longrightarrow> encoding s' = encoding s \<and> recv_limit s' = recv_limit s"
  by (simp add: keeps_def recv_limit_def)

lemma poll_frame_data:
  assumes "list_all is_data b" "body s = b @ sfx" "body_bytes (body s) \<noteq> []" "body_bytes sfx = []"
  obtains (pending) s' where "poll_frame E s = Some (Pending, s')" "buf s' = buf s" "state s' = state s"
      "body_bytes (body s') = body_bytes (body s)" "keeps sfx s s'" "length (body s') < length (body s)"
  | (found) s' where "poll_frame E s = Some (Ready (Inr True), s')" "state s' = state s"
      "wire s' = wire s" "keeps sfx s s'" "length (body s') < length (body s)"
proof (cases b)
  case Nil
  then show ?thesis using assms by simp
next
  case (Cons x b')
  show ?thesis
  proof (cases x)
    case BPending
    then show ?thesis
      using assms Cons by (intro pending [of "s\<lparr>body := b' @ sfx\<rparr>"]) (auto simp: poll_frame_def keeps_def)
  next
    case (BData d)
    then show ?thesis
      using assms Cons by (intro found [of "s\<lparr>body := b' @ sfx, buf := buf s @ d\<rparr>"])
        (auto simp: poll_frame_def keeps_def wire_def)
  qed (use assms Cons in auto)
qed

lemma not_error_in_message: "in_message c p rest s \<Longrightarrow> state s \<noteq> Error st"
  by (auto simp: in_message_def)

lemma poll_next_decode:
  assumes "\<And>st. state s \<noteq> Error st"
  shows "decode_chunk E dec settings s = Some (Inr (Some m), s1) \<Longrightarrow>
      poll_next E dec settings s = Some (Ready (Some (Inr m)), s1)"
    and "decode_chunk E dec settings s = Some (Inr None, s1) \<Longrightarrow> poll_frame E s1 = Some (Pending, s2) \<Longrightarrow>
      poll_next E dec settings s = Some (Pending, s2)"
    and "decode_chunk E dec settings s = Some (Inr None, s1) \<Longrightarrow> poll_frame E s1 = Some (Ready (Inr True), s2) \<Longrightarrow>
      poll_next E dec settings s = poll_next E dec settings s2"
    and "decode_chunk E dec settings s = Some (Inr None, s1) \<Longrightarrow> poll_frame E s1 = Some (Ready (Inr False), s2) \<Longrightarrow>
      response E s2 = Some (Inr (), s3) \<Longrightarrow> poll_next E dec settings s = Some (Ready None, s3)"
    and "decode_chunk E dec settings s = Some (Inr None, s1) \<Longrightarrow> poll_frame E s1 = Some (Ready (Inr False), s2) \<Longrightarrow>
      response E s2 = Some (Inl e, s3) \<Longrightarrow>
      poll_next E dec settings s = Some (Ready (Some (Inl e)), s3\<lparr>state := Error None\<rparr>)"
    and "decode_chunk E dec settings s = Some (Inr None, s1) \<Longrightarrow> poll_frame E s1 = Some (Ready (Inl e), s2) \<Longrightarrow>
      poll_next E dec settings s = Some (Ready (Some (Inl e)), s2)"
    and "decode_chunk E dec settings s = Some (Inl e, s1) \<Longrightarrow>
      poll_next E dec settings s = Some (Ready (Some (Inl e)), s1)"
  using assms
  by (simp_all add: poll_next.simps [of E dec settings s]
      poll_next.simps [of E dec settings "s3\<lparr>state := Error (Some e)\<rparr>"] split: State.split)

lemma poll_next_in_message:
  assumes "payload_of E dec settings (encoding s) (recv_limit s) c p m" and "in_message c p rest s"
    and "body s = b @ sfx" "list_all is_data b" "body_bytes sfx = []"
  shows "(\<exists>s'. poll_next E dec settings s = Some (Pending, s') \<and> in_message c p rest s' \<and> keeps sfx s s' \<and>
              length (body s') < length (body s)) \<or>
         (\<exists>s'. poll_next E dec settings s = Some (Ready (Some (Inr m)), s') \<and> state s' = ReadHeader \<and>
              wire s' = rest \<and> keeps sfx s s')"
  using assms
proof (induction "length (body s)" arbitrary: s b rule: less_induct)
  case less
  note ne = not_error_in_message [OF less.prems(2)]
  from less.prems(1,2) show ?case
  proof (cases rule: decode_chunk_in_message)
    case (full s')
    then show ?thesis
      using poll_next_decode(1) [OF ne full(1)] same_stream_keeps [OF decode_chunk_same [OF full(1)] less.prems(3,4)]
      by blast
  next
    case (short s1)
    have same: "same_stream s s1" and k1: "keeps sfx s s1"
      using decode_chunk_same [OF short(1)] same_stream_keeps less.prems(3,4) by blast+
    have b1: "body s1 = b @ sfx" "body_bytes (body s1) \<noteq> []" "length (body s1) = length (body s)"
      using same short(3) less.prems(3) by (simp_all add: same_stream_def)
    from less.prems(4) b1(1,2) less.prems(5) show ?thesis
    proof (cases rule: poll_frame_data [where E = E])
      case (pending s2)
      then have "in_message c p rest s2"
        using short(2) by (simp add: in_message_def wire_def)
      then show ?thesis
        using poll_next_decode(2) [OF ne short(1) pending(1)] keeps_trans [OF k1 pending(5)] pending(6) b1(3) by auto
    next
      case (found s2)
      have k2: "keeps sfx s s2" and i2: "in_message c p rest s2"
        using keeps_trans [OF k1 found(4)] short(2) found(2,3) by (auto simp: in_message_def)
      then obtain b2 where b2: "body s2 = b2 @ sfx" "list_all is_data b2" by (auto simp: keeps_def)
      have l: "length (body s2) < length (body s)" using found(5) b1(3) by simp
      have p2: "payload_of E dec settings (encoding s2) (recv_limit s2) c p m"
        using less.prems(1) keeps_limits [OF k2] by simp
      show ?thesis
        using less.hyps [OF l p2 i2 b2 less.prems(5)] l
        by (auto simp: poll_next_decode(3) [OF ne short(1) found(1)] intro: keeps_trans [OF k2])
    qed
  qed
qed

lemma streaming_message_in_message:
  assumes "payload_of E dec settings (encoding s) (recv_limit s) c p m" and "in_message c p rest s"
    and "body s = b @ sfx" "list_all is_data b" "body_bytes sfx = []"
  shows "\<exists>s'. streaming_message E dec settings s = Some (Inr (Some m), s') \<and> state s' = ReadHeader \<and>
            wire s' = rest \<and> keeps sfx s s'"
  using assms
proof (induction "length (body s)" arbitrary: s b rule: less_induct)
  case less
  from poll_next_in_message [OF less.prems] show ?case
  proof (elim disjE exE conjE)
    fix s1
    assume s1: "poll_next E dec settings s = Some (Pending, s1)" "in_message c p rest s1" "keeps sfx s s1"
      "length (body s1) < length (body s)"
    then obtain b1 where b1: "body s1 = b1 @ sfx" "list_all is_data b1" by (auto simp: keeps_def)
    have "payload_of E dec settings (encoding s1) (recv_limit s1) c p m"
      using less.prems(1) keeps_limits [OF s1(3)] by simp
    from less.hyps [OF s1(4) this s1(2) b1 less.prems(5)] show ?case
      using s1(1,3) by (auto simp: streaming_message.simps [of E dec settings s] intro: keeps_trans)
  qed (simp add: streaming_message.simps [of E dec settings s])
qed

subsection \<open>The end of a stream\<close>

lemma decode_chunk_empty:
  "state s = ReadHeader \<Longrightarrow> buf s = [] \<Longrightarrow> decode_chunk E dec settings s = Some (Inr None, s)"
  by (simp add: decode_chunk_def inner_decode_chunk_def decode_header_def)

lemma streaming_message_idle_step:
  assumes "state s = ReadHeader" "buf s = []" "body s = x # b" "x = BPending \<or> x = BData []"
  shows "streaming_message E dec settings s = streaming_message E dec settings (s\<lparr>body := b\<rparr>)"
proof -
  have ne: "\<And>st. state s \<noteq> Error st" and d: "decode_chunk E dec settings s = Some (Inr None, s)"
    using assms by (simp_all add: decode_chunk_empty)
  have b: "s\<lparr>body := b, buf := []\<rparr> = s\<lparr>body := b\<rparr>" using assms(2) by simp
  from assms(4) show ?thesis
  proof
    assume "x = BPending"
    then have "poll_frame E s = Some (Pending, s\<lparr>body := b\<rparr>)" using assms by (simp add: poll_frame_def)
    from poll_next_decode(2) [OF ne d this] show ?thesis
      by (simp add: streaming_message.simps [of E dec settings s])
  next
    assume "x = BData []"
    then have "poll_frame E s = Some (Ready (Inr True), s\<lparr>body := b\<rparr>)" using assms b by (simp add: poll_frame_def)
    from poll_next_decode(3) [OF ne d this] show ?thesis
      by (simp add: streaming_message.simps [of E dec settings s] streaming_message.simps [of E dec settings "s\<lparr>body := b\<rparr>"])
  qed
qed

lemma streaming_message_idle:
  assumes "state s = ReadHeader" "buf s = []" "body s = b @ sfx" "list_all is_data b" "body_bytes b = []"
  shows "streaming_message E dec settings s = streaming_message E dec settings (s\<lparr>body := sfx\<rparr>)"
  using assms
proof (induction b arbitrary: s)
  case (Cons x b)
  then have "x = BPending \<or> x = BData []" by (cases x) auto
  with Cons.prems have "streaming_message E dec settings s = streaming_message E dec settings (s\<lparr>body := b @ sfx\<rparr>)"
    by (intro streaming_message_idle_step) auto
  also have "\<dots> = streaming_message E dec settings (s\<lparr>body := sfx\<rparr>)"
    using Cons.IH [of "s\<lparr>body := b @ sfx\<rparr>"] Cons.prems \<open>x = BPending \<or> x = BData []\<close> by auto
  finally show ?case .
qed auto

text \<open>What the end of a response is, by the status its trailers give.\<close>

definition ends_as :: "'h ext \<Rightarrow> 'h \<Rightarrow> nat \<Rightarrow> ('h Status + unit) \<Rightarrow> bool" where
  "ends_as E t sc r \<longleftrightarrow>
     (case r of
        Inr _ \<Rightarrow> infer_grpc_status E (Some t) sc = Some (Inr ())
      | Inl e \<Rightarrow> infer_grpc_status E (Some t) sc = Some (Inl (Some e)))"

lemma streaming_message_end:
  assumes "state s = ReadHeader" "wire s = []" "body s = b @ BTrailers t # after" "list_all is_data b"
    and "trailers s = None" "direction s = Response sc" and "ends_as E t sc r"
  shows "\<exists>s'. streaming_message E dec settings s = Some (map_sum id (\<lambda>_. None) r, s') \<and>
            trailers s' = (case r of Inr _ \<Rightarrow> Some t | Inl _ \<Rightarrow> None) \<and>
            state s' = (case r of Inr _ \<Rightarrow> ReadHeader | Inl _ \<Rightarrow> Error None)"
proof -
  let ?s = "s\<lparr>body := BTrailers t # after\<rparr>"
  let ?s2 = "s\<lparr>body := after, trailers := Some t\<rparr>"
  have ne: "\<And>st. state ?s \<noteq> Error st" and d: "decode_chunk E dec settings ?s = Some (Inr None, ?s)"
    and f: "poll_frame E ?s = Some (Ready (Inr False), ?s2)"
    and i: "streaming_message E dec settings s = streaming_message E dec settings ?s"
    using assms by (auto simp: decode_chunk_empty poll_frame_def wire_def intro!: streaming_message_idle)
  show ?thesis
  proof (cases r)
    case (Inl e)
    then have "response E ?s2 = Some (Inl e, ?s2\<lparr>trailers := None\<rparr>)"
      using assms by (simp add: response_def ends_as_def)
    from poll_next_decode(5) [OF ne d f this] show ?thesis
      using Inl unfolding i by (simp add: streaming_message.simps [of E dec settings ?s])
  next
    case (Inr u)
    then have "response E ?s2 = Some (Inr (), ?s2)"
      using assms by (simp add: response_def ends_as_def)
    from poll_next_decode(4) [OF ne d f this] show ?thesis
      using Inr assms(1) unfolding i by (simp add: streaming_message.simps [of E dec settings ?s])
  qed
qed

text \<open>A list of frames: per message, the compression, the payload and what it decodes to.\<close>

definition frames_bytes :: "(CompressionEncoding option \<times> byte list \<times> 'm) list \<Rightarrow> byte list" where
  "frames_bytes fs = concat (map (\<lambda>(c, p, _). message_frame (c \<noteq> None) p) fs)"

lemma collect_frames:
  assumes "\<forall>(c, p, m) \<in> set fs. payload_of E dec settings (encoding s) (recv_limit s) c p m"
    and "state s = ReadHeader" "wire s = frames_bytes fs" "body s = b @ BTrailers t # after" "list_all is_data b"
    and "body_bytes after = []" "trailers s = None" "direction s = Response sc" and "ends_as E t sc r"
  shows "\<exists>s'. collect E dec settings s = Some (map (\<lambda>(_, _, m). m) fs, r, s') \<and>
            trailers s' = (case r of Inr _ \<Rightarrow> Some t | Inl _ \<Rightarrow> None)"
  using assms
proof (induction fs arbitrary: s b)
  case Nil
  then show ?case
    using streaming_message_end [of s b t after sc E r dec settings]
    by (cases r) (auto simp: collect.simps [of E dec settings s] frames_bytes_def)
next
  case (Cons x fs)
  obtain c p m where x: "x = (c, p, m)" by (cases x)
  have "in_message c p (frames_bytes fs) s"
    using Cons.prems(2,3) x by (simp add: in_message_def frames_bytes_def)
  with Cons.prems x obtain s1 where s1: "streaming_message E dec settings s = Some (Inr (Some m), s1)"
      "state s1 = ReadHeader" "wire s1 = frames_bytes fs" "keeps (BTrailers t # after) s s1"
    using streaming_message_in_message [of E dec settings s c p m "frames_bytes fs" b "BTrailers t # after"] by auto
  then obtain b1 where "body s1 = b1 @ BTrailers t # after" "list_all is_data b1" by (auto simp: keeps_def)
  then have "\<exists>s'. collect E dec settings s1 = Some (map (\<lambda>(_, _, m). m) fs, r, s') \<and>
      trailers s' = (case r of Inr _ \<Rightarrow> Some t | Inl _ \<Rightarrow> None)"
    using Cons.prems s1 keeps_limits [OF s1(4)] by (intro Cons.IH) (auto simp: keeps_def)
  then show ?case
    using s1(1) x by (auto simp: collect.simps [of E dec settings s])
qed

subsection \<open>Safety of a reader\<close>

text \<open>
  The frames a peer may send without making the reader panic: data and trailers whose
  \<open>grpc-status-details-bin\<close>, if any, is base64. A message being read is within the limits.
\<close>

definition details_ok :: "'h ext \<Rightarrow> 'h \<Rightarrow> bool" where
  "details_ok E t = (case hm_get E t GRPC_STATUS_DETAILS of None \<Rightarrow> True | Some d \<Rightarrow> b64_decode E d \<noteq> None)"

fun frame_ok :: "'h ext \<Rightarrow> ('h, 'e) body_poll \<Rightarrow> bool" where
  "frame_ok E (BTrailers t) = details_ok E t"
| "frame_ok E BOther = False"
| "frame_ok E _ = True"

definition stream_ok :: "'h ext \<Rightarrow> 'h StreamingInner \<Rightarrow> bool" where
  "stream_ok E s \<longleftrightarrow>
     list_all (frame_ok E) (body s) \<and> (case trailers s of None \<Rightarrow> True | Some t \<Rightarrow> details_ok E t) \<and>
     (case state s of ReadBody c n \<Rightarrow> n \<le> recv_limit s | _ \<Rightarrow> True)"

text \<open>A decoder may take no more than its window, the compressors need a growth interval.\<close>

definition reader_ok :: "'h ext \<Rightarrow> ('m, 'h) decoder \<Rightarrow> BufferSettings \<Rightarrow> bool" where
  "reader_ok E dec settings \<longleftrightarrow>
     header_map_laws E \<and> (\<forall>b. snd (dec b) \<le> length b) \<and> 0 < buffer_size settings"

fun window_len :: "window \<Rightarrow> nat" where
  "window_len (InBuf n) = n"
| "window_len (InDecompressBuf n) = n"

lemma recv_limit_update [simp]:
  "recv_limit (s\<lparr>body := b\<rparr>) = recv_limit s" "recv_limit (s\<lparr>state := st\<rparr>) = recv_limit s"
  "recv_limit (s\<lparr>buf := b'\<rparr>) = recv_limit s" "recv_limit (s\<lparr>trailers := t\<rparr>) = recv_limit s"
  by (simp_all add: recv_limit_def)

lemma same_stream_limit: "same_stream s s' \<Longrightarrow> recv_limit s' = recv_limit s"
  by (simp add: same_stream_def recv_limit_def)

lemma stream_ok_same:
  "same_stream s s' \<Longrightarrow> stream_ok E s \<Longrightarrow> (\<And>c n. state s' = ReadBody c n \<Longrightarrow> n \<le> recv_limit s) \<Longrightarrow> stream_ok E s'"
  by (auto simp: stream_ok_def same_stream_limit split: State.split) (simp_all add: same_stream_def)

lemma stream_ok_len: "stream_ok E s \<Longrightarrow> state s = ReadBody c n \<Longrightarrow> n \<le> recv_limit s"
  by (simp add: stream_ok_def)

lemma decode_header_ok:
  assumes "stream_ok E s" and "decode_header E s = (r, s')"
  shows "stream_ok E s' \<and> (r \<noteq> Inr True \<longrightarrow> state s' = state s)"
proof -
  have "state s' = state s \<or> (\<exists>c n. state s' = ReadBody c n \<and> n \<le> recv_limit s)" "r \<noteq> Inr True \<longrightarrow> state s' = state s"
    using assms(2) by (auto simp: decode_header_def Let_def split: list.split_asm if_split_asm)
  moreover have "\<And>c n. state s = ReadBody c n \<Longrightarrow> n \<le> recv_limit s"
    using assms(1) by (simp add: stream_ok_def)
  ultimately show ?thesis
    using stream_ok_same [OF decode_header_same [OF assms(2)] assms(1)] by auto
qed

lemma decode_body_safe:
  assumes "stream_ok E s" and "0 < buffer_size settings"
  obtains r s' where "decode_body E settings s = Some (r, s')" "stream_ok E s'" "same_stream s s'"
    "\<And>w. r = Inr (Some w) \<Longrightarrow> window_len w \<le> recv_limit s \<and>
       (case w of InBuf n \<Rightarrow> n \<le> length (buf s') | InDecompressBuf n \<Rightarrow> n \<le> length (decompress_buf s'))"
proof -
  have "decode_body E settings s \<noteq> None"
    using assms(2) by (auto simp: decode_body_def decompress_def Let_def split: State.split option.split prod.split)
  then obtain r s' where d: "decode_body E settings s = Some (r, s')" by auto
  have "state s' = state s"
    using d by (auto simp: decode_body_def Let_def
        split: State.split_asm if_split_asm option.split_asm sum.split_asm bind_split_asm)
  then have "stream_ok E s'"
    by (intro stream_ok_same [OF decode_body_same [OF d] assms(1)]) (metis assms(1) stream_ok_len)
  moreover have "window_len w \<le> recv_limit s \<and>
      (case w of InBuf n \<Rightarrow> n \<le> length (buf s') | InDecompressBuf n \<Rightarrow> n \<le> length (decompress_buf s'))"
    if "r = Inr (Some w)" for w
    using d assms(1) unfolding that
    by (auto simp: decode_body_def decompress_def stream_ok_def Let_def
        split: State.split_asm if_split_asm option.split_asm sum.split_asm bind_split_asm prod.split_asm)
  ultimately show thesis using d decode_body_same [OF d] that by blast
qed

lemma inner_decode_chunk_safe:
  assumes "stream_ok E s" and "0 < buffer_size settings"
  obtains r s' where "inner_decode_chunk E settings s = Some (r, s')" "stream_ok E s'"
    "\<And>w. r = Inr (Some w) \<Longrightarrow> window_len w \<le> recv_limit s \<and>
       (case w of InBuf n \<Rightarrow> n \<le> length (buf s') | InDecompressBuf n \<Rightarrow> n \<le> length (decompress_buf s'))"
proof (cases "state s = ReadHeader")
  case False
  from assms show thesis
    by (rule decode_body_safe) (use that False in \<open>auto simp: inner_decode_chunk_def\<close>)
next
  case True
  obtain r1 s1 where h: "decode_header E s = (r1, s1)" by fastforce
  note ok = decode_header_ok [OF assms(1) h]
  show thesis
  proof (cases "r1 = Inr True")
    case t: True
    obtain r s' where "decode_body E settings s1 = Some (r, s')" "stream_ok E s'"
      "\<And>w. r = Inr (Some w) \<Longrightarrow> window_len w \<le> recv_limit s1 \<and>
         (case w of InBuf n \<Rightarrow> n \<le> length (buf s') | InDecompressBuf n \<Rightarrow> n \<le> length (decompress_buf s'))"
      using decode_body_safe [OF _ assms(2)] ok by blast
    with t h True same_stream_limit [OF decode_header_same [OF h]] show thesis
      by (intro that [of r s']) (auto simp: inner_decode_chunk_def)
  next
    case False
    then show thesis
      using that [of "case r1 of Inl e \<Rightarrow> Inl e | Inr _ \<Rightarrow> Inr None" s1] h ok True
      by (cases r1) (auto simp: inner_decode_chunk_def)
  qed
qed

lemma run_decoder_safe:
  assumes "\<forall>b. snd (dec b) \<le> length b" and "db_len d \<le> length (db_buf d)"
  shows "run_decoder dec d \<noteq> None"
proof -
  have "snd (dec (chunk d)) \<le> db_len d"
    using assms(1) length_chunk [OF assms(2)] by (simp add: remaining_def) (metis assms(1))
  then show ?thesis using assms(2) by (auto simp: run_decoder_def advance_def split: prod.split)
qed

lemma decode_chunk_safe:
  assumes "stream_ok E s" and "reader_ok E dec settings"
  obtains r s' where "decode_chunk E dec settings s = Some (r, s')" "stream_ok E s'"
proof -
  have z: "0 < buffer_size settings" and d: "\<forall>b. snd (dec b) \<le> length b"
    using assms(2) by (simp_all add: reader_ok_def)
  obtain r s1 where i: "inner_decode_chunk E settings s = Some (r, s1)" "stream_ok E s1"
    "\<And>w. r = Inr (Some w) \<Longrightarrow> window_len w \<le> recv_limit s \<and>
       (case w of InBuf n \<Rightarrow> n \<le> length (buf s1) | InDecompressBuf n \<Rightarrow> n \<le> length (decompress_buf s1))"
    using inner_decode_chunk_safe [OF assms(1) z] by blast
  have "decode_chunk E dec settings s \<noteq> None"
    using i(3) run_decoder_safe [OF d, of "\<lparr>db_buf = buf s1, db_len = n\<rparr>" for n]
      run_decoder_safe [OF d, of "\<lparr>db_buf = decompress_buf s1, db_len = n\<rparr>" for n]
    by (cases r) (fastforce simp: decode_chunk_def i(1) split: option.split window.split)+
  then obtain r' s' where c: "decode_chunk E dec settings s = Some (r', s')" by auto
  have "same_stream s1 s' \<and> (state s' = state s1 \<or> state s' = ReadHeader)"
    using c by (auto simp: decode_chunk_def i(1) same_stream_def
        split: sum.split_asm option.split_asm window.split_asm bind_split_asm)
  then have "stream_ok E s'"
    using stream_ok_same [OF _ i(2)] stream_ok_len [OF i(2)] by (metis State.distinct(1))
  with c show thesis by (rule that)
qed

lemma details_ok_extend:
  "header_map_laws E \<Longrightarrow> details_ok E g \<Longrightarrow> details_ok E t \<Longrightarrow> details_ok E (hm_extend E g t)"
  by (simp add: details_ok_def header_map_lawsD(4) split: option.splits)

lemma poll_frame_safe:
  assumes "stream_ok E s" and "header_map_laws E"
  obtains p s' where "poll_frame E s = Some (p, s')" "stream_ok E s'"
proof (cases "body s")
  case Nil
  then show thesis using assms(1) by (intro that [OF _ assms(1)]) (auto simp: poll_frame_def)
next
  case (Cons x b)
  have "poll_frame E s \<noteq> None"
    using assms(1) Cons by (cases x) (simp_all add: poll_frame_def stream_ok_def Let_def)
  then obtain p s' where f: "poll_frame E s = Some (p, s')" by auto
  have "stream_ok E s'"
    using f assms Cons details_ok_extend [OF assms(2)]
    by (cases x) (auto simp: poll_frame_def stream_ok_def Let_def split: if_split_asm option.split State.split)
  with f show thesis by (rule that)
qed

lemma from_header_map_total: "details_ok E t \<Longrightarrow> from_header_map E t \<noteq> None"
  by (auto simp: from_header_map_def details_ok_def Let_def bind_eq_None_conv split: option.splits prod.splits)

lemma response_safe:
  assumes "stream_ok E s"
  obtains r s' where "response E s = Some (r, s')" "stream_ok E s'"
proof -
  have "infer_grpc_status E (trailers s) sc \<noteq> None" for sc
    using assms from_header_map_total [of E]
    by (auto simp: stream_ok_def infer_grpc_status_def bind_eq_None_conv split: option.splits)
  then have "response E s \<noteq> None"
    by (cases "direction s") (simp_all add: response_def bind_eq_None_conv del: not_None_eq)
  then obtain r s' where r: "response E s = Some (r, s')" by auto
  have "stream_ok E s'"
    using r assms by (auto simp: response_def stream_ok_def
        split: Direction.split_asm bind_split_asm sum.split_asm option.split_asm State.split)
  with r show thesis by (rule that)
qed

lemma poll_next_safe:
  assumes "stream_ok E s" and "reader_ok E dec settings"
  shows "\<exists>p s'. poll_next E dec settings s = Some (p, s') \<and> stream_ok E s'"
  using assms
proof (induction "length (body s)" arbitrary: s rule: less_induct)
  case less
  have laws: "header_map_laws E" using less.prems(2) by (simp add: reader_ok_def)
  show ?case
  proof (cases "\<exists>st. state s = Error st")
    case True
    then show ?thesis
      using less.prems(1) by (auto simp: poll_next.simps [of E dec settings s] stream_ok_def)
  next
    case False
    then have ne: "\<And>st. state s \<noteq> Error st" by blast
    obtain r s1 where d: "decode_chunk E dec settings s = Some (r, s1)" and ok1: "stream_ok E s1"
      using decode_chunk_safe [OF less.prems] by blast
    obtain p s2 where f: "poll_frame E s1 = Some (p, s2)" and ok2: "stream_ok E s2"
      using poll_frame_safe [OF ok1 laws] by blast
    obtain r3 s3 where r: "response E s2 = Some (r3, s3)" and ok3: "stream_ok E s3"
      using response_safe [OF ok2] by blast
    note step = poll_next_decode [OF ne]
    show ?thesis
    proof (cases "r = Inr None")
      case False
      then consider e where "r = Inl e" | m where "r = Inr (Some m)"
        by (cases r; cases "projr r") simp_all
      then show ?thesis using d ok1 by cases (simp_all add: step(1,7))
    next
      case True
      with d have d: "decode_chunk E dec settings s = Some (Inr None, s1)" by simp
      show ?thesis
      proof (cases p)
        case Pending
        with d f ok2 show ?thesis by (simp add: step(2))
      next
        case (Ready q)
        have l: "q = Inr True \<Longrightarrow> length (body s2) < length (body s)"
          using poll_frame_unread [OF f] Ready decode_chunk_body [OF d] by simp
        consider e where "q = Inl e" | "q = Inr True" | e where "q = Inr False" "r3 = Inl e" | "q = Inr False" "r3 = Inr ()"
          by (cases q; cases r3; cases "projr q") simp_all
        then show ?thesis
        proof cases
          case 2
          from less.hyps [OF l [OF 2] ok2 less.prems(2)] show ?thesis
            using step(3) [OF d] f Ready 2 by simp
        next
          case (3 e)
          then show ?thesis using step(5) [OF d] f Ready r ok3 by (simp add: stream_ok_def)
        qed (use step(4,6) [OF d] f Ready r ok2 ok3 in simp_all)
      qed
    qed
  qed
qed

text \<open>A poll as a step of a machine; the reader satisfies its contract.\<close>

definition poll_step :: "'h ext \<Rightarrow> ('m, 'h) decoder \<Rightarrow> BufferSettings \<Rightarrow> unit \<Rightarrow> 'h StreamingInner \<Rightarrow> 'h StreamingInner option" where
  "poll_step E dec settings _ s = map_option snd (poll_next E dec settings s)"

interpretation reader: invariant_machine "poll_step E dec settings" "stream_ok E" "\<lambda>_ _. reader_ok E dec settings"
  for E dec settings
proof
  fix s s' :: "'a StreamingInner" and e
  assume "stream_ok E s" "reader_ok E dec settings"
  from poll_next_safe [OF this] show "poll_step E dec settings e s \<noteq> None"
    by (auto simp: poll_step_def)
  assume "poll_step E dec settings e s = Some s'"
  then show "stream_ok E s'"
    using poll_next_safe [OF \<open>stream_ok E s\<close> \<open>reader_ok E dec settings\<close>] by (auto simp: poll_step_def)
qed

subsection \<open>Properties\<close>

lemma frame_ok_map [simp]: "frame_ok E (map_body_poll id f x) = frame_ok E x"
  by (cases x) simp_all

text \<open>
  Property C3. A reader delivers exactly what was framed. Take any list of messages whose payloads
  are within the limits, framed one after the other, and cut the bytes into data frames in any way,
  with pending polls anywhere between them. Reading the response until it ends yields exactly those
  messages, in order, and then the status of the trailers: the end of the stream with the trailers
  kept for the caller when it is a success, that error otherwise.
\<close>

theorem streaming_reads_response:
  assumes "\<forall>(c, p, m) \<in> set fs. payload_of E dec settings enc
             (case max_size of Some l \<Rightarrow> l | None \<Rightarrow> DEFAULT_MAX_RECV_MESSAGE_SIZE) c p m"
    and "list_all is_data b" and "body_bytes b = frames_bytes fs" and "ends_as E t sc r"
  shows "\<exists>s. collect E dec settings (new_response E txt (b @ [BTrailers t]) sc enc max_size) =
              Some (map (\<lambda>(_, _, m). m) fs, r, s) \<and>
            trailers s = (case r of Inr _ \<Rightarrow> Some t | Inl _ \<Rightarrow> None)"
proof -
  let ?s = "new_response E txt (b @ [BTrailers t]) sc enc max_size"
  have "\<forall>(c, p, m) \<in> set fs. payload_of E dec settings (encoding ?s) (recv_limit ?s) c p m"
    using assms(1) by (simp add: new_response_def new_streaming_def recv_limit_def)
  then show ?thesis
    using assms(2-4)
    by (intro collect_frames [where b = "map (map_body_poll id (from_error E txt)) b" and after = "[]" and sc = sc])
      (simp_all add: new_response_def new_streaming_def wire_def)
qed

theorem streaming_reads_response_witness:
  "\<exists>s. collect list_ext bytes_decoder default_settings
         (new_response list_ext (\<lambda>_. [])
            ([BData [0, 0], BPending, BData [0, 0, 1, 7, 1, 0], BData [0, 0, 2, 31, 8]] @
             [BTrailers [(GRPC_STATUS, ''0'')]]) 200 (Some Gzip) None) =
       Some ([[7], [8]], Inr (), s) \<and> trailers s = Some [(GRPC_STATUS, ''0'')]"
  using streaming_reads_response
    [of "[(None, [7], [7]), (Some Gzip, [31, 8], [8])]" list_ext bytes_decoder default_settings "Some Gzip" None
        "[BData [0, 0], BPending, BData [0, 0, 1, 7, 1, 0], BData [0, 0, 2, 31, 8]]"
        "[(GRPC_STATUS, ''0'')]" 200 "Inr ()" "\<lambda>_. []"]
  by (simp add: payload_of_def frames_bytes_def message_frame_def put_u32_def ends_as_def infer_grpc_status_def
      from_header_map_def bytes_decoder_def default_settings_def DEFAULT_CODEC_BUFFER_SIZE_def
      codec_limits magic_def list_ext_def [THEN arg_cong, of hm_get] list_ext_def [THEN arg_cong, of decompressor]
      Let_def)



text \<open>
  An error of the body is delivered twice: the poll that meets it and the next one both
  return it, and only the third ends the stream.
\<close>

theorem body_error_delivered_twice:
  assumes "state s = ReadHeader" "buf s = []" "body s = BError status # b"
    and "\<not> (direction s = Request \<and> code status = Cancelled)"
  shows "\<exists>s1 s2 s3. poll_next E dec settings s = Some (Ready (Some (Inl status)), s1) \<and>
           poll_next E dec settings s1 = Some (Ready (Some (Inl status)), s2) \<and>
           poll_next E dec settings s2 = Some (Ready None, s3)"
proof -
  have f: "poll_frame E s = Some (Ready (Inl status), s\<lparr>body := b, state := Error (Some status)\<rparr>)"
    using assms(3,4) by (simp add: poll_frame_def Let_def)
  have "poll_next E dec settings s = Some (Ready (Some (Inl status)), s\<lparr>body := b, state := Error (Some status)\<rparr>)"
    by (rule poll_next_decode(6) [OF _ decode_chunk_empty [OF assms(1,2)] f]) (simp add: assms(1))
  then show ?thesis
    by (simp add: poll_next.simps [of E dec settings "t\<lparr>state := Error st\<rparr>" for t st])
qed

theorem body_error_delivered_twice_witness:
  "\<exists>s1 s2 s3.
     poll_next list_ext bytes_decoder default_settings
       (new_streaming list_ext (\<lambda>_. []) [BError (StatusError (internal list_ext ''reset''))] Request None None) =
       Some (Ready (Some (Inl (internal list_ext ''reset''))), s1) \<and>
     poll_next list_ext bytes_decoder default_settings s1 = Some (Ready (Some (Inl (internal list_ext ''reset''))), s2) \<and>
     poll_next list_ext bytes_decoder default_settings s2 = Some (Ready None, s3)"
  using body_error_delivered_twice
    [of "new_streaming list_ext (\<lambda>_. []) [BError (StatusError (internal list_ext ''reset''))] Request None None"
        "internal list_ext ''reset''" "[]" list_ext bytes_decoder default_settings]
  by (simp add: new_streaming_def from_error_def try_from_error_def constructor_defs new_status_def)

text \<open>
  A protocol error does not end a stream: after a byte that is no valid compression
  flag is reported, the next poll reads on from the byte after it, and delivers as a message
  whatever the following bytes happen to frame.
\<close>

theorem reads_on_after_invalid_flag:
  assumes "state s = ReadHeader" "buf s = f # message_frame False p @ rest" "f \<noteq> 0" "f \<noteq> 1"
    and "length p \<le> recv_limit s" "length p < 2 ^ 32" "dec p = (Inr (Some m), length p)"
  shows "\<exists>s1 s2. poll_next E dec settings s =
              Some (Ready (Some (Inl (internal E (invalid_flag_text E (direction s) f)))), s1) \<and>
            poll_next E dec settings s1 = Some (Ready (Some (Inr m)), s2)"
proof -
  let ?s1 = "s\<lparr>buf := message_frame False p @ rest\<rparr>"
  have ne: "\<And>st. state s \<noteq> Error st" "\<And>st. state ?s1 \<noteq> Error st" using assms(1) by simp_all
  have e: "decode_chunk E dec settings s = Some (Inl (internal E (invalid_flag_text E (direction s) f)), ?s1)"
    using assms(1-4)
    by (simp add: decode_chunk_def inner_decode_chunk_def decode_header_def message_frame_def put_u32_def)
  have "get_u32 (of_nat (length p div 2 ^ 24)) (of_nat (length p div 2 ^ 16)) (of_nat (length p div 2 ^ 8))
      (of_nat (length p)) = length p"
    using assms(6) by (rule get_u32_put_u32)
  then have "decode_header E ?s1 = (Inr True, s\<lparr>buf := p @ rest, state := ReadBody None (length p)\<rparr>)"
    using assms(5) by (simp add: decode_header_def message_frame_def put_u32_def)
  then have m: "decode_chunk E dec settings ?s1 = Some (Inr (Some m), s\<lparr>buf := rest, state := ReadHeader\<rparr>)"
    using assms(1,7) run_decoder_exact [of dec p "Inr (Some m)" "length p" "p @ rest"]
    by (simp add: decode_chunk_def inner_decode_chunk_def decode_body_def)
  show ?thesis
    by (simp add: poll_next_decode(7) [OF ne(1) e] poll_next_decode(1) [OF ne(2) m])
qed

theorem reads_on_after_invalid_flag_witness:
  "\<exists>s1 s2. poll_next list_ext bytes_decoder default_settings
       ((new_streaming list_ext (\<lambda>_. []) [] Request None None)\<lparr>buf := 9 # message_frame False [5] @ [0]\<rparr>) =
       Some (Ready (Some (Inl (internal list_ext (invalid_flag_text list_ext Request 9)))), s1) \<and>
     poll_next list_ext bytes_decoder default_settings s1 = Some (Ready (Some (Inr [5])), s2)"
  using reads_on_after_invalid_flag
    [of "(new_streaming list_ext (\<lambda>_. []) [] Request None None)\<lparr>buf := 9 # message_frame False [5] @ [0]\<rparr>"
        9 "[5]" "[0]" bytes_decoder "[5]" list_ext default_settings]
  by (simp add: new_streaming_def bytes_decoder_def recv_limit_def codec_limits)

text \<open>
  The end of a successful response is not stable: once the caller has taken the
  trailers, asking for another message (or for the trailers again) reports the missing
  \<open>grpc-status\<close> of a truncated stream.
\<close>

theorem message_after_trailers_fails:
  assumes "state s = ReadHeader" "buf s = []" "body s = []" "direction s = Response 200" "trailers s = Some t"
  shows "\<exists>s1 s2 s3. streaming_trailers E dec settings s = Some (Inr (Some t), s1) \<and>
           streaming_message E dec settings s1 = Some (Inl (unknown E MISSING_STATUS_MESSAGE), s2) \<and>
           streaming_trailers E dec settings s1 = Some (Inl (unknown E MISSING_STATUS_MESSAGE), s3)"
proof -
  let ?s1 = "s\<lparr>trailers := None\<rparr>"
  have ne: "\<And>st. state ?s1 \<noteq> Error st" using assms(1) by simp
  have d: "decode_chunk E dec settings ?s1 = Some (Inr None, ?s1)"
    using assms by (simp add: decode_chunk_empty)
  have f: "poll_frame E ?s1 = Some (Ready (Inr False), ?s1)" using assms by (simp add: poll_frame_def)
  have r: "response E ?s1 = Some (Inl (unknown E MISSING_STATUS_MESSAGE), ?s1)"
    using assms by (simp add: response_def infer_grpc_status_def)
  have "streaming_message E dec settings ?s1 = Some (Inl (unknown E MISSING_STATUS_MESSAGE), ?s1\<lparr>state := Error None\<rparr>)"
    using poll_next_decode(5) [OF ne d f r] by (simp add: streaming_message.simps [of E dec settings ?s1])
  then show ?thesis
    using assms(5) by (simp add: streaming_trailers_def drain.simps [of E dec settings ?s1])
qed

theorem message_after_trailers_fails_witness:
  "\<exists>s1 s2 s3.
     streaming_trailers list_ext bytes_decoder default_settings
       ((new_response list_ext (\<lambda>_. []) [] 200 None None)\<lparr>trailers := Some [(GRPC_STATUS, ''0'')]\<rparr>) =
       Some (Inr (Some [(GRPC_STATUS, ''0'')]), s1) \<and>
     streaming_message list_ext bytes_decoder default_settings s1 =
       Some (Inl (unknown list_ext MISSING_STATUS_MESSAGE), s2) \<and>
     streaming_trailers list_ext bytes_decoder default_settings s1 =
       Some (Inl (unknown list_ext MISSING_STATUS_MESSAGE), s3)"
  using message_after_trailers_fails
    [of "(new_response list_ext (\<lambda>_. []) [] 200 None None)\<lparr>trailers := Some [(GRPC_STATUS, ''0'')]\<rparr>"
        "[(GRPC_STATUS, ''0'')]" list_ext bytes_decoder default_settings]
  by (simp add: new_response_def new_streaming_def)

end
