(* ===== verification/Grpc_Response.thy ===== *)
theory Grpc_Response
  imports Codec_Encode Codec_Decode
begin

text \<open>
  From a server's messages to a client's: the encoder of \<open>tonic/src/codec/encode.rs\<close> and the decoder of
  \<open>tonic/src/codec/decode.rs\<close>, with a transport between them that cuts the bytes as it likes.
\<close>

text \<open>What the client may read of what the server may send: within the limits of both, compressed or not.\<close>

definition deliverable ::
    "'h ext \<Rightarrow> 'm encoder \<Rightarrow> CompressionEncoding option \<Rightarrow> nat option \<Rightarrow> BufferSettings \<Rightarrow> nat option \<Rightarrow> 'm \<Rightarrow> bool" where
  "deliverable E enc c send_max settings recv_max m \<longleftrightarrow>
     sendable E enc c send_max settings m \<and>
     (let limit = (case recv_max of Some l \<Rightarrow> l | None \<Rightarrow> DEFAULT_MAX_RECV_MESSAGE_SIZE)
      in length (wire_payload E enc c m) \<le> limit \<and> length (fst (enc m)) \<le> limit)"

lemma deliverable_payload:
  assumes "codec_laws enc dec" "compression_laws E" "deliverable E enc c send_max settings recv_max m"
  shows "payload_of E dec settings c (case recv_max of Some l \<Rightarrow> l | None \<Rightarrow> DEFAULT_MAX_RECV_MESSAGE_SIZE)
     c (wire_payload E enc c m) m"
  using assms
  by (cases c)
    (auto simp: payload_of_def deliverable_def sendable_def encodable_def wire_payload_def codec_laws_def
      compression_laws_def u32_max_def Let_def)

lemma wire_frames_bytes:
  "wire_frames E enc c src = frames_bytes (map (\<lambda>m. (c, wire_payload E enc c m, m)) (items src))"
  by (simp add: wire_frames_def frames_bytes_def wire_frame_def [abs_def] comp_def)

text \<open>The trailers of the final status end the response as that status.\<close>

lemma final_status_ends:
  assumes laws: "header_map_laws E" "percent_laws E ENCODING_SET" "base64_laws E"
    and err: "case err of None \<Rightarrow> True | Some st \<Rightarrow> code st \<noteq> Ok \<and>
        (details st \<noteq> [] \<or> hm_get E (metadata st) GRPC_STATUS_DETAILS = None)"
  obtains t r where "to_header_map E (case err of None \<Rightarrow> status_ok E [] | Some st \<Rightarrow> st) = Inr t" "ends_as E t sc r"
    "case err of None \<Rightarrow> r = Inr () | Some st \<Rightarrow> \<exists>e. r = Inl e \<and> code e = code st \<and> message e = message st \<and> details e = details st"
proof -
  let ?st = "case err of None \<Rightarrow> status_ok E [] | Some st \<Rightarrow> st"
  have "details ?st \<noteq> [] \<or> hm_get E (metadata ?st) GRPC_STATUS_DETAILS = None"
    using err header_map_lawsD(1) [OF laws(1)] by (auto simp: constructor_defs new_status_def split: option.split)
  then obtain t s where t: "to_header_map E ?st = Inr t" "from_header_map E t = Some (Some s)" "code s = code ?st"
    "message s = message ?st" "details s = details ?st"
    by (rule to_from_header_map [OF laws])
  show thesis
    by (rule that [OF t(1), of "case err of None \<Rightarrow> Inr () | Some st \<Rightarrow> Inl s"])
      (use t err in \<open>auto simp: ends_as_def infer_grpc_status_def constructor_defs new_status_def split: option.splits\<close>)
qed

text \<open>
  Property C1. A server's messages and status reach the client. Take a stream of messages both sides'
  limits allow, that ends normally or with an error status. The server's body, polled to its end,
  gives data frames and one trailers frame; however the transport cuts the bytes of those data frames
  into data frames of its own, with pending polls anywhere, the client reads exactly the messages, in
  order, and then the end of the stream or an error with the code, message and details of the server's.
\<close>

theorem server_response_reaches_client:
  assumes laws: "header_map_laws E" "percent_laws E ENCODING_SET" "base64_laws E" "compression_laws E" "codec_laws enc dec"
    and src: "list_all is_item src" "\<forall>m \<in> set (items src). deliverable E enc c send_max settings recv_max m"
    and err: "case err of None \<Rightarrow> True | Some st \<Rightarrow> code st \<noteq> Ok \<and>
        (details st \<noteq> [] \<or> hm_get E (metadata st) GRPC_STATUS_DETAILS = None)"
    and n: "length src + 3 \<le> n"
  shows "\<exists>ds t. encode_run E enc settings n (new_server (src @ source_end err) c Inherit send_max) =
             Some (map (Inr \<circ> DataFrame) ds @ [Inr (TrailersFrame t)], True) \<and>
           (\<forall>b. list_all is_data b \<longrightarrow> body_bytes b = concat ds \<longrightarrow>
             (\<exists>r s. collect E dec settings (new_response E txt (b @ [BTrailers t]) 200 c recv_max) = Some (items src, r, s) \<and>
               (case err of
                  None \<Rightarrow> r = Inr () \<and> trailers s = Some t
                | Some st \<Rightarrow> \<exists>e. r = Inl e \<and> code e = code st \<and> message e = message st \<and> details e = details st)))"
proof -
  obtain t r where t: "to_header_map E (case err of None \<Rightarrow> status_ok E [] | Some st \<Rightarrow> st) = Inr t" "ends_as E t 200 r"
    "case err of None \<Rightarrow> r = Inr () | Some st \<Rightarrow> \<exists>e. r = Inl e \<and> code e = code st \<and> message e = message st \<and> details e = details st"
    using final_status_ends [OF laws(1-3) err] by blast
  let ?fs = "map (\<lambda>m. (c, wire_payload E enc c m, m)) (items src)"
  have "\<forall>m \<in> set (items src). sendable E enc c send_max settings m" using src(2) by (simp add: deliverable_def)
  then obtain ds where ds: "encode_run E enc settings n (new_server (src @ source_end err) c Inherit send_max) =
      Some (map (Inr \<circ> DataFrame) ds @ [Inr (TrailersFrame t)], True)" "concat ds = frames_bytes ?fs"
    using encode_run_items [of "new_server (src @ source_end err) c Inherit send_max" src err c send_max E enc settings n]
      src(1) n t(1)
    by (auto simp: new_server_def new_encoded_bytes_def body_end_def wire_frames_bytes)
  have "\<exists>s. collect E dec settings (new_response E txt (b @ [BTrailers t]) 200 c recv_max) = Some (items src, r, s) \<and>
      trailers s = (case r of Inr _ \<Rightarrow> Some t | Inl _ \<Rightarrow> None)"
    if b: "list_all is_data b" "body_bytes b = concat ds" for b
  proof -
    let ?s = "new_response E txt (b @ [BTrailers t]) 200 c recv_max"
    have "\<forall>(c', p, m) \<in> set ?fs. payload_of E dec settings (encoding ?s) (recv_limit ?s) c' p m"
      using src(2) deliverable_payload [OF laws(5,4)]
      by (auto simp: new_response_def new_streaming_def recv_limit_def)
    from collect_frames [OF this, of "map (map_body_poll id (from_error E txt)) b" t "[]" 200 r] show ?thesis
      using b ds(2) t(2) by (simp add: new_response_def new_streaming_def wire_def comp_def)
  qed
  note read = this
  show ?thesis
  proof (intro exI [of _ ds] exI [of _ t] conjI allI impI)
    show "encode_run E enc settings n (new_server (src @ source_end err) c Inherit send_max) =
        Some (map (Inr \<circ> DataFrame) ds @ [Inr (TrailersFrame t)], True)" by (rule ds(1))
  next
    fix b :: "('a, 'a dyn_error) body_poll list"
    assume "list_all is_data b" "body_bytes b = concat ds"
    from read [OF this] t(3) show "\<exists>r s. collect E dec settings (new_response E txt (b @ [BTrailers t]) 200 c recv_max) =
        Some (items src, r, s) \<and>
        (case err of
           None \<Rightarrow> r = Inr () \<and> trailers s = Some t
         | Some st \<Rightarrow> \<exists>e. r = Inl e \<and> code e = code st \<and> message e = message st \<and> details e = details st)"
      by (cases err) auto
  qed
qed

theorem server_response_reaches_client_witness:
  "\<exists>ds t. encode_run list_ext bytes_encoder default_settings 6
       (new_server ([SItem [1], SPending, SItem [2]] @ source_end (Some (internal list_ext ''no''))) (Some Gzip) Inherit None) =
       Some (map (Inr \<circ> DataFrame) ds @ [Inr (TrailersFrame t)], True) \<and>
     (\<forall>b. list_all is_data b \<longrightarrow> body_bytes b = concat ds \<longrightarrow>
       (\<exists>r s. collect list_ext bytes_decoder default_settings
            (new_response list_ext (\<lambda>_. []) (b @ [BTrailers t]) 200 (Some Gzip) (Some 9)) = Some ([[1], [2]], r, s) \<and>
          (\<exists>e. r = Inl e \<and> code e = Internal \<and> message e = ''no'')))"
  using server_response_reaches_client [of list_ext bytes_encoder bytes_decoder "[SItem [1], SPending, SItem [2]]" "Some Gzip" None
      default_settings "Some 9" "Some (internal list_ext ''no'')" 6 "\<lambda>_. []"]
  by (fastforce simp: deliverable_def sendable_def encodable_def send_limit_def wire_payload_def bytes_encoder_def codec_limits
      default_settings_def DEFAULT_CODEC_BUFFER_SIZE_def list_ext_def [THEN arg_cong, of compressor]
      list_ext_def [THEN arg_cong, of hm_get] list_ext_def [THEN arg_cong, of hm_new] constructor_defs new_status_def)

end
