(* ===== verification/Grpc_Timeout.thy ===== *)
theory Grpc_Timeout
  imports Status
begin

text \<open>
  The \<open>grpc-timeout\<close> header: its writer in \<open>tonic/src/request.rs\<close> (\<open>duration_to_grpc_timeout\<close>), its
  parser and the timeout service in \<open>tonic/src/transport/service/grpc_timeout.rs\<close>. A \<open>Duration\<close> is
  its number of nanoseconds.
\<close>

type_synonym duration = nat

definition GRPC_TIMEOUT_HEADER :: string where "GRPC_TIMEOUT_HEADER = ''grpc-timeout''"
definition SECONDS_IN_HOUR :: nat where "SECONDS_IN_HOUR = 60 * 60"
definition SECONDS_IN_MINUTE :: nat where "SECONDS_IN_MINUTE = 60"

definition from_nanos :: "nat \<Rightarrow> duration" where "from_nanos n = n"
definition from_micros :: "nat \<Rightarrow> duration" where "from_micros n = n * 1000"
definition from_millis :: "nat \<Rightarrow> duration" where "from_millis n = n * 1000000"
definition from_secs :: "nat \<Rightarrow> duration" where "from_secs n = n * 1000000000"

lemmas duration_defs = from_nanos_def from_micros_def from_millis_def from_secs_def
  SECONDS_IN_HOUR_def SECONDS_IN_MINUTE_def

text \<open>The duration a unit letter gives to a value.\<close>

definition duration_of_unit :: "string \<Rightarrow> nat \<Rightarrow> duration option" where
  "duration_of_unit u v =
     (if u = ''H'' then Some (from_secs (v * SECONDS_IN_HOUR))
      else if u = ''M'' then Some (from_secs (v * SECONDS_IN_MINUTE))
      else if u = ''S'' then Some (from_secs v)
      else if u = ''m'' then Some (from_millis v)
      else if u = ''u'' then Some (from_micros v)
      else if u = ''n'' then Some (from_nanos v)
      else None)"

definition try_parse_grpc_timeout :: "'h ext \<Rightarrow> 'h \<Rightarrow> string + duration option" where
  "try_parse_grpc_timeout E headers =
     (case hm_get E headers GRPC_TIMEOUT_HEADER of
        None \<Rightarrow> Inr None
      | Some val \<Rightarrow>
          (case hv_to_str E val of
             None \<Rightarrow> Inl val
           | Some s \<Rightarrow>
               if s = [] then Inl val
               else
                 (let timeout_value = take (length val - 1) s;
                      timeout_unit = drop (length val - 1) s
                  in if 8 < length timeout_value then Inl val
                     else (case parse_u64 timeout_value of
                             None \<Rightarrow> Inl val
                           | Some v \<Rightarrow>
                               (case duration_of_unit timeout_unit v of
                                  None \<Rightarrow> Inl val
                                | Some d \<Rightarrow> Inr (Some d))))))"

text \<open>The duration \<open>GrpcTimeout::call\<close> arms its sleep with; a header that does not parse is ignored.\<close>

definition timeout_duration :: "'h ext \<Rightarrow> 'h \<Rightarrow> duration option \<Rightarrow> duration option" where
  "timeout_duration E headers server_timeout =
     (case ((case try_parse_grpc_timeout E headers of Inr d \<Rightarrow> d | Inl _ \<Rightarrow> None), server_timeout) of
        (None, None) \<Rightarrow> None
      | (Some d, None) \<Rightarrow> Some d
      | (None, Some d) \<Rightarrow> Some d
      | (Some header, Some server) \<Rightarrow> Some (min header server))"

text \<open>
  \<open>ResponseFuture::poll\<close>, from the polls of the inner future and of the sleep: the answer of the
  inner service wins over an expired sleep.
\<close>

definition poll_response :: "('h dyn_error + 'r) Poll \<Rightarrow> bool option \<Rightarrow> ('h dyn_error + 'r) Poll" where
  "poll_response inner sleep =
     (case inner of
        Ready r \<Rightarrow> Ready r
      | Pending \<Rightarrow> (if sleep = Some True then Ready (Inl TimeoutExpired) else Pending))"

text \<open>\<open>duration_to_grpc_timeout\<close> takes the most precise unit with at most eight digits; \<open>None\<close> is its panic.\<close>

definition try_format :: "nat \<Rightarrow> char \<Rightarrow> string option" where
  "try_format v unit = (if 99999999 < v then None else Some (show_nat v @ [unit]))"

definition or_else :: "'a option \<Rightarrow> 'a option \<Rightarrow> 'a option" where
  "or_else a b = (case a of Some x \<Rightarrow> Some x | None \<Rightarrow> b)"

definition duration_to_grpc_timeout :: "duration \<Rightarrow> string option" where
  "duration_to_grpc_timeout d =
     or_else (try_format d (CHR ''n''))
       (or_else (try_format (d div 1000) (CHR ''u''))
         (or_else (try_format (d div 1000000) (CHR ''m''))
           (or_else (try_format (d div 1000000000) (CHR ''S''))
             (or_else (try_format (d div 1000000000 div 60) (CHR ''M''))
               (try_format (d div 1000000000 div 60 div 60) (CHR ''H''))))))"

subsection \<open>Lemmas\<close>

text \<open>The units, from the finest to the coarsest, with their nanoseconds.\<close>

definition units :: "(char \<times> nat) list" where
  "units = [(CHR ''n'', 1), (CHR ''u'', 1000), (CHR ''m'', 1000000), (CHR ''S'', 1000000000),
            (CHR ''M'', 60 * 1000000000), (CHR ''H'', 3600 * 1000000000)]"

lemma duration_of_units: "(u, k) \<in> set units \<Longrightarrow> duration_of_unit [u] v = Some (v * k)"
  by (auto simp: units_def duration_of_unit_def duration_defs)

text \<open>Truncating to a unit loses little when the value is many units.\<close>

definition unit_choice :: "duration \<Rightarrow> string \<Rightarrow> char \<Rightarrow> nat \<Rightarrow> bool" where
  "unit_choice d s u k \<longleftrightarrow>
     (u, k) \<in> set units \<and> s = show_nat (d div k) @ [u] \<and> d div k < 100000000 \<and> (d mod k) * 100000 \<le> d"

lemma unit_choiceI:
  assumes "(u, k) \<in> set units" "s = show_nat (d div k) @ [u]" "d div k \<le> 99999999" "k = 1 \<or> k * 100000 \<le> d"
  shows "unit_choice d s u k"
proof -
  have "0 < k" using assms(1) by (auto simp: units_def)
  then have "d mod k < k" by simp
  then have "(d mod k) * 100000 \<le> d" using assms(4) by auto
  with assms(1-3) show ?thesis by (simp add: unit_choice_def)
qed

lemma above_unit: "0 < k \<Longrightarrow> 99999999 < d div k \<longleftrightarrow> 100000000 * k \<le> (d :: nat)"
  using less_eq_div_iff_mult_less_eq [of k 100000000 d] by auto

lemma duration_to_grpc_timeout_unit:
  assumes "duration_to_grpc_timeout d = Some s"
  shows "\<exists>u k. unit_choice d s u k"
proof -
  consider "s = show_nat (d div 1) @ ''n''" "d \<le> 99999999"
    | "s = show_nat (d div 1000) @ ''u''" "100000000 \<le> d" "d div 1000 \<le> 99999999"
    | "s = show_nat (d div 1000000) @ ''m''" "99999999 < d div 1000" "d div 1000000 \<le> 99999999"
    | "s = show_nat (d div 1000000000) @ ''S''" "99999999 < d div 1000000" "d div 1000000000 \<le> 99999999"
    | "s = show_nat (d div 60000000000) @ ''M''" "99999999 < d div 1000000000" "d div 60000000000 \<le> 99999999"
    | "s = show_nat (d div 3600000000000) @ ''H''" "99999999 < d div 60000000000" "d div 3600000000000 \<le> 99999999"
    using assms
    by (simp add: duration_to_grpc_timeout_def or_else_def try_format_def div_mult2_eq [symmetric] split: if_split_asm)
  then show ?thesis
  proof cases
    case 1
    then have "unit_choice d s (CHR ''n'') 1" by (intro unit_choiceI) (simp_all add: units_def)
    then show ?thesis by blast
  next
    case 2
    then have "unit_choice d s (CHR ''u'') 1000" by (intro unit_choiceI) (simp_all add: units_def)
    then show ?thesis by blast
  next
    case 3
    then have "unit_choice d s (CHR ''m'') 1000000" by (intro unit_choiceI) (simp_all add: units_def above_unit)
    then show ?thesis by blast
  next
    case 4
    then have "unit_choice d s (CHR ''S'') 1000000000" by (intro unit_choiceI) (simp_all add: units_def above_unit)
    then show ?thesis by blast
  next
    case 5
    then have "unit_choice d s (CHR ''M'') 60000000000" by (intro unit_choiceI) (simp_all add: units_def above_unit)
    then show ?thesis by blast
  next
    case 6
    then have "unit_choice d s (CHR ''H'') 3600000000000" by (intro unit_choiceI) (simp_all add: units_def above_unit)
    then show ?thesis by blast
  qed
qed

lemma visible_show_nat: "visible_ascii (show_nat n)"
proof (induction n rule: show_nat.induct)
  case (1 n)
  have "32 \<le> (of_char (digit_char d) :: nat) \<and> (of_char (digit_char d) :: nat) < 127" if "d < 10" for d
    using that by (simp add: digit_char_def)
  with 1 show ?case by (auto simp: show_nat.simps [of n] visible_ascii_def)
qed

lemma try_parse_units:
  assumes "hm_get E h GRPC_TIMEOUT_HEADER = Some (show_nat v @ [u])" "header_value_laws E"
    and "(u, k) \<in> set units" "v < 100000000"
  shows "try_parse_grpc_timeout E h = Inr (Some (v * k))"
proof -
  have "visible_ascii (show_nat v @ [u])"
    using visible_show_nat [of v] assms(3) by (auto simp: units_def visible_ascii_def)
  then have "hv_to_str E (show_nat v @ [u]) = Some (show_nat v @ [u])"
    using assms(2) by (simp add: header_value_laws_def)
  moreover have "length (show_nat v) \<le> 8"
    using length_show_nat_le [of v 8] assms(4) by simp
  moreover have "parse_u64 (show_nat v) = Some v"
    using assms(4) by (intro parse_u64_show_nat) simp
  ultimately show ?thesis
    using assms(1) duration_of_units [OF assms(3)] by (simp add: try_parse_grpc_timeout_def)
qed

subsection \<open>Properties\<close>

text \<open>
  Property C36. A timeout survives the wire almost exactly: the header a duration is written to parses
  to a duration that is never longer and is shorter by at most one hundred-thousandth of it; below a
  tenth of a second it is exact.
\<close>

theorem grpc_timeout_round_trip:
  assumes "header_map_laws E" and "header_value_laws E" and "duration_to_grpc_timeout d = Some s"
  shows "\<exists>d'. try_parse_grpc_timeout E (hm_insert E h GRPC_TIMEOUT_HEADER s) = Inr (Some d') \<and>
            d' \<le> d \<and> (d - d') * 100000 \<le> d \<and> (d < 100000000 \<longrightarrow> d' = d)"
proof -
  obtain u k where c: "(u, k) \<in> set units" "s = show_nat (d div k) @ [u]" "d div k < 100000000" "(d mod k) * 100000 \<le> d"
    using duration_to_grpc_timeout_unit [OF assms(3)] by (auto simp: unit_choice_def)
  have "try_parse_grpc_timeout E (hm_insert E h GRPC_TIMEOUT_HEADER s) = Inr (Some (d div k * k))"
    using c(1-3) by (intro try_parse_units) (simp_all add: header_map_lawsD(2) [OF assms(1)] assms(2))
  moreover have "d - d div k * k = d mod k" by (simp add: minus_div_mult_eq_mod)
  moreover have "d div k * k = d" if "d < 100000000"
  proof -
    have "s = show_nat d @ ''n''"
      using assms(3) that by (simp add: duration_to_grpc_timeout_def try_format_def or_else_def)
    then have "u = CHR ''n''" using c(2) by simp
    then show ?thesis using c(1) by (auto simp: units_def)
  qed
  ultimately show ?thesis using c(4) by simp
qed

theorem grpc_timeout_round_trip_witness:
  "\<exists>d'. try_parse_grpc_timeout list_ext (hm_insert list_ext [] GRPC_TIMEOUT_HEADER ''150000u'') = Inr (Some d') \<and>
      d' \<le> 150000123 \<and> (150000123 - d') * 100000 \<le> 150000123"
  using grpc_timeout_round_trip [of list_ext 150000123 "''150000u''" "[]"]
  by (simp add: duration_to_grpc_timeout_def try_format_def or_else_def show_nat.simps digit_char_def char_of_def bit_0)

text \<open>
  Writing a timeout panics exactly for durations of a hundred million hours or more.
\<close>

theorem duration_to_grpc_timeout_panics_iff:
  "duration_to_grpc_timeout d = None \<longleftrightarrow> from_secs (100000000 * SECONDS_IN_HOUR) \<le> d"
  by (auto simp: duration_to_grpc_timeout_def try_format_def or_else_def duration_defs div_mult2_eq [symmetric]
      above_unit split: if_split_asm)

text \<open>
  The timeout a request runs under is the shorter of the client's and the server's: it is
  never longer than either, it is one of the two, and it is unset only when neither is set. A header
  that does not parse counts as unset.
\<close>

theorem timeout_is_shortest:
  "case timeout_duration E headers server of
     None \<Rightarrow> server = None \<and> (\<forall>d. try_parse_grpc_timeout E headers \<noteq> Inr (Some d))
   | Some t \<Rightarrow>
       (server = Some t \<or> try_parse_grpc_timeout E headers = Inr (Some t)) \<and>
       t \<le> (case server of Some d \<Rightarrow> d | None \<Rightarrow> t) \<and>
       t \<le> (case try_parse_grpc_timeout E headers of Inr (Some d) \<Rightarrow> d | _ \<Rightarrow> t)"
  by (auto simp: timeout_duration_def min_def split: option.split sum.split)

text \<open>
  The parser takes more than the specification's digits: a value with a leading plus sign
  is accepted and read as the number after it.
\<close>

theorem plus_sign_accepted:
  assumes "hm_get E h GRPC_TIMEOUT_HEADER = Some (CHR ''+'' # show_nat v @ [u])" "header_value_laws E"
    and "(u, k) \<in> set units" "v < 10000000"
  shows "try_parse_grpc_timeout E h = Inr (Some (v * k))"
proof -
  have "visible_ascii (CHR ''+'' # show_nat v @ [u])"
    using visible_show_nat [of v] assms(3) by (auto simp: units_def visible_ascii_def)
  then have "hv_to_str E (CHR ''+'' # show_nat v @ [u]) = Some (CHR ''+'' # show_nat v @ [u])"
    using assms(2) by (simp add: header_value_laws_def)
  moreover have "length (show_nat v) \<le> 7"
    using length_show_nat_le [of v 7] assms(4) by simp
  moreover have "parse_u64 (CHR ''+'' # show_nat v) = Some v"
    using assms(4) parse_digits_show_nat [of v] by (simp add: parse_u64_def)
  ultimately show ?thesis
    using assms(1) duration_of_units [OF assms(3)] by (simp add: try_parse_grpc_timeout_def)
qed

theorem plus_sign_accepted_witness:
  "try_parse_grpc_timeout list_ext [(GRPC_TIMEOUT_HEADER, ''+5S'')] = Inr (Some (from_secs 5))"
  using plus_sign_accepted [of list_ext "[(GRPC_TIMEOUT_HEADER, ''+5S'')]" 5 "CHR ''S''" 1000000000]
  by (simp add: list_ext_def [THEN arg_cong, of hm_get] units_def show_nat.simps digit_char_def char_of_def bit_0 duration_defs)

end
