(* ===== verification/Metadata_Encoding.thy ===== *)
theory Metadata_Encoding
  imports Extern
begin

text \<open>
  \<open>tonic/src/metadata/encoding.rs\<close>: the two encodings of a metadata value. An ASCII value is its
  header value, a binary one (its key ends in \<open>-bin\<close>) is the base64 text of its bytes. A header value
  is a string, one character per byte; the unit error is \<open>InvalidMetadataValueBytes\<close>.
\<close>

definition header_value_of :: "'h ext \<Rightarrow> string \<Rightarrow> unit + string" where
  "header_value_of E s = (if hv_valid E s then Inr s else Inl ())"

subsection \<open>\<open>Ascii\<close>\<close>

definition ascii_is_empty :: "byte list \<Rightarrow> bool" where
  "ascii_is_empty v \<longleftrightarrow> v = []"

definition ascii_from_bytes :: "'h ext \<Rightarrow> byte list \<Rightarrow> unit + string" where
  "ascii_from_bytes E v = header_value_of E (string_of v)"

definition ascii_from_shared :: "'h ext \<Rightarrow> byte list \<Rightarrow> unit + string" where
  "ascii_from_shared E v = header_value_of E (string_of v)"

definition ascii_decode :: "string \<Rightarrow> unit + byte list" where
  "ascii_decode v = Inr (bytes_of v)"

definition ascii_equals :: "string \<Rightarrow> byte list \<Rightarrow> bool" where
  "ascii_equals a b \<longleftrightarrow> bytes_of a = b"

definition ascii_values_equal :: "string \<Rightarrow> string \<Rightarrow> bool" where
  "ascii_values_equal a b \<longleftrightarrow> a = b"

subsection \<open>\<open>Binary\<close>\<close>

definition ends_with :: "string \<Rightarrow> string \<Rightarrow> bool" where
  "ends_with s t \<longleftrightarrow> length t \<le> length s \<and> drop (length s - length t) s = t"

definition binary_is_valid_key :: "string \<Rightarrow> bool" where
  "binary_is_valid_key key = ends_with key ''-bin''"

definition ascii_is_valid_key :: "string \<Rightarrow> bool" where
  "ascii_is_valid_key key \<longleftrightarrow> \<not> binary_is_valid_key key"

definition binary_is_empty :: "byte list \<Rightarrow> bool" where
  "binary_is_empty v = list_all (\<lambda>c. c = of_char (CHR ''='')) v"

definition binary_from_bytes :: "'h ext \<Rightarrow> byte list \<Rightarrow> unit + string" where
  "binary_from_bytes E v = header_value_of E (b64_encode_no_pad E v)"

definition binary_from_shared :: "'h ext \<Rightarrow> byte list \<Rightarrow> unit + string" where
  "binary_from_shared E v = binary_from_bytes E v"

text \<open>\<open>from_static\<close> panics on a text that is not base64.\<close>

definition binary_from_static :: "'h ext \<Rightarrow> string \<Rightarrow> string option" where
  "binary_from_static E v = (if b64_decode E v = None then None else Some v)"

definition binary_decode :: "'h ext \<Rightarrow> string \<Rightarrow> unit + byte list" where
  "binary_decode E v = (case b64_decode E v of Some b \<Rightarrow> Inr b | None \<Rightarrow> Inl ())"

definition binary_equals :: "'h ext \<Rightarrow> string \<Rightarrow> byte list \<Rightarrow> bool" where
  "binary_equals E a b =
     (case b64_decode E a of Some decoded \<Rightarrow> decoded = b | None \<Rightarrow> bytes_of a = b)"

definition binary_values_equal :: "'h ext \<Rightarrow> string \<Rightarrow> string \<Rightarrow> bool" where
  "binary_values_equal E a b =
     (case (binary_decode E a, binary_decode E b) of
        (Inr x, Inr y) \<Rightarrow> x = y
      | (Inl _, Inl _) \<Rightarrow> True
      | _ \<Rightarrow> False)"

subsection \<open>The contract of a value encoding\<close>

locale value_encoding =
  fixes from_bytes :: "byte list \<Rightarrow> unit + string" and decode :: "string \<Rightarrow> unit + byte list"
    and equals :: "string \<Rightarrow> byte list \<Rightarrow> bool" and values_equal :: "string \<Rightarrow> string \<Rightarrow> bool"
  assumes decode_from: "from_bytes b = Inr v \<Longrightarrow> decode v = Inr b"
    and equals_decode: "decode v = Inr b \<Longrightarrow> equals v b' \<longleftrightarrow> b' = b"
    and values_equal_decode: "values_equal v w \<longleftrightarrow> decode v = decode w"
begin

lemma equals_from: "from_bytes b = Inr v \<Longrightarrow> equals v b' \<longleftrightarrow> b' = b"
  by (simp add: decode_from equals_decode)

lemma from_bytes_inj: "from_bytes b = Inr v \<Longrightarrow> from_bytes b' = Inr v \<Longrightarrow> b = b'"
  by (metis decode_from sum.inject(2))

lemma values_equal_from: "from_bytes b = Inr v \<Longrightarrow> from_bytes b' = Inr w \<Longrightarrow> values_equal v w \<longleftrightarrow> b = b'"
  by (simp add: values_equal_decode decode_from)

lemma values_equal_equiv: "equivp values_equal"
  by (rule equivpI) (auto simp: reflp_def symp_def transp_def values_equal_decode)

end

lemma header_value_of_Inr [simp]: "header_value_of E s = Inr v \<longleftrightarrow> v = s \<and> hv_valid E s"
  by (auto simp: header_value_of_def)

interpretation ascii: value_encoding "ascii_from_bytes E" ascii_decode ascii_equals ascii_values_equal for E
  by unfold_locales
    (auto simp: ascii_from_bytes_def ascii_decode_def ascii_equals_def ascii_values_equal_def inj_bytes_of)

text \<open>The binary encoding satisfies the contract for the values of the header type that base64 produces.\<close>

lemma binary_value_encoding:
  "base64_laws E \<Longrightarrow> value_encoding (binary_from_bytes E) (binary_decode E) (binary_equals E) (binary_values_equal E)"
  by unfold_locales
    (auto simp: base64_laws_def binary_from_bytes_def binary_decode_def binary_equals_def binary_values_equal_def
      split: option.splits)

subsection \<open>Properties\<close>

text \<open>
  Binary metadata comes back as it was given: any bytes make a header value, which decodes
  to them, compares equal to exactly these bytes, and equals another such value only when the bytes are
  the same.
\<close>

theorem binary_metadata_round_trip:
  assumes "base64_laws E"
  shows "\<exists>v. binary_from_bytes E b = Inr v \<and> binary_decode E v = Inr b \<and>
           (\<forall>b'. binary_equals E v b' \<longleftrightarrow> b' = b) \<and>
           (\<forall>b' w. binary_from_bytes E b' = Inr w \<longrightarrow> (binary_values_equal E v w \<longleftrightarrow> b = b'))"
proof -
  have v: "binary_from_bytes E b = Inr (b64_encode_no_pad E b)"
    using assms by (simp add: binary_from_bytes_def base64_laws_def)
  note enc = binary_value_encoding [OF assms]
  show ?thesis
    using v value_encoding.decode_from [OF enc v] value_encoding.equals_from [OF enc v]
      value_encoding.values_equal_from [OF enc v] by blast
qed

theorem binary_metadata_round_trip_witness:
  "\<exists>v. binary_from_bytes list_ext [0, 255] = Inr v \<and> binary_decode list_ext v = Inr [0, 255] \<and>
      (\<forall>b'. binary_equals list_ext v b' \<longleftrightarrow> b' = [0, 255])"
  using binary_metadata_round_trip [of list_ext "[0, 255]"] by (simp add: list_ext_base64) blast

text \<open>
  Equality of metadata values is an equivalence for both encodings; for binary values it
  is coarser than equality of the bytes on the wire, and any two values that are not base64 are equal.
\<close>

theorem values_equal_equivalence:
  "equivp ascii_values_equal \<and> equivp (binary_values_equal E) \<and>
   (binary_values_equal E v w \<longleftrightarrow> b64_decode E v = b64_decode E w)"
proof -
  have eq: "binary_values_equal E a b \<longleftrightarrow> b64_decode E a = b64_decode E b" for a b
    by (simp add: binary_values_equal_def binary_decode_def split: option.split)
  have "equivp (binary_values_equal E)"
    by (rule equivpI) (auto simp: reflp_def symp_def transp_def eq)
  then show ?thesis using ascii.values_equal_equiv eq by blast
qed

end
