(* ===== verification/Grpc_Web.thy ===== *)
theory Grpc_Web
  imports Codec
begin

text \<open>
  \<open>tonic-web/src/call.rs\<close>: the body adapter of gRPC-Web. Encoding turns the trailers of a gRPC body
  into a last frame of its data, optionally as base64 text; decoding undoes it, on the client side by
  looking for the trailers frame among the message frames. The inner body is the list of what its
  polls return, an inner error being its Display text; a panic is \<open>None\<close>.
\<close>

definition GRPC_HEADER_SIZE :: nat where "GRPC_HEADER_SIZE = 1 + 4"
definition GRPC_WEB :: string where "GRPC_WEB = ''application/grpc-web''"
definition GRPC_WEB_PROTO :: string where "GRPC_WEB_PROTO = ''application/grpc-web+proto''"
definition GRPC_WEB_TEXT :: string where "GRPC_WEB_TEXT = ''application/grpc-web-text''"
definition GRPC_WEB_TEXT_PROTO :: string where "GRPC_WEB_TEXT_PROTO = ''application/grpc-web-text+proto''"
definition CONTENT_TYPE :: string where "CONTENT_TYPE = ''content-type''"
definition ACCEPT :: string where "ACCEPT = ''accept''"
definition FRAME_HEADER_SIZE :: nat where "FRAME_HEADER_SIZE = 5"
definition GRPC_WEB_TRAILERS_BIT :: byte where "GRPC_WEB_TRAILERS_BIT = 128"

lemmas web_constants = GRPC_HEADER_SIZE_def FRAME_HEADER_SIZE_def GRPC_WEB_TRAILERS_BIT_def

definition content_type :: "'h ext \<Rightarrow> 'h \<Rightarrow> string option" where
  "content_type E headers = Option.bind (hm_get E headers CONTENT_TYPE) (hv_to_str E)"

definition is_grpc_web :: "'h ext \<Rightarrow> 'h \<Rightarrow> bool" where
  "is_grpc_web E headers \<longleftrightarrow>
     content_type E headers \<in> Some ` {GRPC_WEB, GRPC_WEB_PROTO, GRPC_WEB_TEXT, GRPC_WEB_TEXT_PROTO}"

datatype WebDirection = Decode | Encode | Empty
datatype Encoding = Base64 | NoEncoding

definition from_header :: "'h ext \<Rightarrow> string option \<Rightarrow> Encoding" where
  "from_header E value =
     (if Option.bind value (hv_to_str E) \<in> Some ` {GRPC_WEB_TEXT_PROTO, GRPC_WEB_TEXT} then Base64 else NoEncoding)"

definition from_content_type :: "'h ext \<Rightarrow> 'h \<Rightarrow> Encoding" where
  "from_content_type E headers = from_header E (hm_get E headers CONTENT_TYPE)"

definition from_accept :: "'h ext \<Rightarrow> 'h \<Rightarrow> Encoding" where
  "from_accept E headers = from_header E (hm_get E headers ACCEPT)"

definition to_content_type :: "Encoding \<Rightarrow> string" where
  "to_content_type e = (case e of Base64 \<Rightarrow> GRPC_WEB_TEXT_PROTO | NoEncoding \<Rightarrow> GRPC_WEB_PROTO)"

definition web_internal :: "'h ext \<Rightarrow> string \<Rightarrow> 'h Status" where
  "web_internal E e = internal E (''tonic-web: '' @ e)"

definition web_data_loss :: "'h ext \<Rightarrow> string \<Rightarrow> 'h Status" where
  "web_data_loss E e = data_loss E (''tonic-web: '' @ e)"

subsection \<open>Trailers as bytes\<close>

definition encode_trailers :: "'h ext \<Rightarrow> 'h \<Rightarrow> byte list" where
  "encode_trailers E h =
     concat (map (\<lambda>(key, value). bytes_of (key @ '':'' @ value) @ [13, 10]) (hm_iter E h))"

definition make_trailers_frame :: "'h ext \<Rightarrow> 'h \<Rightarrow> byte list option" where
  "make_trailers_frame E h =
     (let t = encode_trailers E h
      in if u32_max < length t then None else Some (GRPC_WEB_TRAILERS_BIT # put_u32 (length t) @ t))"

text \<open>The pieces of a block that end in a carriage return and a line feed; what follows the last is left out.\<close>

fun split_crlf :: "byte list \<Rightarrow> byte list \<Rightarrow> byte list list" where
  "split_crlf acc [] = []"
| "split_crlf acc (b # bs) =
     (if b = 13 \<and> bs \<noteq> [] \<and> hd bs = 10 then rev acc # split_crlf [] (tl bs) else split_crlf (b # acc) bs)"

definition is_ascii_whitespace :: "byte \<Rightarrow> bool" where
  "is_ascii_whitespace b \<longleftrightarrow> b \<in> {32, 9, 10, 12, 13}"

definition trim_ascii_start :: "byte list \<Rightarrow> byte list" where
  "trim_ascii_start bs = dropWhile is_ascii_whitespace bs"

definition add_trailer :: "'h ext \<Rightarrow> byte list \<Rightarrow> 'h \<Rightarrow> 'h Status + 'h" where
  "add_trailer E trailer m =
     (let key = takeWhile (\<lambda>b. b \<noteq> 58) trailer;
          rest = dropWhile (\<lambda>b. b \<noteq> 58) trailer
      in if rest = [] then Inl (internal E (''trailers couldn'' @ [CHR 0x27] @ ''t parse key/value''))
         else
           (let value = trim_ascii_start (tl rest)
            in case hn_parse E (string_of key) of
                 Inl e \<Rightarrow> Inl (internal E (''Unable to parse HeaderName: '' @ e))
               | Inr header_key \<Rightarrow>
                   if hv_valid E (string_of value) then Inr (hm_insert E m header_key (string_of value))
                   else Inl (internal E (''Unable to parse HeaderValue: '' @ hv_error E))))"

fun add_trailers :: "'h ext \<Rightarrow> byte list list \<Rightarrow> 'h \<Rightarrow> 'h Status + 'h" where
  "add_trailers E [] m = Inr m"
| "add_trailers E (t # ts) m =
     (case add_trailer E t m of Inl e \<Rightarrow> Inl e | Inr m' \<Rightarrow> add_trailers E ts m')"

definition decode_trailers_frame :: "'h ext \<Rightarrow> byte list \<Rightarrow> 'h Status + 'h option" where
  "decode_trailers_frame E buf =
     (if length buf < GRPC_HEADER_SIZE then Inr None
      else map_sum id Some (add_trailers E (split_crlf [] (drop 5 buf)) (hm_new E)))"

definition grpc_web_frame_total_len :: "byte list \<Rightarrow> nat option" where
  "grpc_web_frame_total_len buf =
     (if length buf < FRAME_HEADER_SIZE then None
      else Some (FRAME_HEADER_SIZE + get_u32 (buf ! 1) (buf ! 2) (buf ! 3) (buf ! 4)))"

datatype FindTrailers = Trailer nat | IncompleteBuf | Done nat

function find_trailers_from :: "'h ext \<Rightarrow> byte list \<Rightarrow> nat \<Rightarrow> 'h Status + FindTrailers" where
  "find_trailers_from E buf len =
     (let temp_buf = drop len buf
      in if length temp_buf < GRPC_HEADER_SIZE then Inr (Done len)
         else
           (let header = temp_buf ! 0
            in if header = GRPC_WEB_TRAILERS_BIT then Inr (Trailer len)
               else if header \<noteq> 0 \<and> header \<noteq> 1 then
                 Inl (internal E (''Invalid header bit '' @ show_nat (unat header) @ '' expected 0 or 1''))
               else
                 (let len' = len + (get_u32 (temp_buf ! 1) (temp_buf ! 2) (temp_buf ! 3) (temp_buf ! 4) + 4 + 1)
                  in if length buf < len' then Inr IncompleteBuf else find_trailers_from E buf len')))"
  by pat_completeness auto
termination
  by (relation "measure (\<lambda>(E, buf, len). length buf - len)") (auto simp: GRPC_HEADER_SIZE_def)

declare find_trailers_from.simps [simp del]

definition find_trailers :: "'h ext \<Rightarrow> byte list \<Rightarrow> 'h Status + FindTrailers" where
  "find_trailers E buf = find_trailers_from E buf 0"

subsection \<open>The body adapter\<close>

record 'h GrpcWebCall =
  web_inner :: "('h, string) body_poll list"
  web_buf :: "byte list"
  decoded :: "byte list"
  web_direction :: WebDirection
  web_encoding :: Encoding
  client :: bool
  web_trailers :: "'h option"

definition new_web_call :: "bool \<Rightarrow> ('h, string) body_poll list \<Rightarrow> WebDirection \<Rightarrow> Encoding \<Rightarrow> 'h GrpcWebCall" where
  "new_web_call c body direction encoding =
     \<lparr>web_inner = body, web_buf = [], decoded = [], web_direction = direction, web_encoding = encoding,
      client = c, web_trailers = None\<rparr>"

definition web_request :: "('h, string) body_poll list \<Rightarrow> Encoding \<Rightarrow> 'h GrpcWebCall" where
  "web_request body encoding = new_web_call False body Decode encoding"

definition web_response :: "('h, string) body_poll list \<Rightarrow> Encoding \<Rightarrow> 'h GrpcWebCall" where
  "web_response body encoding = new_web_call False body Encode encoding"

definition client_request :: "('h, string) body_poll list \<Rightarrow> 'h GrpcWebCall" where
  "client_request body = new_web_call True body Encode NoEncoding"

definition client_response :: "('h, string) body_poll list \<Rightarrow> 'h GrpcWebCall" where
  "client_response body = new_web_call True body Decode NoEncoding"

definition max_decodable :: "byte list \<Rightarrow> nat" where
  "max_decodable buf = (length buf div 4) * 4"

definition web_decode_chunk :: "'h ext \<Rightarrow> byte list \<Rightarrow> ('h Status + byte list option) \<times> byte list" where
  "web_decode_chunk E buf =
     (if length buf < 4 then (Inr None, buf)
      else
        (let index = max_decodable buf;
             text = string_of (take index buf)
         in (case b64_decode E text of
               Some b \<Rightarrow> Inr (Some b)
             | None \<Rightarrow> Inl (web_internal E (b64_error E text)), drop index buf)))"

datatype 'h web_frame = WData "byte list" | WTrailers 'h | WOther

type_synonym 'h web_poll = "('h Status + 'h web_frame) option Poll"

text \<open>The loop of \<open>poll_decode\<close> for base64 text: the outcome, the polls left and the buffer.\<close>

fun base64_loop ::
    "'h ext \<Rightarrow> 'h option \<Rightarrow> ('h, string) body_poll list \<Rightarrow> byte list \<Rightarrow>
     'h web_poll \<times> ('h, string) body_poll list \<times> byte list \<times> 'h option" where
  "base64_loop E tr [] buf =
     (case web_decode_chunk E buf of
        (Inl e, buf') \<Rightarrow> (Ready (Some (Inl e)), [], buf', tr)
      | (Inr (Some b), buf') \<Rightarrow> (Ready (Some (Inr (WData b))), [], buf', tr)
      | (Inr None, buf') \<Rightarrow>
          (if buf' \<noteq> [] then (Ready (Some (Inl (web_internal E ''malformed base64 request''))), [], buf', tr)
           else (Ready (map_option (\<lambda>t. Inr (WTrailers t)) tr), [], buf', None)))"
| "base64_loop E tr (p # body) buf =
     (case web_decode_chunk E buf of
        (Inl e, buf') \<Rightarrow> (Ready (Some (Inl e)), p # body, buf', tr)
      | (Inr (Some b), buf') \<Rightarrow> (Ready (Some (Inr (WData b))), p # body, buf', tr)
      | (Inr None, buf') \<Rightarrow>
          (case p of
             BPending \<Rightarrow> (Pending, body, buf', tr)
           | BData d \<Rightarrow> base64_loop E tr body (buf' @ d)
           | BTrailers t \<Rightarrow>
               (Ready (Some (Inl (web_internal E ''malformed base64 request has unencoded trailers''))), body, buf', tr)
           | BOther \<Rightarrow> (Ready (Some (Inl (web_internal E ''unexpected frame type''))), body, buf', tr)
           | BError e \<Rightarrow> (Ready (Some (Inl (web_internal E e))), body, buf', tr)))"

definition poll_decode :: "'h ext \<Rightarrow> 'h GrpcWebCall \<Rightarrow> 'h web_poll \<times> 'h GrpcWebCall" where
  "poll_decode E s =
     (case web_encoding s of
        Base64 \<Rightarrow>
          (case base64_loop E (web_trailers s) (web_inner s) (web_buf s) of
             (r, body', buf', tr') \<Rightarrow> (r, s\<lparr>web_inner := body', web_buf := buf', web_trailers := tr'\<rparr>))
      | NoEncoding \<Rightarrow>
          (case web_inner s of
             [] \<Rightarrow> (Ready None, s)
           | p # body' \<Rightarrow>
               ((case p of
                   BPending \<Rightarrow> Pending
                 | BData d \<Rightarrow> Ready (Some (Inr (WData d)))
                 | BTrailers t \<Rightarrow> Ready (Some (Inr (WTrailers t)))
                 | BOther \<Rightarrow> Ready (Some (Inr WOther))
                 | BError e \<Rightarrow> Ready (Some (Inl (web_internal E e)))),
                s\<lparr>web_inner := body'\<rparr>)))"

definition as_base64 :: "'h ext \<Rightarrow> Encoding \<Rightarrow> byte list \<Rightarrow> byte list" where
  "as_base64 E e b = (if e = Base64 then bytes_of (b64_encode E b) else b)"

definition poll_encode :: "'h ext \<Rightarrow> 'h GrpcWebCall \<Rightarrow> ('h web_poll \<times> 'h GrpcWebCall) option" where
  "poll_encode E s =
     (case web_inner s of
        [] \<Rightarrow> Some (Ready None, s)
      | p # body' \<Rightarrow>
          (let s' = s\<lparr>web_inner := body'\<rparr>
           in case p of
                BPending \<Rightarrow> Some (Pending, s')
              | BData d \<Rightarrow> Some (Ready (Some (Inr (WData (as_base64 E (web_encoding s) d)))), s')
              | BTrailers t \<Rightarrow> do {
                  res \<leftarrow> make_trailers_frame E t;
                  Some (Ready (Some (Inr (WData (as_base64 E (web_encoding s) res)))), s')
                }
              | BOther \<Rightarrow> Some (Ready (Some (Inl (web_internal E ''unexpected frame type''))), s')
              | BError e \<Rightarrow> Some (Ready (Some (Inl (web_internal E e))), s')))"

text \<open>
  What the client side of \<open>poll_frame\<close> does with the bytes decoded so far: \<open>None\<close> asks for more of the
  inner body, which never happens at its end.
\<close>

definition take_web_trailers :: "bool \<Rightarrow> 'h GrpcWebCall \<Rightarrow> 'h web_poll option \<times> 'h GrpcWebCall" where
  "take_web_trailers eof s =
     (case web_trailers s of
        Some t \<Rightarrow> (Some (Ready (Some (Inr (WTrailers t)))), s\<lparr>web_trailers := None\<rparr>)
      | None \<Rightarrow> (if eof then Some (Ready None) else None, s))"

definition deliver_message :: "bool \<Rightarrow> byte list \<Rightarrow> 'h GrpcWebCall \<Rightarrow> 'h web_poll option \<times> 'h GrpcWebCall" where
  "deliver_message eof msg_buf s =
     (if msg_buf \<noteq> [] then (Some (Ready (Some (Inr (WData msg_buf)))), s) else take_web_trailers eof s)"

definition client_deliver :: "'h ext \<Rightarrow> bool \<Rightarrow> 'h GrpcWebCall \<Rightarrow> 'h web_poll option \<times> 'h GrpcWebCall" where
  "client_deliver E eof s =
     (case find_trailers E (decoded s) of
        Inl e \<Rightarrow> (Some (Ready (Some (Inl e))), s)
      | Inr (Trailer len) \<Rightarrow>
          (let msg_buf = take len (decoded s);
               buf = drop len (decoded s);
               s1 = s\<lparr>decoded := buf\<rparr>
           in case grpc_web_frame_total_len buf of
                Some total_len \<Rightarrow>
                  if total_len \<le> length buf then
                    (case decode_trailers_frame E (take total_len buf) of
                       Inr (Some t) \<Rightarrow>
                         deliver_message eof msg_buf (s1\<lparr>decoded := drop total_len buf, web_trailers := Some t\<rparr>)
                     | Inl e \<Rightarrow> (Some (Ready (Some (Inl e))), s1\<lparr>decoded := drop total_len buf\<rparr>)
                     | Inr None \<Rightarrow> deliver_message eof msg_buf (s1\<lparr>decoded := drop total_len buf\<rparr>))
                  else if eof \<and> msg_buf = [] then
                    (Some (Ready (Some (Inl (web_data_loss E ''incomplete grpc-web trailers frame'')))), s1)
                  else deliver_message eof msg_buf s1
              | None \<Rightarrow>
                  if eof \<and> msg_buf = [] then
                    (Some (Ready (Some (Inl (web_data_loss E ''incomplete grpc-web trailers frame'')))), s1)
                  else deliver_message eof msg_buf s1)
      | Inr IncompleteBuf \<Rightarrow>
          (if eof then Some (Ready (Some (Inl (web_data_loss E ''incomplete grpc-web message frame'')))) else None, s)
      | Inr (Done len) \<Rightarrow>
          if len = 0 then take_web_trailers eof s
          else (Some (Ready (Some (Inr (WData (take len (decoded s)))))), s\<lparr>decoded := drop len (decoded s)\<rparr>))"

text \<open>
  The client loop over the polls of the inner body. Both client constructors set no text encoding, so
  its \<open>poll_decode\<close> is the pass-through arm.
\<close>

fun client_loop ::
    "'h ext \<Rightarrow> ('h, string) body_poll list \<Rightarrow> 'h GrpcWebCall \<Rightarrow> ('h web_poll \<times> 'h GrpcWebCall) option" where
  "client_loop E [] s =
     (case client_deliver E True s of
        (Some r, s') \<Rightarrow> Some (r, s'\<lparr>web_inner := []\<rparr>)
      | (None, s') \<Rightarrow> None)"
| "client_loop E (p # body) s =
     (case p of
        BPending \<Rightarrow> Some (Pending, s\<lparr>web_inner := body\<rparr>)
      | BData d \<Rightarrow>
          (case client_deliver E False (s\<lparr>decoded := decoded s @ d\<rparr>) of
             (Some r, s') \<Rightarrow> Some (r, s'\<lparr>web_inner := body\<rparr>)
           | (None, s') \<Rightarrow> client_loop E body s')
      | BTrailers t \<Rightarrow>
          client_loop E body
            (s\<lparr>web_trailers := Some (case web_trailers s of Some g \<Rightarrow> hm_extend E g t | None \<Rightarrow> t)\<rparr>)
      | BOther \<Rightarrow> None
      | BError e \<Rightarrow> Some (Ready (Some (Inl (web_internal E e))), s\<lparr>web_inner := body\<rparr>))"

definition web_poll_frame :: "'h ext \<Rightarrow> 'h GrpcWebCall \<Rightarrow> ('h web_poll \<times> 'h GrpcWebCall) option" where
  "web_poll_frame E s =
     (if client s \<and> web_direction s = Decode then
        (case (decoded s, web_trailers s) of
           ([], Some t) \<Rightarrow> Some (Ready (Some (Inr (WTrailers t))), s\<lparr>web_trailers := None\<rparr>)
         | _ \<Rightarrow> client_loop E (web_inner s) s)
      else
        (case web_direction s of
           Decode \<Rightarrow> Some (poll_decode E s)
         | Encode \<Rightarrow> poll_encode E s
         | Empty \<Rightarrow> Some (Ready None, s)))"

subsection \<open>Trailers round trip\<close>

lemma split_crlf_piece:
  "13 \<notin> set x \<Longrightarrow> split_crlf acc (x @ [13, 10] @ rest) = (rev acc @ x) # split_crlf [] rest"
  by (induction x arbitrary: acc) auto

text \<open>A trailer entry a client can read back: proper, with a value that has no leading white space.\<close>

definition trailer_entry :: "'h ext \<Rightarrow> string \<times> string \<Rightarrow> bool" where
  "trailer_entry E e \<longleftrightarrow> proper_entry E e \<and> trim_ascii_start (bytes_of (snd e)) = bytes_of (snd e)"

lemma bytes_of_append [simp]: "bytes_of (a @ b) = bytes_of a @ bytes_of b"
  by (simp add: bytes_of_def)

lemma of_char_byte_iff: "(of_char c :: byte) = of_char d \<longleftrightarrow> c = d"
  using inj_bytes_of [of "[c]" "[d]"] by (simp add: bytes_of_def)

lemma in_bytes_of: "of_char c \<in> set (bytes_of s) \<longleftrightarrow> c \<in> set s"
  by (auto simp: bytes_of_def of_char_byte_iff)

lemma byte_chars:
  "(of_char (CHR 0x0D) :: byte) = 13" "(of_char (CHR '':'') :: byte) = 58"
  by simp_all

definition entry_line :: "string \<times> string \<Rightarrow> byte list" where
  "entry_line e = bytes_of (fst e @ '':'' @ snd e)"

lemma encode_trailers_lines: "encode_trailers E h = concat (map (\<lambda>e. entry_line e @ [13, 10]) (hm_iter E h))"
  by (simp add: encode_trailers_def entry_line_def split_def)

lemma split_crlf_entries:
  assumes "\<forall>e \<in> set es. proper_entry E e"
  shows "split_crlf [] (concat (map (\<lambda>e. entry_line e @ [13, 10]) es)) = map entry_line es"
  using assms
proof (induction es)
  case (Cons e es)
  have "CHR 0x0D \<notin> set (fst e @ '':'' @ snd e)"
    using Cons.prems by (auto simp: proper_entry_def)
  then have "13 \<notin> set (entry_line e)"
    unfolding entry_line_def in_bytes_of [symmetric] byte_chars .
  from split_crlf_piece [OF this] Cons show ?case by simp
qed simp

lemma add_trailer_entry:
  assumes "trailer_entry E e"
  shows "add_trailer E (entry_line e) m = Inr (hm_insert E m (fst e) (snd e))"
proof -
  have "58 \<notin> set (bytes_of (fst e))"
    using assms in_bytes_of [of "CHR '':''" "fst e"] by (simp add: trailer_entry_def proper_entry_def)
  moreover have "entry_line e = bytes_of (fst e) @ 58 # bytes_of (snd e)"
    by (simp add: entry_line_def bytes_of_def)
  ultimately have "takeWhile (\<lambda>b. b \<noteq> 58) (entry_line e) = bytes_of (fst e)"
    "dropWhile (\<lambda>b. b \<noteq> 58) (entry_line e) = 58 # bytes_of (snd e)"
    by (auto simp: takeWhile_append dropWhile_append)
  then show ?thesis
    using assms by (simp add: add_trailer_def trailer_entry_def proper_entry_def)
qed

lemma add_trailers_entries:
  assumes "\<forall>e \<in> set es. trailer_entry E e" and "header_map_laws E"
  shows "\<exists>m'. add_trailers E (map entry_line es) m = Inr m' \<and>
     (\<forall>k. hm_get E m' k = (case map_of (rev es) k of Some v \<Rightarrow> Some v | None \<Rightarrow> hm_get E m k))"
  using assms(1)
proof (induction es arbitrary: m)
  case (Cons e es)
  then obtain m' where "add_trailers E (map entry_line es) (hm_insert E m (fst e) (snd e)) = Inr m'"
    "\<forall>j. hm_get E m' j = (case map_of (rev es) j of Some w \<Rightarrow> Some w | None \<Rightarrow> hm_get E (hm_insert E m (fst e) (snd e)) j)"
    by fastforce
  then show ?case
    using Cons.prems by (auto simp: add_trailer_entry header_map_lawsD [OF assms(2)] map_add_def split: option.split)
qed simp

lemma trailers_frame_decodes:
  assumes "\<forall>e \<in> set (hm_iter E h). trailer_entry E e" and "header_map_laws E"
    and "make_trailers_frame E h = Some frame"
  obtains h' where "decode_trailers_frame E frame = Inr (Some h')"
    "hm_get E h' = map_of (rev (hm_iter E h))"
proof -
  have "\<forall>e \<in> set (hm_iter E h). proper_entry E e" using assms(1) by (auto simp: trailer_entry_def)
  then have "split_crlf [] (drop 5 frame) = map entry_line (hm_iter E h)"
    using assms(3) split_crlf_entries
    by (auto simp: make_trailers_frame_def encode_trailers_lines Let_def split: if_split_asm)
  moreover have "5 \<le> length frame"
    using assms(3) by (auto simp: make_trailers_frame_def Let_def split: if_split_asm)
  moreover obtain h' where h': "add_trailers E (map entry_line (hm_iter E h)) (hm_new E) = Inr h'"
    "\<forall>k. hm_get E h' k = (case map_of (rev (hm_iter E h)) k of Some v \<Rightarrow> Some v | None \<Rightarrow> hm_get E (hm_new E) k)"
    using add_trailers_entries [OF assms(1,2)] by blast
  moreover have "hm_get E h' = map_of (rev (hm_iter E h))"
    using h'(2) by (auto simp: fun_eq_iff header_map_lawsD(1) [OF assms(2)] split: option.split)
  ultimately show thesis
    by (intro that [of h']) (simp_all add: decode_trailers_frame_def GRPC_HEADER_SIZE_def)
qed

subsection \<open>Finding the trailers\<close>

text \<open>Message frames, by their flag and payload, one after the other.\<close>

definition web_frames :: "(bool \<times> byte list) list \<Rightarrow> byte list" where
  "web_frames fs = concat (map (\<lambda>(c, p). message_frame c p) fs)"

definition small_frames :: "(bool \<times> byte list) list \<Rightarrow> bool" where
  "small_frames fs \<longleftrightarrow> (\<forall>(c, p) \<in> set fs. length p < 2 ^ 32)"

lemma web_frames_simps [simp]:
  "web_frames [] = []" "web_frames ((c, p) # fs) = message_frame c p @ web_frames fs"
  "web_frames (fs @ gs) = web_frames fs @ web_frames gs"
  by (simp_all add: web_frames_def)

lemma small_frames_simps [simp]:
  "small_frames []" "small_frames ((c, p) # fs) \<longleftrightarrow> length p < 2 ^ 32 \<and> small_frames fs"
  "small_frames (fs @ gs) \<longleftrightarrow> small_frames fs \<and> small_frames gs"
  by (auto simp: small_frames_def)

lemma length_message_frame: "length (message_frame c p) = 5 + length p"
  by (simp add: message_frame_def)

lemma web_frames_Nil [simp]: "web_frames fs = [] \<longleftrightarrow> fs = []"
  by (cases fs) (auto simp: message_frame_def)

text \<open>A header of a message frame of \<open>n\<close> bytes at the position looked at.\<close>

lemma trailers_bit_neq [simp]: "0 \<noteq> GRPC_WEB_TRAILERS_BIT" "1 \<noteq> GRPC_WEB_TRAILERS_BIT"
proof -
  have "unat GRPC_WEB_TRAILERS_BIT = 128" by (simp add: GRPC_WEB_TRAILERS_BIT_def)
  then show "0 \<noteq> GRPC_WEB_TRAILERS_BIT" "1 \<noteq> GRPC_WEB_TRAILERS_BIT" by auto
qed

lemma find_trailers_header:
  assumes "n < 2 ^ 32"
  shows "find_trailers_from E (pre @ (if c then 1 else 0) # put_u32 n @ r) (length pre) =
     (if length r < n then Inr IncompleteBuf
      else find_trailers_from E (pre @ (if c then 1 else 0) # put_u32 n @ r) (length pre + 5 + n))"
proof -
  obtain x1 x2 x3 x4 where u: "put_u32 n = [x1, x2, x3, x4]" "get_u32 x1 x2 x3 x4 = n"
    using get_u32_put_u32 [OF assms] by (simp add: put_u32_def)
  show ?thesis
    unfolding u(1) by (subst find_trailers_from.simps) (cases c; simp add: GRPC_HEADER_SIZE_def u(2) Let_def ac_simps)
qed

lemma find_trailers_frames:
  assumes "small_frames fs"
  shows "find_trailers_from E (pre @ web_frames fs @ r) (length pre) =
     find_trailers_from E (pre @ web_frames fs @ r) (length pre + length (web_frames fs))"
  using assms
proof (induction fs arbitrary: pre)
  case (Cons f fs)
  obtain c p where f: "f = (c, p)" by (cases f)
  let ?b = "pre @ message_frame c p @ web_frames fs @ r"
  have "find_trailers_from E ?b (length pre) = find_trailers_from E ?b (length (pre @ message_frame c p))"
    using find_trailers_header [of "length p" E pre c "p @ web_frames fs @ r"] Cons.prems f
    by (simp add: message_frame_def algebra_simps)
  also have "\<dots> = find_trailers_from E ?b (length (pre @ message_frame c p) + length (web_frames fs))"
    using Cons.IH [of "pre @ message_frame c p"] Cons.prems f by simp
  finally show ?case by (simp add: f algebra_simps)
qed simp

lemma find_trailers_short:
  assumes "small_frames fs" "length r < 5"
  shows "find_trailers E (web_frames fs @ r) = Inr (Done (length (web_frames fs)))"
  using find_trailers_frames [OF assms(1), of E "[]" r] assms(2)
  by (simp add: find_trailers_def find_trailers_from.simps [of E _ "length (web_frames fs)"] GRPC_HEADER_SIZE_def Let_def)

lemma find_trailers_partial:
  assumes "small_frames fs" "length p < 2 ^ 32" "r @ r' = message_frame c p" "r' \<noteq> []" "5 \<le> length r"
  shows "find_trailers E (web_frames fs @ r) = Inr IncompleteBuf"
proof -
  define h where "h = (if c then 1 else 0 :: byte) # put_u32 (length p)"
  have "r @ r' = h @ p" "length h = 5" using assms(3) by (simp_all add: message_frame_def h_def)
  then have "r = h @ take (length r - 5) p"
    using assms(5) by (metis append_eq_conv_conj take_all take_append)
  then have r: "r = (if c then 1 else 0) # put_u32 (length p) @ take (length r - 5) p"
    by (simp add: h_def)
  have "length r < 5 + length p"
    using arg_cong [OF assms(3), of length] assms(4) length_message_frame [of c p] by (cases r') simp_all
  then have "length r - 5 < length p" using assms(5) by simp
  then show ?thesis
    using find_trailers_frames [OF assms(1), of E "[]" r]
      find_trailers_header [OF assms(2), of E "web_frames fs" c "take (length r - 5) p"] r
    by (simp add: find_trailers_def)
qed

lemma find_trailers_trailer:
  assumes "small_frames fs" "5 \<le> length r" "hd r = GRPC_WEB_TRAILERS_BIT"
  shows "find_trailers E (web_frames fs @ r) = Inr (Trailer (length (web_frames fs)))"
  using find_trailers_frames [OF assms(1), of E "[]" r] assms(2,3)
  by (cases r) (simp_all add: find_trailers_def find_trailers_from.simps [of E _ "length (web_frames fs)"] GRPC_HEADER_SIZE_def Let_def)

text \<open>Where a cut through message frames and what follows them can fall.\<close>

lemma cut_frames:
  assumes "d @ rest = web_frames fs @ t"
  obtains (short) fs1 fs2 r where "fs = fs1 @ fs2" "d = web_frames fs1 @ r" "length r < 5"
      "r @ rest = web_frames fs2 @ t"
  | (partial) fs1 c p fs2 r r' where "fs = fs1 @ (c, p) # fs2" "d = web_frames fs1 @ r" "5 \<le> length r"
      "r @ r' = message_frame c p" "r' \<noteq> []"
  | (beyond) r where "d = web_frames fs @ r" "5 \<le> length r" "r @ rest = t"
  using assms
proof (induction fs arbitrary: d thesis)
  case Nil
  then show thesis by (cases "length d < 5") (simp_all add: Nil(1) [of "[]" "[]" d])
next
  case (Cons f fs)
  obtain c p where f: "f = (c, p)" by (cases f)
  note pre = Cons.prems(4) [unfolded f web_frames_simps append_assoc]
  show thesis
  proof (cases "length d < length (message_frame c p)")
    case True
    with pre obtain r' where r': "d @ r' = message_frame c p"
      unfolding append_eq_append_conv2 by auto
    with True have "r' \<noteq> []" by (metis append_Nil2 less_irrefl)
    note r' = r' this
    show thesis
    proof (cases "length d < 5")
      case True
      then show thesis using Cons.prems(1) [of "[]" "f # fs" d] Cons.prems(4) by simp
    next
      case False
      then show thesis using Cons.prems(2) [of "[]" c p fs d r'] r' f by simp
    qed
  next
    case False
    have "\<exists>d'. d = message_frame c p @ d' \<and> d' @ rest = web_frames fs @ t"
      using pre False unfolding append_eq_append_conv2
      by (metis append_Nil append_Nil2 length_append less_add_same_cancel1 length_greater_0_conv)
    then obtain d' where d': "d = message_frame c p @ d'" "d' @ rest = web_frames fs @ t" by blast
    show thesis
    proof (rule Cons.IH [OF _ _ _ d'(2)])
      fix fs1 fs2 r
      assume "fs = fs1 @ fs2" "d' = web_frames fs1 @ r" "length r < 5" "r @ rest = web_frames fs2 @ t"
      then show thesis using Cons.prems(1) [of "f # fs1" fs2 r] d' f by simp
    next
      fix fs1 c' p' fs2 r r'
      assume "fs = fs1 @ (c', p') # fs2" "d' = web_frames fs1 @ r" "5 \<le> length r" "r @ r' = message_frame c' p'" "r' \<noteq> []"
      then show thesis using Cons.prems(2) [of "f # fs1" c' p' fs2 r r'] d' f by simp
    next
      fix r
      assume "d' = web_frames fs @ r" "5 \<le> length r" "r @ rest = t"
      then show thesis using Cons.prems(3) [of r] d' f by simp
    qed
  qed
qed

subsection \<open>A client reading a response\<close>

text \<open>The bytes of a trailers frame that decodes to \<open>t\<close>.\<close>

definition trailers_bytes :: "'h ext \<Rightarrow> byte list \<Rightarrow> 'h \<Rightarrow> bool" where
  "trailers_bytes E T t \<longleftrightarrow>
     (\<exists>x. T = GRPC_WEB_TRAILERS_BIT # put_u32 (length x) @ x \<and> length x < 2 ^ 32) \<and>
     decode_trailers_frame E T = Inr (Some t)"

lemma trailers_bytes_prefix:
  assumes "trailers_bytes E T t" "r @ rest = T" "5 \<le> length r"
  shows "hd r = GRPC_WEB_TRAILERS_BIT" "grpc_web_frame_total_len r = Some (length T)"
proof -
  obtain x where x: "T = GRPC_WEB_TRAILERS_BIT # put_u32 (length x) @ x" "length x < 2 ^ 32"
    using assms(1) by (auto simp: trailers_bytes_def)
  obtain x1 x2 x3 x4 where u: "put_u32 (length x) = [x1, x2, x3, x4]" "get_u32 x1 x2 x3 x4 = length x"
    using get_u32_put_u32 [OF x(2)] by (simp add: put_u32_def)
  obtain b1 b2 b3 b4 b5 r' where r: "r = b1 # b2 # b3 # b4 # b5 # r'"
    using assms(3) by (auto simp: numeral_eq_Suc Suc_le_length_iff)
  have "b1 # b2 # b3 # b4 # b5 # r' @ rest = GRPC_WEB_TRAILERS_BIT # [x1, x2, x3, x4] @ x"
    using assms(2) x(1) u(1) r by simp
  then show "hd r = GRPC_WEB_TRAILERS_BIT" "grpc_web_frame_total_len r = Some (length T)"
    using x(1) u r by (simp_all add: grpc_web_frame_total_len_def FRAME_HEADER_SIZE_def)
qed

lemma deliver_complete:
  assumes "trailers_bytes E T t" "small_frames fs" "decoded s = web_frames fs @ T" "web_trailers s = None"
  shows "client_deliver E eof s =
     (if fs = [] then (Some (Ready (Some (Inr (WTrailers t)))), s\<lparr>decoded := []\<rparr>)
      else (Some (Ready (Some (Inr (WData (web_frames fs))))), s\<lparr>decoded := [], web_trailers := Some t\<rparr>))"
proof -
  have "5 \<le> length T" using assms(1) by (auto simp: trailers_bytes_def)
  note T = trailers_bytes_prefix [OF assms(1) append_Nil2 this]
  have f: "find_trailers E (web_frames fs @ T) = Inr (Trailer (length (web_frames fs)))"
    by (rule find_trailers_trailer [OF assms(2) \<open>5 \<le> length T\<close> T(1)])
  have "s\<lparr>decoded := [], web_trailers := None\<rparr> = s\<lparr>decoded := []\<rparr>" using assms(4) by simp
  then show ?thesis
    using assms(1) by (simp add: client_deliver_def f assms(3) T(2) trailers_bytes_def deliver_message_def take_web_trailers_def)
qed

lemma deliver_reading:
  assumes T: "trailers_bytes E T t" and fs: "small_frames fs" and d: "decoded s @ rest = web_frames fs @ T"
    and s: "web_trailers s = None"
  obtains (more) "client_deliver E False s = (None, s)" "rest \<noteq> []"
  | (data) fs1 fs2 r where "fs = fs1 @ fs2" "fs1 \<noteq> []" "r @ rest = web_frames fs2 @ T"
      "client_deliver E False s = (Some (Ready (Some (Inr (WData (web_frames fs1))))), s\<lparr>decoded := r\<rparr>)"
  | (complete) "rest = []" "decoded s = web_frames fs @ T"
proof (cases "rest = []")
  case True
  then show thesis using d complete by simp
next
  case False
  from d show thesis
  proof (cases rule: cut_frames)
    case (short fs1 fs2 r)
    then have f: "find_trailers E (decoded s) = Inr (Done (length (web_frames fs1)))"
      using fs by (simp add: find_trailers_short)
    show thesis
    proof (cases "fs1 = []")
      case True
      then show thesis using f s False by (intro more) (simp_all add: client_deliver_def take_web_trailers_def)
    next
      case ne: False
      then show thesis using f short by (intro data [of fs1 fs2 r]) (simp_all add: client_deliver_def)
    qed
  next
    case (partial fs1 c p fs2 r r')
    then have "find_trailers E (decoded s) = Inr IncompleteBuf"
      using fs find_trailers_partial [of fs1 p r r' c E] by simp
    then show thesis using False by (intro more) (simp_all add: client_deliver_def)
  next
    case (beyond r)
    note P = trailers_bytes_prefix [OF T beyond(3,2)]
    have f: "find_trailers E (web_frames fs @ r) = Inr (Trailer (length (web_frames fs)))"
      by (rule find_trailers_trailer [OF fs beyond(2) P(1)])
    have l: "\<not> length T \<le> length r" using beyond(3) False by auto
    have c: "client_deliver E False s = deliver_message False (web_frames fs) (s\<lparr>decoded := r\<rparr>)"
      using l by (simp add: client_deliver_def f beyond(1) P(2))
    show thesis
    proof (cases "fs = []")
      case True
      then have "s\<lparr>decoded := r\<rparr> = s" using beyond(1) by simp
      then show thesis using c True s False by (intro more) (simp_all add: deliver_message_def take_web_trailers_def)
    next
      case ne: False
      then show thesis using c beyond(3) by (intro data [of fs "[]" r]) (simp_all add: deliver_message_def)
    qed
  qed
qed

text \<open>
  The states of a client: still reading message frames \<open>fs\<close> and the trailers frame, or past all bytes
  with the trailers \<open>tr\<close> still to deliver, if any.
\<close>

definition reading :: "(bool \<times> byte list) list \<Rightarrow> byte list \<Rightarrow> ('h, string) body_poll list \<Rightarrow> 'h GrpcWebCall \<Rightarrow> bool" where
  "reading fs T body s \<longleftrightarrow>
     client s \<and> web_direction s = Decode \<and> web_trailers s = None \<and> list_all is_data body \<and>
     small_frames fs \<and> decoded s @ body_bytes body = web_frames fs @ T"

definition at_end :: "'h option \<Rightarrow> ('h, string) body_poll list \<Rightarrow> 'h GrpcWebCall \<Rightarrow> bool" where
  "at_end tr body s \<longleftrightarrow>
     client s \<and> web_direction s = Decode \<and> web_trailers s = tr \<and> list_all is_data body \<and>
     decoded s = [] \<and> body_bytes body = []"

lemma client_loop_reading:
  assumes "trailers_bytes E T t" and "reading fs T body s"
  obtains (pending) s' where "client_loop E body s = Some (Pending, s')" "reading fs T (web_inner s') s'"
      "length (web_inner s') < length body"
  | (data) fs1 fs2 s' where "client_loop E body s = Some (Ready (Some (Inr (WData (web_frames fs1)))), s')"
      "fs = fs1 @ fs2" "fs1 \<noteq> []" "reading fs2 T (web_inner s') s'" "length (web_inner s') < length body"
  | (last) s' where "client_loop E body s = Some (Ready (Some (Inr (WData (web_frames fs)))), s')"
      "at_end (Some t) (web_inner s') s'" "length (web_inner s') \<le> length body"
  | (trailers) s' where "client_loop E body s = Some (Ready (Some (Inr (WTrailers t))), s')" "fs = []"
      "at_end None (web_inner s') s'" "length (web_inner s') \<le> length body"
  using assms(2)
proof (induction body arbitrary: s thesis)
  case Nil
  then have r: "web_trailers s = None" "small_frames fs" "decoded s = web_frames fs @ T" by (simp_all add: reading_def)
  note d = deliver_complete [OF assms(1) r(2,3,1), of True]
  show thesis
  proof (cases "fs = []")
    case True
    show thesis
      by (rule Nil(4) [of "s\<lparr>decoded := [], web_inner := []\<rparr>"])
        (use d True Nil(5) in \<open>simp_all add: at_end_def reading_def\<close>)
  next
    case False
    show thesis
      by (rule Nil(3) [of "s\<lparr>decoded := [], web_trailers := Some t, web_inner := []\<rparr>"])
        (use d False Nil(5) in \<open>simp_all add: at_end_def reading_def\<close>)
  qed
next
  case (Cons x body)
  show thesis
  proof (cases x)
    case BPending
    show thesis
      by (rule Cons.prems(1) [of "s\<lparr>web_inner := body\<rparr>"])
        (use BPending Cons.prems(5) in \<open>simp_all add: reading_def\<close>)
  next
    case (BData d)
    let ?s = "s\<lparr>decoded := decoded s @ d\<rparr>"
    have r: "reading fs T body ?s" using Cons.prems(5) BData by (simp add: reading_def)
    then have "small_frames fs" "decoded ?s @ body_bytes body = web_frames fs @ T" "web_trailers ?s = None"
      by (simp_all add: reading_def)
    with assms(1) show thesis
    proof (cases rule: deliver_reading)
      case more
      then have l: "client_loop E (x # body) s = client_loop E body ?s" using BData by simp
      show thesis
        by (rule Cons.IH [OF _ _ _ _ r, unfolded l [symmetric]]) (auto intro: Cons.prems(1-4))
    next
      case (data fs1 fs2 r')
      show thesis
        by (rule Cons.prems(2) [of fs1 "s\<lparr>decoded := r', web_inner := body\<rparr>" fs2])
          (use data r BData in \<open>simp_all add: reading_def\<close>)
    next
      case complete
      note d = deliver_complete [OF assms(1) \<open>small_frames fs\<close> complete(2) \<open>web_trailers ?s = None\<close>, of False]
      show thesis
      proof (cases "fs = []")
        case True
        show thesis
          by (rule Cons.prems(4) [of "s\<lparr>decoded := [], web_inner := body\<rparr>"])
            (use d True r BData complete(1) in \<open>simp_all add: at_end_def reading_def\<close>)
      next
        case False
        show thesis
          by (rule Cons.prems(3) [of "s\<lparr>decoded := [], web_trailers := Some t, web_inner := body\<rparr>"])
            (use d False r BData complete(1) in \<open>simp_all add: at_end_def reading_def\<close>)
      qed
    qed
  qed (use Cons.prems(5) in \<open>simp_all add: reading_def\<close>)
qed

text \<open>The frames of the first \<open>n\<close> polls, up to the end, and whether the end was met.\<close>

fun web_run :: "'h ext \<Rightarrow> nat \<Rightarrow> 'h GrpcWebCall \<Rightarrow> (('h Status + 'h web_frame) list \<times> bool) option" where
  "web_run E 0 s = Some ([], False)"
| "web_run E (Suc n) s =
     (case web_poll_frame E s of
        None \<Rightarrow> None
      | Some (Pending, s') \<Rightarrow> web_run E n s'
      | Some (Ready None, s') \<Rightarrow> Some ([], True)
      | Some (Ready (Some x), s') \<Rightarrow> map_option (\<lambda>(xs, fin). (x # xs, fin)) (web_run E n s'))"

lemma client_loop_end:
  assumes "at_end None body s"
  shows "(\<exists>s'. client_loop E body s = Some (Ready None, s')) \<or>
     (\<exists>s'. client_loop E body s = Some (Pending, s') \<and> at_end None (web_inner s') s' \<and> length (web_inner s') < length body)"
proof -
  have f: "find_trailers E [] = Inr (Done 0)"
    by (simp add: find_trailers_def find_trailers_from.simps GRPC_HEADER_SIZE_def)
  have d: "client_deliver E eof t = (if eof then Some (Ready None) else None, t)"
    if "decoded t = []" "web_trailers t = None" for eof t
    using that by (simp add: client_deliver_def f take_web_trailers_def)
  from assms show ?thesis
  proof (induction body arbitrary: s)
    case (Cons x body)
    then show ?case
    proof (cases x)
      case (BData b)
      then have b: "b = []" and "at_end None body s" using Cons.prems by (auto simp: at_end_def)
      have "s\<lparr>decoded := decoded s @ b\<rparr> = s" using b by simp
      moreover have "client_deliver E False s = (None, s)" using Cons.prems d by (simp add: at_end_def)
      ultimately have "client_loop E (x # body) s = client_loop E body s"
        using BData by simp
      with Cons.IH [OF \<open>at_end None body s\<close>] show ?thesis by auto
    qed (auto simp: at_end_def)
  qed (simp add: d at_end_def)
qed

lemma web_run_end:
  "at_end None (web_inner s) s \<Longrightarrow> length (web_inner s) < n \<Longrightarrow> web_run E n s = Some ([], True)"
proof (induction n arbitrary: s)
  case (Suc n)
  have "web_poll_frame E s = client_loop E (web_inner s) s"
    using Suc.prems(1) by (simp add: web_poll_frame_def at_end_def)
  with client_loop_end [OF Suc.prems(1), of E] show ?case
    using Suc by (elim disjE exE conjE) simp_all
qed simp

lemma web_run_trailers:
  assumes "at_end (Some t) (web_inner s) s" and "length (web_inner s) < n"
  shows "web_run E (Suc n) s = Some ([Inr (WTrailers t)], True)"
proof -
  have "web_poll_frame E s = Some (Ready (Some (Inr (WTrailers t))), s\<lparr>web_trailers := None\<rparr>)"
    using assms(1) by (simp add: web_poll_frame_def at_end_def)
  moreover have "web_run E n (s\<lparr>web_trailers := None\<rparr>) = Some ([], True)"
    using assms by (intro web_run_end) (simp_all add: at_end_def)
  ultimately show ?thesis by simp
qed

lemma web_run_reading:
  assumes "trailers_bytes E T t" and "reading fs T (web_inner s) s" and "length (web_inner s) + 3 \<le> n"
  shows "\<exists>ds. web_run E n s = Some (map (Inr \<circ> WData) ds @ [Inr (WTrailers t)], True) \<and> concat ds = web_frames fs"
  using assms(2,3)
proof (induction n arbitrary: s fs)
  case (Suc n)
  have p: "web_poll_frame E s = client_loop E (web_inner s) s"
    using Suc.prems(1) by (cases "decoded s") (simp_all add: web_poll_frame_def reading_def)
  from assms(1) Suc.prems(1) show ?case
  proof (cases rule: client_loop_reading)
    case (pending s')
    then show ?thesis using Suc.IH [OF pending(2)] Suc.prems(2) p by simp
  next
    case (data fs1 fs2 s')
    have "length (web_inner s') + 3 \<le> n" using data(5) Suc.prems(2) by simp
    from Suc.IH [OF data(4) this] obtain ds where
      "web_run E n s' = Some (map (Inr \<circ> WData) ds @ [Inr (WTrailers t)], True)" "concat ds = web_frames fs2"
      by blast
    then show ?thesis using data p by (intro exI [of _ "web_frames fs1 # ds"]) simp
  next
    case (last s')
    obtain k where "n = Suc k" "length (web_inner s') < k"
      using last(3) Suc.prems(2) by (cases n) auto
    with web_run_trailers [OF last(2)] have "web_run E n s' = Some ([Inr (WTrailers t)], True)" by blast
    then show ?thesis using last(1) p by (intro exI [of _ "[web_frames fs]"]) simp
  next
    case (trailers s')
    have "web_run E n s' = Some ([], True)"
      using trailers Suc.prems(2) by (intro web_run_end) simp_all
    then show ?thesis using trailers(1,2) p by (intro exI [of _ "[]"]) simp
  qed
qed simp

subsection \<open>Properties\<close>

text \<open>
  Trailers survive gRPC-Web: a map whose names are distinct, written as a trailers frame,
  is one whole frame by its length field and decodes to a map with the same entries.
\<close>

theorem grpc_web_trailers_round_trip:
  assumes "header_map_laws E" "header_iter_laws E"
    and "\<forall>e \<in> set (hm_iter E h). trailer_entry E e" "distinct (map fst (hm_iter E h))"
    and "length (encode_trailers E h) \<le> u32_max"
  shows "\<exists>frame h'. make_trailers_frame E h = Some frame \<and> grpc_web_frame_total_len frame = Some (length frame) \<and>
            decode_trailers_frame E frame = Inr (Some h') \<and> hm_get E h' = hm_get E h"
proof -
  let ?x = "encode_trailers E h"
  let ?frame = "GRPC_WEB_TRAILERS_BIT # put_u32 (length ?x) @ ?x"
  have m: "make_trailers_frame E h = Some ?frame" using assms(5) by (simp add: make_trailers_frame_def Let_def)
  then obtain h' where h': "decode_trailers_frame E ?frame = Inr (Some h')" "hm_get E h' = map_of (rev (hm_iter E h))"
    using trailers_frame_decodes [OF assms(3,1)] by blast
  have "map_of (rev (hm_iter E h)) = hm_get E h"
    using assms(2,4) map_of_inject_set [of "rev (hm_iter E h)" "hm_iter E h"]
    by (simp add: header_iter_laws_def rev_map [symmetric])
  moreover have "trailers_bytes E ?frame h'"
    using h'(1) assms(5) by (auto simp: trailers_bytes_def u32_max_def)
  then have "grpc_web_frame_total_len ?frame = Some (length ?frame)"
    by (rule trailers_bytes_prefix(2) [where rest = "[]"]) simp_all
  ultimately show ?thesis using m h' by simp
qed

theorem grpc_web_trailers_round_trip_witness:
  "\<exists>frame h'. make_trailers_frame list_ext [(''grpc-status'', ''0''), (''x'', ''y z'')] = Some frame \<and>
      grpc_web_frame_total_len frame = Some (length frame) \<and>
      decode_trailers_frame list_ext frame = Inr (Some h') \<and>
      hm_get list_ext h' = hm_get list_ext [(''grpc-status'', ''0''), (''x'', ''y z'')]"
  using grpc_web_trailers_round_trip [of list_ext "[(''grpc-status'', ''0''), (''x'', ''y z'')]"]
  by (simp add: list_ext_def [THEN arg_cong, of hm_iter] list_ext_def [THEN arg_cong, of hn_parse]
      list_ext_def [THEN arg_cong, of hv_valid] trailer_entry_def proper_entry_def trim_ascii_start_def
      is_ascii_whitespace_def bytes_of_def encode_trailers_def u32_max_def)

text \<open>
  When a name occurs more than once among the trailers, only its last value is read back.
\<close>

theorem repeated_trailer_keeps_last:
  assumes "header_map_laws E" "\<forall>e \<in> set (hm_iter E h). trailer_entry E e"
    and "hm_iter E h = xs @ (k, v) # ys" "k \<notin> fst ` set ys" "make_trailers_frame E h = Some frame"
  shows "\<exists>h'. decode_trailers_frame E frame = Inr (Some h') \<and> hm_get E h' k = Some v"
proof -
  obtain h' where "decode_trailers_frame E frame = Inr (Some h')" "hm_get E h' = map_of (rev (hm_iter E h))"
    using trailers_frame_decodes [OF assms(2,1,5)] by blast
  moreover have "map_of (rev ys) k = None" using assms(4) by (simp add: map_of_eq_None_iff)
  ultimately show ?thesis using assms(3) by (simp add: map_add_def)
qed

theorem repeated_trailer_keeps_last_witness:
  "\<exists>h'. decode_trailers_frame list_ext (the (make_trailers_frame list_ext [(''x'', ''1''), (''x'', ''2'')])) = Inr (Some h') \<and>
      hm_get list_ext h' ''x'' = Some ''2''"
  using repeated_trailer_keeps_last [of list_ext "[(''x'', ''1''), (''x'', ''2'')]" "[(''x'', ''1'')]" "''x''" "''2''" "[]"
      "the (make_trailers_frame list_ext [(''x'', ''1''), (''x'', ''2'')])"]
  by (simp add: list_ext_def [THEN arg_cong, of hm_iter] list_ext_def [THEN arg_cong, of hn_parse]
      list_ext_def [THEN arg_cong, of hv_valid] trailer_entry_def proper_entry_def trim_ascii_start_def
      is_ascii_whitespace_def bytes_of_def make_trailers_frame_def encode_trailers_def u32_max_def)

text \<open>
  Property C19. A gRPC-Web client delivers a response unchanged: whatever the data frames that message
  frames and a trailers frame arrive in, with pending polls anywhere between them, polling the body to
  its end gives data whose bytes are exactly the message frames, then the decoded trailers;
  \<open>length body + 3\<close> polls are enough.
\<close>

theorem grpc_web_client_reads_response:
  assumes "trailers_bytes E T t" "small_frames fs" "list_all is_data body" "body_bytes body = web_frames fs @ T"
    and "length body + 3 \<le> n"
  shows "\<exists>ds. web_run E n (client_response body) = Some (map (Inr \<circ> WData) ds @ [Inr (WTrailers t)], True) \<and>
           concat ds = web_frames fs"
  using assms web_run_reading [OF assms(1), of fs "client_response body" n]
  by (simp add: reading_def client_response_def new_web_call_def)

theorem grpc_web_client_reads_response_witness:
  "\<exists>ds. web_run list_ext 7
          (client_response [BData (message_frame False [7] @ [128, 0]), BPending, BData [], BData [0, 0, 0]]) =
        Some (map (Inr \<circ> WData) ds @ [Inr (WTrailers [])], True) \<and> concat ds = web_frames [(False, [7])]"
  using grpc_web_client_reads_response [of list_ext "[128, 0, 0, 0, 0]" "[]" "[(False, [7])]"
      "[BData (message_frame False [7] @ [128, 0]), BPending, BData [], BData [0, 0, 0]]" 7]
  by (simp add: trailers_bytes_def decode_trailers_frame_def web_constants put_u32_def
      list_ext_def [THEN arg_cong, of hm_new])

end
