(* ===== verification/Grpc_Core.thy ===== *)
theory Grpc_Core
  imports Prelude
begin

text \<open>
  Shared data of the \<open>grpc\<close> crate: its status codes and errors (\<open>grpc/src/status.rs\<close>,
  \<open>grpc/src/status/status_code.rs\<close>), the trailers of a response (\<open>grpc/src/client/mod.rs\<close>) and the
  authority and security level of a connection (\<open>grpc/src/credentials/mod.rs\<close>). Metadata is the list of
  its entries; connection information is a type parameter.
\<close>

subsection \<open>Status\<close>

datatype StatusCodeError =
    Cancelled
  | Unknown
  | InvalidArgument
  | DeadlineExceeded
  | NotFound
  | AlreadyExists
  | PermissionDenied
  | ResourceExhausted
  | FailedPrecondition
  | Aborted
  | OutOfRange
  | Unimplemented
  | Internal
  | Unavailable
  | DataLoss
  | Unauthenticated

definition status_code_from :: "32 word \<Rightarrow> StatusCodeError" where
  "status_code_from i =
     (if i = 1 then Cancelled
      else if i = 2 then Unknown
      else if i = 3 then InvalidArgument
      else if i = 4 then DeadlineExceeded
      else if i = 5 then NotFound
      else if i = 6 then AlreadyExists
      else if i = 7 then PermissionDenied
      else if i = 8 then ResourceExhausted
      else if i = 9 then FailedPrecondition
      else if i = 10 then Aborted
      else if i = 11 then OutOfRange
      else if i = 12 then Unimplemented
      else if i = 13 then Internal
      else if i = 14 then Unavailable
      else if i = 15 then DataLoss
      else if i = 16 then Unauthenticated
      else Unknown)"

record StatusError =
  code :: StatusCodeError
  message :: string

definition status_error :: "StatusCodeError \<Rightarrow> string \<Rightarrow> StatusError" where
  "status_error c m = \<lparr>code = c, message = m\<rparr>"

definition is_restricted_control_plane_code :: "StatusError \<Rightarrow> bool" where
  "is_restricted_control_plane_code s \<longleftrightarrow>
     code s \<in> {InvalidArgument, NotFound, AlreadyExists, FailedPrecondition, Aborted, OutOfRange, DataLoss}"

fun debug_code :: "StatusCodeError \<Rightarrow> string" where
  "debug_code Cancelled = ''Cancelled''"
| "debug_code Unknown = ''Unknown''"
| "debug_code InvalidArgument = ''InvalidArgument''"
| "debug_code DeadlineExceeded = ''DeadlineExceeded''"
| "debug_code NotFound = ''NotFound''"
| "debug_code AlreadyExists = ''AlreadyExists''"
| "debug_code PermissionDenied = ''PermissionDenied''"
| "debug_code ResourceExhausted = ''ResourceExhausted''"
| "debug_code FailedPrecondition = ''FailedPrecondition''"
| "debug_code Aborted = ''Aborted''"
| "debug_code OutOfRange = ''OutOfRange''"
| "debug_code Unimplemented = ''Unimplemented''"
| "debug_code Internal = ''Internal''"
| "debug_code Unavailable = ''Unavailable''"
| "debug_code DataLoss = ''DataLoss''"
| "debug_code Unauthenticated = ''Unauthenticated''"

definition display_status :: "StatusError \<Rightarrow> string" where
  "display_status s = (if message s = [] then debug_code (code s) else debug_code (code s) @ '': '' @ message s)"

definition sanitize_config_selector_status :: "StatusError \<Rightarrow> StatusError" where
  "sanitize_config_selector_status s =
     (if is_restricted_control_plane_code s
      then status_error Internal (''config selector returned illegal status: '' @ display_status s)
      else s)"

subsection \<open>Trailers\<close>

record 'c Trailers =
  status :: "StatusError + unit"
  metadata :: "(string \<times> string) list"
  connection_info :: "'c option"

definition trailers_new :: "StatusError + unit \<Rightarrow> 'c Trailers" where
  "trailers_new st = \<lparr>status = st, metadata = [], connection_info = None\<rparr>"

subsection \<open>Connections\<close>

datatype SecurityLevel = NoSecurity | IntegrityOnly | PrivacyAndIntegrity

fun security_rank :: "SecurityLevel \<Rightarrow> nat" where
  "security_rank NoSecurity = 0"
| "security_rank IntegrityOnly = 1"
| "security_rank PrivacyAndIntegrity = 2"

lemma security_rank_inject [simp]: "security_rank x = security_rank y \<longleftrightarrow> x = y"
  by (cases x; cases y) simp_all

text \<open>The derived order is the order of the variants.\<close>

instantiation SecurityLevel :: linorder
begin

definition less_eq_SecurityLevel :: "SecurityLevel \<Rightarrow> SecurityLevel \<Rightarrow> bool" where
  "less_eq_SecurityLevel x y \<longleftrightarrow> security_rank x \<le> security_rank y"

definition less_SecurityLevel :: "SecurityLevel \<Rightarrow> SecurityLevel \<Rightarrow> bool" where
  "less_SecurityLevel x y \<longleftrightarrow> security_rank x < security_rank y"

instance
  by standard (auto simp: less_eq_SecurityLevel_def less_SecurityLevel_def simp flip: security_rank_inject)

end

text \<open>\<open>str::split_once\<close> and \<open>str::rsplit_once\<close>.\<close>

fun split_once :: "string \<Rightarrow> string \<Rightarrow> (string \<times> string) option" where
  "split_once sep [] = (if sep = [] then Some ([], []) else None)"
| "split_once sep (c # cs) =
     (if take (length sep) (c # cs) = sep then Some ([], drop (length sep) (c # cs))
      else map_option (\<lambda>(a, b). (c # a, b)) (split_once sep cs))"

definition rsplit_once :: "char \<Rightarrow> string \<Rightarrow> (string \<times> string) option" where
  "rsplit_once c s = map_option (\<lambda>(a, b). (rev b, rev a)) (split_once [c] (rev s))"

text \<open>\<open>str::parse::<u16>\<close>.\<close>

definition parse_u16 :: "string \<Rightarrow> nat option" where
  "parse_u16 s = (case parse_u64 s of Some n \<Rightarrow> if n < 2 ^ 16 then Some n else None | None \<Rightarrow> None)"

record Authority =
  host :: string
  port :: "nat option"

definition from_bracketed :: "string \<Rightarrow> Authority option" where
  "from_bracketed s =
     (case s of
        c # stripped \<Rightarrow>
          if c = CHR ''['' then do {
            (h, port_str) \<leftarrow> split_once '']:'' stripped;
            p \<leftarrow> parse_u16 port_str;
            Some \<lparr>host = h, port = Some p\<rparr>
          } else None
      | [] \<Rightarrow> None)"

definition from_unbracketed :: "string \<Rightarrow> Authority option" where
  "from_unbracketed s = do {
     (h, port_str) \<leftarrow> rsplit_once CHR '':'' s;
     if CHR '':'' \<in> set h then None else do {
       p \<leftarrow> parse_u16 port_str;
       Some \<lparr>host = h, port = Some p\<rparr>
     }
   }"

definition from_host_port_str :: "string \<Rightarrow> Authority" where
  "from_host_port_str s =
     (case from_bracketed s of
        Some a \<Rightarrow> a
      | None \<Rightarrow> (case from_unbracketed s of Some a \<Rightarrow> a | None \<Rightarrow> \<lparr>host = s, port = None\<rparr>))"

definition host_port_string :: "Authority \<Rightarrow> string" where
  "host_port_string a =
     (case port a of
        None \<Rightarrow> host a
      | Some p \<Rightarrow> if CHR '':'' \<in> set (host a) then ''['' @ host a @ '']:'' @ show_nat p else host a @ '':'' @ show_nat p)"

subsection \<open>Lemmas\<close>

lemma split_once_char: "c \<notin> set p \<Longrightarrow> split_once [c] (p @ c # rest) = Some (p, rest)"
  by (induction p) auto

lemma split_once_char_None: "split_once [c] s = None \<longleftrightarrow> c \<notin> set s"
  by (induction s) auto

lemma split_once_char_split:
  assumes "split_once [c] s = Some (a, b)"
  shows "s = a @ c # b \<and> c \<notin> set a"
  using assms by (induction s arbitrary: a) (auto split: if_splits)

lemma rsplit_once_split: "rsplit_once c s = Some (a, b) \<longleftrightarrow> s = a @ c # b \<and> c \<notin> set b"
proof
  assume "rsplit_once c s = Some (a, b)"
  then have "split_once [c] (rev s) = Some (rev b, rev a)" by (auto simp: rsplit_once_def)
  from split_once_char_split [OF this] show "s = a @ c # b \<and> c \<notin> set b"
    by (metis append.assoc append_Cons append_Nil rev_append rev_rev_ident rev_singleton_conv set_rev rev.simps(2))
next
  assume "s = a @ c # b \<and> c \<notin> set b"
  then show "rsplit_once c s = Some (a, b)" by (simp add: rsplit_once_def split_once_char)
qed

lemma split_once_bracket:
  "split_once '']:'' h = None \<Longrightarrow> split_once '']:'' (h @ '']:'' @ rest) = Some (h, rest)"
proof (induction h)
  case (Cons c h)
  then have rec: "split_once '']:'' (h @ '']:'' @ rest) = Some (h, rest)" and "take 2 (c # h) \<noteq> '']:''"
    by (auto simp: numeral_2_eq_2 split: if_splits)
  then have "take 2 (c # h @ '']:'' @ rest) \<noteq> '']:''" by (cases h) (auto simp: numeral_2_eq_2)
  with rec show ?case by (simp add: numeral_2_eq_2)
qed simp

lemma digits_show_nat: "c \<in> set (show_nat n) \<Longrightarrow> is_digit c"
  by (induction n rule: show_nat.induct) (subst (asm) show_nat.simps, auto split: if_splits)

lemma parse_u16_show_nat: "n < 2 ^ 16 \<Longrightarrow> parse_u16 (show_nat n) = Some n"
  by (simp add: parse_u16_def parse_u64_show_nat)

text \<open>
  Printing an authority and parsing the text gives the authority back, for every port and every
  host that is not itself written with a bracket or, without a port, as \<open>host:port\<close>; IPv6 hosts included.
\<close>

theorem authority_round_trip:
  assumes "case port a of Some p \<Rightarrow> p < 2 ^ 16 | None \<Rightarrow> count_list (host a) CHR '':'' \<noteq> 1"
    and "take 1 (host a) \<noteq> ''[''" and "split_once '']:'' (host a) = None"
  shows "from_host_port_str (host_port_string a) = a"
proof -
  have no_colon: "CHR '':'' \<notin> set (show_nat p)" for p
    using digits_show_nat [of "CHR '':''" p] by (auto simp: is_digit_def)
  have plain: "from_bracketed (host a @ s) = None" if "host a \<noteq> []" for s
    using assms(2) that by (cases "host a") (auto simp: from_bracketed_def)
  show ?thesis
  proof (cases "port a")
    case None
    then have count: "count_list (host a) CHR '':'' \<noteq> 1" using assms(1) by simp
    have "from_bracketed (host a) = None" using plain [of "[]"] by (cases "host a = []") (simp_all add: from_bracketed_def)
    moreover have "from_unbracketed (host a) = None"
    proof (cases "rsplit_once CHR '':'' (host a)")
      case (Some hp)
      obtain h q where hp: "hp = (h, q)" by (cases hp)
      with Some have "host a = h @ CHR '':'' # q" "CHR '':'' \<notin> set q" by (simp_all add: rsplit_once_split)
      with count have "CHR '':'' \<in> set h" using count_notin by fastforce
      with Some hp show ?thesis by (simp add: from_unbracketed_def)
    qed (simp add: from_unbracketed_def)
    ultimately show ?thesis using None by (simp add: from_host_port_str_def host_port_string_def)
  next
    case (Some p)
    with assms(1) have p: "parse_u16 (show_nat p) = Some p" by (simp add: parse_u16_show_nat)
    show ?thesis
    proof (cases "CHR '':'' \<in> set (host a)")
      case True
      have "from_bracketed (host_port_string a) = Some \<lparr>host = host a, port = Some p\<rparr>"
        using Some True p split_once_bracket [OF assms(3), of "show_nat p"]
        by (simp add: from_bracketed_def host_port_string_def)
      with Some show ?thesis by (simp add: from_host_port_str_def)
    next
      case False
      have "from_unbracketed (host_port_string a) = Some \<lparr>host = host a, port = Some p\<rparr>"
        using Some False p no_colon [of p] rsplit_once_split [of "CHR '':''" "host a @ '':'' @ show_nat p" "host a" "show_nat p"]
        by (simp add: from_unbracketed_def host_port_string_def)
      moreover have "from_bracketed (host_port_string a) = None"
        using plain [of "'':'' @ show_nat p"] Some False
        by (cases "host a = []") (simp_all add: from_bracketed_def host_port_string_def)
      ultimately show ?thesis using Some by (simp add: from_host_port_str_def)
    qed
  qed
qed

theorem authority_round_trip_witness:
  "from_host_port_str (host_port_string \<lparr>host = ''::1'', port = Some 8080\<rparr>) = \<lparr>host = ''::1'', port = Some 8080\<rparr>"
  by (rule authority_round_trip) simp_all

end
