(* ===== verification/Lb_Common.thy ===== *)
theory Lb_Common
  imports Grpc_Core
begin

text \<open>
  The data that the load-balancing policies of \<open>grpc/src/client/load_balancing\<close> share: addresses and
  endpoints, connectivity states, and what a policy does to its channel. A subchannel is identified by
  its address; the calls a policy makes on its \<open>ChannelController\<close> and on subchannels are the list of
  \<open>action\<close>s it has taken. The attributes of an address are a type parameter.
\<close>

datatype ConnectivityState = Idle | Connecting | ReadyState | TransientFailure

record SubchannelState =
  connectivity_state :: ConnectivityState
  last_connection_error :: "string option"

definition idle :: SubchannelState where
  "idle = \<lparr>connectivity_state = Idle, last_connection_error = None\<rparr>"

definition connecting :: SubchannelState where
  "connecting = \<lparr>connectivity_state = Connecting, last_connection_error = None\<rparr>"

definition ready :: SubchannelState where
  "ready = \<lparr>connectivity_state = ReadyState, last_connection_error = None\<rparr>"

definition transient_failure :: "string \<Rightarrow> SubchannelState" where
  "transient_failure e = \<lparr>connectivity_state = TransientFailure, last_connection_error = Some e\<rparr>"

lemma subchannel_state_simps [simp]:
  "connectivity_state idle = Idle" "connectivity_state connecting = Connecting"
  "connectivity_state ready = ReadyState" "connectivity_state (transient_failure e) = TransientFailure"
  "last_connection_error (transient_failure e) = Some e" "last_connection_error idle = None"
  "last_connection_error connecting = None" "last_connection_error ready = None"
  by (simp_all add: idle_def connecting_def ready_def transient_failure_def)

record 'a Address =
  network_type :: string
  address :: string
  attributes :: 'a

record 'a Endpoint =
  addresses :: "'a Address list"
  endpoint_attributes :: 'a

definition TCP_IP_NETWORK_TYPE :: string where "TCP_IP_NETWORK_TYPE = ''tcp''"

datatype 'a Picker =
    QueuingPicker
  | FailingPicker string
  | OneSubchannelPicker "'a Address"
  | IdlePicker

datatype 'a PickResult =
    PickSubchannel "'a Address"
  | QueuePick
  | FailPick StatusError
  | DropPick StatusError

definition queuing_pick :: "'a PickResult" where
  "queuing_pick = QueuePick"

definition failing_pick :: "string \<Rightarrow> 'a PickResult" where
  "failing_pick e = FailPick (status_error Unavailable e)"

definition one_subchannel_pick :: "'a Address \<Rightarrow> 'a PickResult" where
  "one_subchannel_pick sc = PickSubchannel sc"

text \<open>The idle picker's result, its new \<open>triggered_work\<close> and whether it scheduled the policy's work.\<close>

definition idle_pick :: "bool \<Rightarrow> 'a PickResult \<times> bool \<times> bool" where
  "idle_pick triggered_work = (QueuePick, True, \<not> triggered_work)"

text \<open>\<open>Picker::pick\<close> of a picker, with the \<open>triggered_work\<close> an idle picker carries.\<close>

fun pick :: "'a Picker \<Rightarrow> bool \<Rightarrow> 'a PickResult \<times> bool \<times> bool" where
  "pick QueuingPicker triggered = (queuing_pick, triggered, False)"
| "pick (FailingPicker e) triggered = (failing_pick e, triggered, False)"
| "pick (OneSubchannelPicker a) triggered = (one_subchannel_pick a, triggered, False)"
| "pick IdlePicker triggered = idle_pick triggered"

lemmas pick_defs = queuing_pick_def failing_pick_def one_subchannel_pick_def idle_pick_def

datatype 'a action =
    NewSubchannel "'a Address"
  | Connect "'a Address"
  | UpdatePicker ConnectivityState "'a Picker"
  | RequestResolution

end
