(* ===== verification/Pick_First.thy ===== *)
theory Pick_First
  imports Lb_Common "HOL-Library.Multiset"
begin

text \<open>
  \<open>grpc/src/client/load_balancing/pick_first.rs\<close>: the pick-first policy with its happy-eyeballs
  passes. Handlers take and return the policy's state; \<open>None\<close> is a panic. The timer is \<open>Some\<close> of
  whether it has expired. What the environment supplies (the state of a new subchannel, the shuffler)
  is an argument.
\<close>

record SteadyState =
  failure_threshold :: nat
  failure_count :: nat

record 'a PickFirst =
  pf_state :: ConnectivityState
  subchannels :: "'a Address list"
  subchannel_states :: "'a Address \<rightharpoonup> SubchannelState"
  selected :: "'a Address option"
  frontier_index :: nat
  last_error :: "string option"
  resolution_note :: "string option"
  timer :: "bool option"
  steady_state :: "SteadyState option"
  actions :: "'a action list"

definition pick_first_build :: "'a PickFirst" where
  "pick_first_build =
     \<lparr>pf_state = Idle, subchannels = [], subchannel_states = Map.empty, selected = None, frontier_index = 0,
      last_error = None, resolution_note = None, timer = None, steady_state = None, actions = []\<rparr>"

definition emit :: "'a action \<Rightarrow> 'a PickFirst \<Rightarrow> 'a PickFirst" where
  "emit a s = s\<lparr>actions := actions s @ [a]\<rparr>"

subsection \<open>Address lists\<close>

fun dedup :: "'b set \<Rightarrow> 'b list \<Rightarrow> 'b list" where
  "dedup seen [] = []"
| "dedup seen (x # xs) = (if x \<in> seen then dedup seen xs else x # dedup (insert x seen) xs)"

function interleave3 :: "'b list \<Rightarrow> 'b list \<Rightarrow> 'b list \<Rightarrow> 'b list" where
  "interleave3 xs ys zs =
     (if xs = [] \<and> ys = [] \<and> zs = [] then []
      else take 1 xs @ take 1 ys @ take 1 zs @ interleave3 (drop 1 xs) (drop 1 ys) (drop 1 zs))"
  by pat_completeness auto
termination
proof (relation "measure (\<lambda>(xs, ys, zs). length xs + length ys + length zs)")
  fix xs ys zs :: "'b list"
  assume "\<not> (xs = [] \<and> ys = [] \<and> zs = [])"
  then show "((drop 1 xs, drop 1 ys, drop 1 zs), xs, ys, zs) \<in> measure (\<lambda>(xs, ys, zs). length xs + length ys + length zs)"
    by (cases xs; cases ys; cases zs) auto
qed simp

declare interleave3.simps [simp del]

definition is_tcp :: "'a Address \<Rightarrow> bool" where
  "is_tcp a \<longleftrightarrow> network_type a = TCP_IP_NETWORK_TYPE"

definition is_ipv6 :: "'a Address \<Rightarrow> bool" where
  "is_ipv6 a \<longleftrightarrow> CHR '':'' \<in> set (address a)"

definition compile_address ::
    "('a Endpoint list \<Rightarrow> 'a Endpoint list) \<Rightarrow> bool \<Rightarrow> 'a Endpoint list \<Rightarrow> 'a Address list" where
  "compile_address shuffler shuffle_address_list endpoints =
     (let eps = (if shuffle_address_list then shuffler endpoints else endpoints);
          unique_addresses = dedup {} (concat (map addresses eps));
          tcp = filter is_tcp unique_addresses;
          unknown = filter (\<lambda>a. \<not> is_tcp a) unique_addresses;
          ipv6 = filter is_ipv6 tcp;
          ipv4 = filter (\<lambda>a. \<not> is_ipv6 a) tcp
      in interleave3 ipv6 ipv4 unknown)"

subsection \<open>Pickers\<close>

definition update_picker :: "ConnectivityState \<Rightarrow> 'a Picker \<Rightarrow> 'a PickFirst \<Rightarrow> 'a PickFirst" where
  "update_picker st picker s =
     (if pf_state s = st \<and> st = Connecting then s
      else emit (UpdatePicker st picker) (s\<lparr>pf_state := st\<rparr>))"

definition subchannel_drop :: "'a PickFirst \<Rightarrow> 'a PickFirst" where
  "subchannel_drop s = update_picker Idle IdlePicker (s\<lparr>selected := None\<rparr>)"

definition subchannel_is_selected :: "'a Address \<Rightarrow> 'a PickFirst \<Rightarrow> bool" where
  "subchannel_is_selected a s \<longleftrightarrow> selected s = Some a"

definition subchannel_is_current :: "'a Address \<Rightarrow> 'a PickFirst \<Rightarrow> bool" where
  "subchannel_is_current a s \<longleftrightarrow> a \<in> set (subchannels s)"

definition subchannel_activate :: "'a Address \<Rightarrow> 'a PickFirst \<Rightarrow> 'a PickFirst" where
  "subchannel_activate a s =
     (if subchannel_is_selected a s then s
      else update_picker ReadyState (OneSubchannelPicker a)
             (s\<lparr>selected := Some a, subchannels := [a], steady_state := None, timer := None\<rparr>))"

text \<open>Every outcome of \<open>set_transient_failure\<close> is an error, the text it reports.\<close>

definition set_transient_failure :: "string option \<Rightarrow> 'a PickFirst \<Rightarrow> (string \<times> 'a PickFirst) option" where
  "set_transient_failure error s =
     (case (case error of Some e \<Rightarrow> Some e | None \<Rightarrow> last_error s) of
        None \<Rightarrow> None
      | Some e \<Rightarrow>
          (let err = (case resolution_note s of
                        Some note \<Rightarrow> if note \<noteq> [] then e @ '' ('' @ note @ '')'' else e
                      | None \<Rightarrow> e)
           in Some (err, emit RequestResolution
                (update_picker TransientFailure (FailingPicker err) (s\<lparr>last_error := Some e\<rparr>)))))"

subsection \<open>Connection passes\<close>

fun scan_frontier ::
    "('a Address \<rightharpoonup> SubchannelState) \<Rightarrow> 'a Address list \<Rightarrow> nat \<Rightarrow> ('a Address option \<times> nat) option" where
  "scan_frontier states [] i = Some (None, i)"
| "scan_frontier states (a # as) i =
     (case states a of
        None \<Rightarrow> None
      | Some st \<Rightarrow>
          if connectivity_state st = TransientFailure then scan_frontier states as (i + 1) else Some (Some a, i))"

definition advance_frontier :: "bool \<Rightarrow> 'a PickFirst \<Rightarrow> ('a Address option \<times> 'a PickFirst) option" where
  "advance_frontier reset s =
     (let i = (if reset then 0 else frontier_index s + 1)
      in map_option (\<lambda>(r, j). (r, s\<lparr>frontier_index := j\<rparr>))
           (scan_frontier (subchannel_states s) (drop i (subchannels s)) i))"

definition trigger_subchannel_connection :: "'a Address \<Rightarrow> 'a PickFirst \<Rightarrow> 'a PickFirst" where
  "trigger_subchannel_connection a s =
     (emit (Connect a) (s\<lparr>subchannel_states := (subchannel_states s)(a \<mapsto> connecting)\<rparr>))\<lparr>timer := Some False\<rparr>"

definition start_connection_pass :: "'a PickFirst \<Rightarrow> 'a PickFirst option" where
  "start_connection_pass s = do {
     (r, s1) \<leftarrow> advance_frontier True (s\<lparr>selected := None\<rparr>);
     (case r of
        Some a \<Rightarrow> Some (update_picker Connecting QueuingPicker (trigger_subchannel_connection a s1))
      | None \<Rightarrow> map_option snd (set_transient_failure None s1))
   }"

definition in_state :: "ConnectivityState \<Rightarrow> 'a PickFirst \<Rightarrow> 'a Address \<Rightarrow> bool" where
  "in_state c s a \<longleftrightarrow> (case subchannel_states s a of Some st \<Rightarrow> connectivity_state st = c | None \<Rightarrow> False)"

text \<open>The two halves of \<open>update_first_pass\<close>: moving the frontier past a failure, and the end of the pass.\<close>

definition frontier_failure :: "'a Address \<Rightarrow> SubchannelState \<Rightarrow> 'a PickFirst \<Rightarrow> 'a PickFirst option" where
  "frontier_failure a st s =
     (if frontier_index s < length (subchannels s) \<and> subchannels s ! frontier_index s = a \<and>
         connectivity_state st = TransientFailure then
        map_option (\<lambda>(r, s1). case r of Some b \<Rightarrow> trigger_subchannel_connection b s1 | None \<Rightarrow> s1)
          (advance_frontier False s)
      else Some s)"

definition finish_first_pass :: "'a PickFirst \<Rightarrow> 'a PickFirst option" where
  "finish_first_pass s =
     (if length (subchannels s) \<le> frontier_index s \<and> \<not> (\<exists>a \<in> set (subchannels s). in_state Connecting s a) then do {
        (_, s1) \<leftarrow> set_transient_failure (last_error s) (s\<lparr>timer := None\<rparr>);
        let s2 = s1\<lparr>steady_state := Some \<lparr>failure_threshold = length (subchannels s1), failure_count = 0\<rparr>\<rparr>;
        Some (foldl (\<lambda>t a. if in_state Idle t a then emit (Connect a) t else t) s2 (subchannels s2))
      }
      else Some s)"

definition update_first_pass :: "'a Address \<Rightarrow> SubchannelState \<Rightarrow> 'a PickFirst \<Rightarrow> 'a PickFirst option" where
  "update_first_pass a st s = do { s1 \<leftarrow> frontier_failure a st s; finish_first_pass s1 }"

definition subchannel_nonready :: "SteadyState \<Rightarrow> 'a Address \<Rightarrow> SubchannelState \<Rightarrow> 'a PickFirst \<Rightarrow> 'a PickFirst" where
  "subchannel_nonready steady a st s =
     (case connectivity_state st of
        Idle \<Rightarrow> emit (Connect a) s
      | TransientFailure \<Rightarrow>
          (let n = failure_count steady + 1
           in if failure_threshold steady \<le> n
              then emit RequestResolution (s\<lparr>steady_state := Some (steady\<lparr>failure_count := 0\<rparr>)\<rparr>)
              else s\<lparr>steady_state := Some (steady\<lparr>failure_count := n\<rparr>)\<rparr>)
      | _ \<Rightarrow> s)"

definition subchannel_update :: "'a Address \<Rightarrow> SubchannelState \<Rightarrow> 'a PickFirst \<Rightarrow> 'a PickFirst option" where
  "subchannel_update a st s =
     (if \<not> subchannel_is_current a s then Some s
      else
        (let s1 = s\<lparr>subchannel_states := (subchannel_states s)(a \<mapsto> st)\<rparr>
         in if subchannel_is_selected a s1 then
              (if connectivity_state st = ReadyState then Some s1 else Some (subchannel_drop s1))
            else if connectivity_state st = ReadyState then Some (subchannel_activate a s1)
            else
              (let s2 = (if connectivity_state st = TransientFailure then
                           (case last_connection_error st of Some e \<Rightarrow> s1\<lparr>last_error := Some e\<rparr> | None \<Rightarrow> s1)
                         else s1)
               in case steady_state s2 of
                    Some steady \<Rightarrow> Some (subchannel_nonready steady a st s2)
                  | None \<Rightarrow> update_first_pass a st s2)))"

subsection \<open>Handlers\<close>

text \<open>
  The loop of \<open>rebuild_subchannels\<close>: existing subchannels keep their cached state, new ones come from
  the controller with a state it gives. The accumulator is the new list, the new states, the candidate
  for activation and the actions.
\<close>

type_synonym 'a rebuilt = "'a Address list \<times> ('a Address \<rightharpoonup> SubchannelState) \<times> 'a Address option \<times> 'a action list"

fun rebuild_loop ::
    "('a Address \<Rightarrow> SubchannelState) \<Rightarrow> 'a PickFirst \<Rightarrow> 'a Address list \<Rightarrow> 'a Address list \<Rightarrow> 'a rebuilt \<Rightarrow> 'a rebuilt option" where
  "rebuild_loop fresh s existing [] acc = Some acc"
| "rebuild_loop fresh s existing (a # as) (subs, states, candidate, acts) =
     (case (if a \<in> set existing then map_option (\<lambda>st. (st, [])) (subchannel_states s a)
            else Some (fresh a, [NewSubchannel a])) of
        None \<Rightarrow> None
      | Some (st, new) \<Rightarrow>
          (let candidate' =
                 (if connectivity_state st = ReadyState then
                    (if subchannel_is_selected a s then Some a
                     else if candidate = None then Some a else candidate)
                  else candidate)
           in rebuild_loop fresh s (removeAll a existing) as
                (subs @ [a], states(a \<mapsto> st), candidate', acts @ new)))"

definition rebuild_subchannels ::
    "('a Address \<Rightarrow> SubchannelState) \<Rightarrow> 'a Address list \<Rightarrow> 'a PickFirst \<Rightarrow> ('a Address option \<times> 'a PickFirst) option" where
  "rebuild_subchannels fresh new_addresses s =
     map_option (\<lambda>(subs, states, candidate, acts).
         (candidate, s\<lparr>subchannels := subs, subchannel_states := states, actions := actions s @ acts\<rparr>))
       (rebuild_loop fresh s (subchannels s) new_addresses ([], Map.empty, None, []))"

definition resolver_update ::
    "('a Address \<Rightarrow> SubchannelState) \<Rightarrow> ('a Endpoint list \<Rightarrow> 'a Endpoint list) \<Rightarrow> bool \<Rightarrow>
     string + 'a Endpoint list \<Rightarrow> string option \<Rightarrow> 'a PickFirst \<Rightarrow> ((string + unit) \<times> 'a PickFirst) option" where
  "resolver_update fresh shuffler shuffle_address_list endpoints note s =
     (let s1 = s\<lparr>timer := None, steady_state := None, resolution_note := note\<rparr>
      in case endpoints of
           Inr eps \<Rightarrow>
             (let new_addresses = compile_address shuffler shuffle_address_list eps
              in if new_addresses = [] then
                   map_option (\<lambda>(e, t). (Inl e, t))
                     (set_transient_failure (Some ''empty address list'') (s1\<lparr>subchannels := [], selected := None\<rparr>))
                 else do {
                   (candidate, s2) \<leftarrow> rebuild_subchannels fresh new_addresses s1;
                   (case candidate of
                      Some a \<Rightarrow> Some (Inr (), subchannel_activate a s2)
                    | None \<Rightarrow> map_option (\<lambda>t. (Inr (), t)) (start_connection_pass s2))
                 })
         | Inl e \<Rightarrow>
             if subchannels s1 = [] \<or> pf_state s1 = TransientFailure
             then map_option (\<lambda>(e, t). (Inl e, t)) (set_transient_failure (Some e) s1)
             else Some (Inr (), s1))"

definition exit_idle :: "'a PickFirst \<Rightarrow> 'a PickFirst option" where
  "exit_idle s = (if pf_state s = Idle \<and> subchannels s \<noteq> [] then start_connection_pass s else Some s)"

text \<open>\<open>work\<close> with a subchannel update, and without data (an idle picker was used, or the timer fired).\<close>

definition work :: "('a Address \<times> SubchannelState) option \<Rightarrow> 'a PickFirst \<Rightarrow> 'a PickFirst option" where
  "work data s =
     (case data of
        Some (a, st) \<Rightarrow> subchannel_update a st s
      | None \<Rightarrow>
          if pf_state s = Idle then exit_idle s
          else if timer s = Some True then
            map_option (\<lambda>(r, s1). case r of Some b \<Rightarrow> trigger_subchannel_connection b s1 | None \<Rightarrow> s1)
              (advance_frontier False s)
          else Some s)"

definition timer_fires :: "'a PickFirst \<Rightarrow> 'a PickFirst" where
  "timer_fires s = s\<lparr>timer := map_option (\<lambda>_. True) (timer s)\<rparr>"

datatype 'a pf_event =
    Resolved "'a Address \<Rightarrow> SubchannelState" "'a Endpoint list \<Rightarrow> 'a Endpoint list" bool "string + 'a Endpoint list" "string option"
  | Work "('a Address \<times> SubchannelState) option"
  | ExitIdle
  | TimerFires

fun pf_step :: "'a pf_event \<Rightarrow> 'a PickFirst \<Rightarrow> 'a PickFirst option" where
  "pf_step (Resolved fresh shuffler shuffle endpoints note) s =
     map_option snd (resolver_update fresh shuffler shuffle endpoints note s)"
| "pf_step (Work data) s = work data s"
| "pf_step ExitIdle s = exit_idle s"
| "pf_step TimerFires s = Some (timer_fires s)"

text \<open>Addresses for examples.\<close>

abbreviation tcp_address :: "string \<Rightarrow> unit Address" where
  "tcp_address x \<equiv> \<lparr>network_type = ''tcp'', address = x, attributes = ()\<rparr>"

abbreviation endpoint :: "unit Address list \<Rightarrow> unit Endpoint" where
  "endpoint as \<equiv> \<lparr>addresses = as, endpoint_attributes = ()\<rparr>"

subsection \<open>The order of addresses\<close>

lemma set_dedup: "set (dedup S xs) = set xs - S"
  by (induction S xs rule: dedup.induct) auto

lemma remdups_snoc: "remdups (xs @ [x]) = filter (\<lambda>y. y \<noteq> x) (remdups xs) @ [x]"
  by (induction xs) auto

lemma dedup_remdups: "dedup S xs = filter (\<lambda>x. x \<notin> S) (rev (remdups (rev xs)))"
proof (induction S xs rule: dedup.induct)
  case (2 S x xs)
  have "remdups (rev xs @ [x]) = filter (\<lambda>y. y \<noteq> x) (remdups (rev xs)) @ [x]"
    by (rule remdups_snoc)
  then show ?case
    using 2 by (auto simp: rev_filter filter_filter conj_commute intro!: filter_cong)
qed simp

lemma mset_interleave3 [simp]: "mset (interleave3 xs ys zs) = mset xs + mset ys + mset zs"
proof (induction xs ys zs rule: interleave3.induct)
  case (1 xs ys zs)
  have part: "mset (take 1 us) + mset (drop 1 us) = mset us" for us :: "'a list"
    by (metis append_take_drop_id mset_append)
  show ?case
  proof (cases "xs = [] \<and> ys = [] \<and> zs = []")
    case False
    then have "mset (interleave3 xs ys zs) =
        (mset (take 1 xs) + mset (drop 1 xs)) + (mset (take 1 ys) + mset (drop 1 ys)) + (mset (take 1 zs) + mset (drop 1 zs))"
      using "1.IH" [OF False] by (simp only: interleave3.simps [of xs ys zs] if_False mset_append ac_simps)
    then show ?thesis by (simp only: part)
  qed (simp add: interleave3.simps)
qed

lemma set_interleave3 [simp]: "set (interleave3 xs ys zs) = set xs \<union> set ys \<union> set zs"
  by (simp only: set_mset_mset [symmetric] mset_interleave3 set_mset_union)

lemma distinct_interleave3:
  assumes "distinct (xs @ ys @ zs)"
  shows "distinct (interleave3 xs ys zs)"
  using assms mset_eq_imp_distinct_iff [of "interleave3 xs ys zs" "xs @ ys @ zs"] by simp

lemma map_interleave3: "map f (interleave3 xs ys zs) = interleave3 (map f xs) (map f ys) (map f zs)"
proof (induction xs ys zs rule: interleave3.induct)
  case (1 xs ys zs)
  show ?case
  proof (cases "xs = [] \<and> ys = [] \<and> zs = []")
    case False
    then show ?thesis
      using "1.IH" [OF False]
      by (simp only: interleave3.simps [of xs ys zs] interleave3.simps [of "map f xs" "map f ys" "map f zs"]
          if_False map_is_Nil_conv map_append take_map drop_map)
  qed (simp add: interleave3.simps)
qed

lemma sorted_interleave3_indices:
  "sorted (interleave3 (map ((*) 3) [n..<a]) (map (\<lambda>i. 3 * i + 1) [n..<b]) (map (\<lambda>i. 3 * i + 2) [n..<c :: nat]))"
proof (induction "a + b + c - n" arbitrary: n rule: less_induct)
  case less
  let ?xs = "map ((*) 3) [n..<a]" and ?ys = "map (\<lambda>i. 3 * i + 1) [n..<b]" and ?zs = "map (\<lambda>i. 3 * i + 2) [n..<c]"
  show ?case
  proof (cases "a \<le> n \<and> b \<le> n \<and> c \<le> n")
    case True
    then show ?thesis by (simp add: interleave3.simps)
  next
    case False
    then have head: "take 1 ?xs @ take 1 ?ys @ take 1 ?zs =
        (if n < a then [3 * n] else []) @ (if n < b then [3 * n + 1] else []) @ (if n < c then [3 * n + 2] else [])"
      and rest: "drop 1 ?xs = map ((*) 3) [Suc n..<a]" "drop 1 ?ys = map (\<lambda>i. 3 * i + 1) [Suc n..<b]"
        "drop 1 ?zs = map (\<lambda>i. 3 * i + 2) [Suc n..<c]"
      by (auto simp: upt_rec [of n] drop_map)
    let ?r = "interleave3 (map ((*) 3) [Suc n..<a]) (map (\<lambda>i. 3 * i + 1) [Suc n..<b]) (map (\<lambda>i. 3 * i + 2) [Suc n..<c])"
    from False have "\<not> (?xs = [] \<and> ?ys = [] \<and> ?zs = [])" by (simp only: map_is_Nil_conv upt_eq_Nil_conv) linarith
    then have eq: "interleave3 ?xs ?ys ?zs = (take 1 ?xs @ take 1 ?ys @ take 1 ?zs) @ ?r"
      by (simp only: interleave3.simps [of ?xs ?ys ?zs] if_False rest append_assoc)
    from False have "sorted ?r" by (intro less) auto
    moreover have "\<forall>x \<in> set ?r. 3 * n + 3 \<le> x" by auto
    ultimately show ?thesis
      unfolding eq head by (auto simp: sorted_append)
  qed
qed

text \<open>The three families \<open>compile_address\<close> interleaves, in the order of a round.\<close>

definition family :: "'a Address \<Rightarrow> nat" where
  "family a = (if is_tcp a then if is_ipv6 a then 0 else 1 else 2)"

definition rank :: "'b list \<Rightarrow> 'b \<Rightarrow> nat" where
  "rank xs x = length (takeWhile (\<lambda>y. y \<noteq> x) xs)"

lemma map_rank: "distinct xs \<Longrightarrow> map (rank xs) xs = [0..<length xs]"
proof (rule nth_equalityI)
  fix i
  assume d: "distinct xs" and i: "i < length (map (rank xs) xs)"
  then have "takeWhile (\<lambda>y. y \<noteq> xs ! i) xs = take i xs"
    by (intro takeWhile_eq_take_P_nth) (auto simp: nth_eq_iff_index_eq)
  with i show "map (rank xs) xs ! i = [0..<length xs] ! i" by (simp add: rank_def)
qed simp


lemma compile_address_distinct: "distinct (compile_address shuffler shuffle eps)"
  and set_compile_address:
    "set (compile_address shuffler shuffle eps) = (\<Union>ep \<in> set (if shuffle then shuffler eps else eps). set (addresses ep))"
  unfolding compile_address_def Let_def
  by (auto simp: set_dedup dedup_remdups intro!: distinct_interleave3)

text \<open>
  The address list of a resolver update has every address of its (shuffled) endpoints exactly
  once, and the order is round-robin over the three families: sorting by the address's position within
  its family, in the order the endpoints first list it, and then by IPv6, IPv4, other.
\<close>

theorem compile_address_order:
  "let src = concat (map addresses (if shuffle then shuffler eps else eps));
       result = compile_address shuffler shuffle eps
   in distinct result \<and> set result = set src \<and>
      sorted (map (\<lambda>a. 3 * rank (filter (\<lambda>b. family b = family a) (rev (remdups (rev src)))) a + family a) result)"
proof -
  define src where "src = concat (map addresses (if shuffle then shuffler eps else eps))"
  define u where "u = rev (remdups (rev src))"
  define fam where "fam f = filter (\<lambda>b. family b = f) u" for f
  have u: "dedup {} src = u" "distinct u" "set u = set src"
    by (simp_all add: u_def dedup_remdups)
  have result: "compile_address shuffler shuffle eps = interleave3 (fam 0) (fam 1) (fam 2)"
    unfolding compile_address_def Let_def src_def [symmetric] u fam_def
    by (intro arg_cong3 [where f = interleave3]) (auto simp: family_def intro!: filter_cong)
  have key: "map (\<lambda>a. 3 * rank (fam (family a)) a + family a) (fam f) = map (\<lambda>i. 3 * i + f) [0..<length (fam f)]" for f
  proof -
    have "map (\<lambda>a. 3 * rank (fam (family a)) a + family a) (fam f) = map (\<lambda>i. 3 * i + f) (map (rank (fam f)) (fam f))"
      by (auto simp: fam_def)
    also have "map (rank (fam f)) (fam f) = [0..<length (fam f)]"
      by (rule map_rank) (simp add: fam_def u)
    finally show ?thesis .
  qed
  have "sorted (map (\<lambda>a. 3 * rank (fam (family a)) a + family a) (interleave3 (fam 0) (fam 1) (fam 2)))"
    using sorted_interleave3_indices [of 0] by (simp add: map_interleave3 key)
  moreover have "distinct (interleave3 (fam 0) (fam 1) (fam 2))"
    by (rule distinct_interleave3) (auto simp: fam_def u)
  moreover have "set (interleave3 (fam 0) (fam 1) (fam 2)) = set src"
    by (auto simp: fam_def u family_def)
  ultimately show ?thesis
    by (simp only: Let_def src_def [symmetric] result) (simp only: fam_def u_def simp_thms)
qed

subsection \<open>Rebuilding the subchannel list\<close>

text \<open>What the rebuilt list knows of an address, and the subchannel it activates at once.\<close>

definition kept :: "('a Address \<Rightarrow> SubchannelState) \<Rightarrow> 'a PickFirst \<Rightarrow> 'a Address \<Rightarrow> SubchannelState" where
  "kept fresh s a = (if a \<in> set (subchannels s) then the (subchannel_states s a) else fresh a)"

definition kept_map :: "('a Address \<Rightarrow> SubchannelState) \<Rightarrow> 'a PickFirst \<Rightarrow> 'a Address list \<Rightarrow> 'a Address \<rightharpoonup> SubchannelState" where
  "kept_map fresh s as = (\<lambda>a. if a \<in> set as then Some (kept fresh s a) else None)"

definition ready_candidate ::
    "('a Address \<Rightarrow> SubchannelState) \<Rightarrow> 'a PickFirst \<Rightarrow> 'a Address list \<Rightarrow> 'a Address option" where
  "ready_candidate fresh s as =
     (let ready_list = filter (\<lambda>a. connectivity_state (kept fresh s a) = ReadyState) as
      in if \<exists>a \<in> set ready_list. selected s = Some a then selected s
         else if ready_list = [] then None else Some (hd ready_list))"

definition sticky :: "('a Address \<Rightarrow> SubchannelState) \<Rightarrow> 'a PickFirst \<Rightarrow> 'a Address list \<Rightarrow> bool" where
  "sticky fresh s as \<longleftrightarrow> (\<exists>a \<in> set as. selected s = Some a \<and> connectivity_state (kept fresh s a) = ReadyState)"

lemma sticky_Cons:
  "sticky fresh s (a # as) \<longleftrightarrow>
     selected s = Some a \<and> connectivity_state (kept fresh s a) = ReadyState \<or> sticky fresh s as"
  by (auto simp: sticky_def)

lemma ready_candidate_Cons:
  "ready_candidate fresh s (a # as) =
     (if connectivity_state (kept fresh s a) = ReadyState \<and> (selected s = Some a \<or> \<not> sticky fresh s as) then Some a
      else ready_candidate fresh s as)"
  by (auto simp: ready_candidate_def sticky_def Let_def)

lemma ready_candidate_None:
  "ready_candidate fresh s as = None \<longleftrightarrow> (\<forall>a \<in> set as. connectivity_state (kept fresh s a) \<noteq> ReadyState)"
  by (auto simp: ready_candidate_def Let_def filter_empty_conv)

lemma rebuild_loop_spec:
  assumes "distinct as" and "set (subchannels s) \<subseteq> dom (subchannel_states s)"
    and "\<forall>a \<in> set as. a \<in> set existing \<longleftrightarrow> a \<in> set (subchannels s)"
  shows "rebuild_loop fresh s existing as (subs, states, candidate, acts) =
    Some (subs @ as, states ++ kept_map fresh s as,
      (if candidate = None \<or> sticky fresh s as
       then ready_candidate fresh s as else candidate),
      acts @ map NewSubchannel (filter (\<lambda>a. a \<notin> set (subchannels s)) as))"
  using assms
proof (induction as arbitrary: existing subs states candidate acts)
  case Nil
  then show ?case by (simp add: ready_candidate_def sticky_def kept_map_def map_add_def)
next
  case (Cons a as)
  have upd: "states(a \<mapsto> kept fresh s a) ++ kept_map fresh s as = states ++ kept_map fresh s (a # as)"
    by (auto simp: map_add_def fun_eq_iff kept_map_def)
  have st: "(if a \<in> set existing then map_option (\<lambda>st. (st, [])) (subchannel_states s a)
      else Some (fresh a, [NewSubchannel a])) =
      Some (kept fresh s a, if a \<in> set (subchannels s) then [] else [NewSubchannel a])"
    using Cons.prems by (auto simp: kept_def)
  have rec: "rebuild_loop fresh s (removeAll a existing) as (subs', states', candidate', acts') =
    Some (subs' @ as, states' ++ kept_map fresh s as,
      (if candidate' = None \<or> sticky fresh s as
       then ready_candidate fresh s as else candidate'),
      acts' @ map NewSubchannel (filter (\<lambda>a. a \<notin> set (subchannels s)) as))" for subs' states' candidate' acts'
    using Cons.prems by (intro Cons.IH) auto
  show ?case
  proof (cases "connectivity_state (kept fresh s a) = ReadyState")
    case True
    moreover have "\<not> (sticky fresh s as \<and> selected s = Some a)"
      using Cons.prems(1) by (auto simp: sticky_def)
    ultimately show ?thesis
      unfolding rebuild_loop.simps st
      by (cases "sticky fresh s as"; cases "selected s = Some a"; cases candidate)
        (simp_all add: Let_def rec upd ready_candidate_Cons sticky_Cons subchannel_is_selected_def)
  next
    case False
    then show ?thesis
      unfolding rebuild_loop.simps st by (simp add: Let_def rec upd ready_candidate_Cons sticky_Cons)
  qed
qed

text \<open>Rebuilding in closed form.\<close>

lemma rebuild_subchannels_spec:
  assumes "distinct as" and "set (subchannels s) \<subseteq> dom (subchannel_states s)"
  shows "rebuild_subchannels fresh as s =
    Some (ready_candidate fresh s as,
      s\<lparr>subchannels := as, subchannel_states := kept_map fresh s as,
        actions := actions s @ map NewSubchannel (filter (\<lambda>a. a \<notin> set (subchannels s)) as)\<rparr>)"
  by (simp add: rebuild_subchannels_def rebuild_loop_spec [OF assms] map_add_def kept_map_def fun_eq_iff)

text \<open>
  Rebuilding for a new address list reuses the subchannel and the cached state of every address that
  stays, asks the controller for one new subchannel per other address, in order, forgets all others, and offers
  for activation the selected subchannel if it is still listed and READY, otherwise the first READY one.
\<close>

theorem rebuild_subchannels_correct:
  assumes "distinct as" and "set (subchannels s) \<subseteq> dom (subchannel_states s)"
  shows "\<exists>s'. rebuild_subchannels fresh as s = Some (ready_candidate fresh s as, s') \<and> subchannels s' = as \<and>
    (\<forall>a. subchannel_states s' a = (if a \<in> set as then Some (kept fresh s a) else None)) \<and>
    actions s' = actions s @ map NewSubchannel (filter (\<lambda>a. a \<notin> set (subchannels s)) as) \<and> selected s' = selected s"
  by (simp add: rebuild_subchannels_spec [OF assms] kept_map_def)

theorem rebuild_subchannels_correct_witness:
  "let a = tcp_address ''a''; b = tcp_address ''b''; s = pick_first_build\<lparr>subchannels := [b], subchannel_states := [b \<mapsto> ready]\<rparr>
   in \<exists>s'. rebuild_subchannels (\<lambda>_. idle) [a, b] s = Some (ready_candidate (\<lambda>_. idle) s [a, b], s') \<and> subchannels s' = [a, b] \<and>
    (\<forall>x. subchannel_states s' x = (if x \<in> set [a, b] then Some (kept (\<lambda>_. idle) s x) else None)) \<and>
    actions s' = actions s @ map NewSubchannel (filter (\<lambda>x. x \<notin> set (subchannels s)) [a, b]) \<and> selected s' = selected s"
  unfolding Let_def by (rule rebuild_subchannels_correct) simp_all

subsection \<open>No panic\<close>

lemma update_picker_fields [simp]:
  "subchannels (update_picker c p s) = subchannels s" "subchannel_states (update_picker c p s) = subchannel_states s"
  "selected (update_picker c p s) = selected s" "frontier_index (update_picker c p s) = frontier_index s"
  "last_error (update_picker c p s) = last_error s" "resolution_note (update_picker c p s) = resolution_note s"
  "timer (update_picker c p s) = timer s" "steady_state (update_picker c p s) = steady_state s"
  "pf_state (update_picker c p s) = c"
  by (auto simp: update_picker_def emit_def)

lemma emit_fields [simp]:
  "subchannels (emit x s) = subchannels s" "subchannel_states (emit x s) = subchannel_states s"
  "selected (emit x s) = selected s" "frontier_index (emit x s) = frontier_index s"
  "last_error (emit x s) = last_error s" "resolution_note (emit x s) = resolution_note s"
  "timer (emit x s) = timer s" "steady_state (emit x s) = steady_state s"
  "pf_state (emit x s) = pf_state s" "actions (emit x s) = actions s @ [x]"
  by (auto simp: emit_def)

lemma in_state_iff: "in_state c s a \<longleftrightarrow> (\<exists>st. subchannel_states s a = Some st \<and> connectivity_state st = c)"
  by (auto simp: in_state_def split: option.split)

lemma in_state_frame [simp]:
  "in_state c (s\<lparr>selected := x1\<rparr>) = in_state c s" "in_state c (s\<lparr>timer := x2\<rparr>) = in_state c s"
  "in_state c (s\<lparr>steady_state := x3\<rparr>) = in_state c s" "in_state c (s\<lparr>frontier_index := x4\<rparr>) = in_state c s"
  "in_state c (s\<lparr>last_error := x5\<rparr>) = in_state c s" "in_state c (s\<lparr>subchannels := x6\<rparr>) = in_state c s"
  "in_state c (s\<lparr>resolution_note := x7\<rparr>) = in_state c s" "in_state c (s\<lparr>actions := x8\<rparr>) = in_state c s"
  "in_state c (emit x s) = in_state c s" "in_state c (update_picker c' p s) = in_state c s"
  by (simp_all add: in_state_def fun_eq_iff)

lemma in_state_upd [simp]:
  "in_state c (s\<lparr>subchannel_states := (subchannel_states s)(a \<mapsto> st)\<rparr>) b =
     (if b = a then connectivity_state st = c else in_state c s b)"
  by (simp add: in_state_def)

lemma is_selected_frame [simp]:
  "subchannel_is_selected b (s\<lparr>selected := x1\<rparr>) \<longleftrightarrow> x1 = Some b"
  "subchannel_is_selected b (s\<lparr>timer := x2\<rparr>) = subchannel_is_selected b s"
  "subchannel_is_selected b (s\<lparr>steady_state := x3\<rparr>) = subchannel_is_selected b s"
  "subchannel_is_selected b (s\<lparr>frontier_index := x4\<rparr>) = subchannel_is_selected b s"
  "subchannel_is_selected b (s\<lparr>last_error := x5\<rparr>) = subchannel_is_selected b s"
  "subchannel_is_selected b (s\<lparr>subchannels := x6\<rparr>) = subchannel_is_selected b s"
  "subchannel_is_selected b (s\<lparr>subchannel_states := x7\<rparr>) = subchannel_is_selected b s"
  "subchannel_is_selected b (emit x s) = subchannel_is_selected b s"
  "subchannel_is_selected b (update_picker c p s) = subchannel_is_selected b s"
  by (simp_all add: subchannel_is_selected_def)

lemma in_state_unique: "in_state c s a \<Longrightarrow> in_state c' s a \<Longrightarrow> c = c'"
  by (auto simp: in_state_iff)

text \<open>
  What the handlers maintain: the list has no duplicates and a cached state for each entry, an idle policy has
  nothing selected, and as long as no error is recorded no listed subchannel is cached as failed and only the
  selected one is cached as READY.
\<close>

definition pf_inv :: "'a PickFirst \<Rightarrow> bool" where
  "pf_inv s \<longleftrightarrow>
     distinct (subchannels s) \<and> set (subchannels s) \<subseteq> dom (subchannel_states s) \<and>
     (pf_state s = Idle \<longrightarrow> selected s = None) \<and>
     (last_error s = None \<longrightarrow>
        (\<forall>a \<in> set (subchannels s). \<not> in_state TransientFailure s a \<and> (in_state ReadyState s a \<longrightarrow> subchannel_is_selected a s)))"

text \<open>
  What the policy relies on, following the documented lifecycle of a subchannel: a failure carries its error and
  does not come from the selected subchannel, IDLE is entered from READY or TRANSIENT_FAILURE, and as long as the
  policy knows no error the subchannels it is given are neither failed nor READY.
\<close>

definition lifecycle :: "'a PickFirst \<Rightarrow> 'a Address \<Rightarrow> SubchannelState \<Rightarrow> bool" where
  "lifecycle s a st =
     (case connectivity_state st of
        TransientFailure \<Rightarrow> last_connection_error st \<noteq> None \<and> \<not> subchannel_is_selected a s
      | Idle \<Rightarrow> subchannel_is_selected a s \<or> in_state ReadyState s a \<or> in_state TransientFailure s a
      | _ \<Rightarrow> True)"

fun pf_allowed :: "'a PickFirst \<Rightarrow> 'a pf_event \<Rightarrow> bool" where
  "pf_allowed s (Resolved fresh shuffler shuffle (Inr eps) note) =
     (last_error s = None \<longrightarrow>
        list_all (\<lambda>a. a \<in> set (subchannels s) \<or> connectivity_state (fresh a) \<in> {Idle, Connecting})
          (compile_address shuffler shuffle eps))"
| "pf_allowed s (Work (Some (a, st))) = (subchannel_is_current a s \<longrightarrow> lifecycle s a st)"
| "pf_allowed s e = True"

lemma scan_frontier_spec:
  assumes "set as \<subseteq> dom states"
  obtains (exhausted) "scan_frontier states as i = Some (None, i + length as)"
      "\<forall>a \<in> set as. \<exists>st. states a = Some st \<and> connectivity_state st = TransientFailure"
  | (found) b j where "scan_frontier states as i = Some (Some b, i + j)" "j < length as" "as ! j = b"
      "\<exists>st. states b = Some st \<and> connectivity_state st \<noteq> TransientFailure"
      "\<forall>k < j. \<exists>st. states (as ! k) = Some st \<and> connectivity_state st = TransientFailure"
  using assms
proof (induction as arbitrary: i thesis)
  case Nil
  then show ?case by simp
next
  case (Cons a as)
  from Cons.prems(3) obtain st where st: "states a = Some st" by auto
  show ?case
  proof (cases "connectivity_state st = TransientFailure")
    case False
    then show ?thesis using st by (intro Cons.prems(2) [of a 0]) simp_all
  next
    case tf: True
    show ?thesis
    proof (rule Cons.IH [of "i + 1"])
      show "set as \<subseteq> dom states" using Cons.prems(3) by simp
    next
      assume "scan_frontier states as (i + 1) = Some (None, i + 1 + length as)"
        "\<forall>a \<in> set as. \<exists>st. states a = Some st \<and> connectivity_state st = TransientFailure"
      then show ?thesis using st tf by (intro Cons.prems(1)) auto
    next
      fix b j
      assume "scan_frontier states as (i + 1) = Some (Some b, i + 1 + j)" "j < length as" "as ! j = b"
        "\<exists>st. states b = Some st \<and> connectivity_state st \<noteq> TransientFailure"
        "\<forall>k < j. \<exists>st. states (as ! k) = Some st \<and> connectivity_state st = TransientFailure"
      then show ?thesis using st tf by (intro Cons.prems(2) [of b "Suc j"]) (auto simp: less_Suc_eq_0_disj)
    qed
  qed
qed

lemma set_transient_failure_inv:
  assumes "pf_inv s" and "error \<noteq> None \<or> last_error s \<noteq> None"
  obtains e s' where "set_transient_failure error s = Some (e, s')" "pf_inv s'" "last_error s' \<noteq> None"
    "pf_state s' = TransientFailure" "subchannels s' = subchannels s" "subchannel_states s' = subchannel_states s"
    "selected s' = selected s" "timer s' = timer s" "steady_state s' = steady_state s"
  using assms
  by (cases error; cases "last_error s")
    (auto simp: set_transient_failure_def pf_inv_def Let_def)

lemma trigger_inv: "pf_inv s \<Longrightarrow> pf_inv (trigger_subchannel_connection a s)"
  by (auto simp: trigger_subchannel_connection_def pf_inv_def)

lemma advance_frontier_inv:
  assumes "pf_inv s"
  obtains r s' where "advance_frontier reset s = Some (r, s')" "pf_inv s'" "\<exists>j. s' = s\<lparr>frontier_index := j\<rparr>"
    "r = None \<longrightarrow> (\<forall>a \<in> set (drop (if reset then 0 else frontier_index s + 1) (subchannels s)). in_state TransientFailure s a)"
proof -
  let ?i = "if reset then 0 else frontier_index s + 1"
  have dom: "set (drop ?i (subchannels s)) \<subseteq> dom (subchannel_states s)"
    using assms set_drop_subset [of ?i "subchannels s"] by (auto simp: pf_inv_def)
  have inv: "pf_inv (s\<lparr>frontier_index := j\<rparr>)" for j
    using assms by (simp add: pf_inv_def)
  show thesis
  proof (rule scan_frontier_spec [OF dom, of ?i])
    assume "scan_frontier (subchannel_states s) (drop ?i (subchannels s)) ?i = Some (None, ?i + length (drop ?i (subchannels s)))"
      and "\<forall>a \<in> set (drop ?i (subchannels s)). \<exists>st. subchannel_states s a = Some st \<and> connectivity_state st = TransientFailure"
    then show thesis
      by (intro that [OF _ inv]) (auto simp: advance_frontier_def Let_def in_state_iff)
  next
    fix b j
    assume "scan_frontier (subchannel_states s) (drop ?i (subchannels s)) ?i = Some (Some b, ?i + j)"
    then show thesis
      by (intro that [OF _ inv]) (auto simp: advance_frontier_def Let_def)
  qed
qed

lemma start_connection_pass_inv:
  assumes "pf_inv s" and "subchannels s \<noteq> []"
    and "last_error s = None \<longrightarrow> (\<forall>a \<in> set (subchannels s). \<not> in_state ReadyState s a)"
  obtains s' where "start_connection_pass s = Some s'" "pf_inv s'"
proof -
  let ?s = "s\<lparr>selected := None\<rparr>"
  have inv: "pf_inv ?s" using assms(1,3) by (auto simp: pf_inv_def)
  obtain r t where t: "advance_frontier True ?s = Some (r, t)" "pf_inv t" "\<exists>j. t = ?s\<lparr>frontier_index := j\<rparr>"
    "r = None \<longrightarrow> (\<forall>a \<in> set (subchannels ?s). in_state TransientFailure ?s a)"
    by (rule advance_frontier_inv [OF inv, of True]) simp
  show thesis
  proof (cases r)
    case None
    then have "last_error t \<noteq> None"
      using t assms by (cases "subchannels s") (auto simp: pf_inv_def)
    then obtain e s' where "set_transient_failure None t = Some (e, s')" "pf_inv s'"
      by (rule set_transient_failure_inv [OF t(2) disjI2])
    with t None show thesis by (intro that [of s']) (simp_all add: start_connection_pass_def)
  next
    case (Some b)
    have "pf_inv (update_picker Connecting QueuingPicker (trigger_subchannel_connection b t))"
      using trigger_inv [OF t(2)] by (simp add: pf_inv_def)
    with t(1) Some show thesis by (intro that) (simp_all add: start_connection_pass_def)
  qed
qed

lemma connect_idle_fold_fields [simp]:
  "subchannels (foldl (\<lambda>t a. if in_state Idle t a then emit (Connect a) t else t) s as) = subchannels s"
  "subchannel_states (foldl (\<lambda>t a. if in_state Idle t a then emit (Connect a) t else t) s as) = subchannel_states s"
  "selected (foldl (\<lambda>t a. if in_state Idle t a then emit (Connect a) t else t) s as) = selected s"
  "last_error (foldl (\<lambda>t a. if in_state Idle t a then emit (Connect a) t else t) s as) = last_error s"
  "pf_state (foldl (\<lambda>t a. if in_state Idle t a then emit (Connect a) t else t) s as) = pf_state s"
  "steady_state (foldl (\<lambda>t a. if in_state Idle t a then emit (Connect a) t else t) s as) = steady_state s"
  "timer (foldl (\<lambda>t a. if in_state Idle t a then emit (Connect a) t else t) s as) = timer s"
  by (induction as arbitrary: s) simp_all

lemma pf_inv_frame:
  assumes "pf_inv s" and "subchannels s' = subchannels s" "subchannel_states s' = subchannel_states s"
    "selected s' = selected s" "last_error s' = last_error s" "pf_state s' = pf_state s"
  shows "pf_inv s'"
  using assms by (simp add: pf_inv_def in_state_def subchannel_is_selected_def)

lemma finish_first_pass_inv:
  assumes inv: "pf_inv s" and err: "last_error s = None \<longrightarrow> (\<exists>a \<in> set (subchannels s). in_state Connecting s a)"
  obtains s' where "finish_first_pass s = Some s'" "pf_inv s'"
proof (cases "length (subchannels s) \<le> frontier_index s \<and> \<not> (\<exists>a \<in> set (subchannels s). in_state Connecting s a)")
  case False
  then have "finish_first_pass s = Some s" by (simp only: finish_first_pass_def if_False)
  then show thesis using inv by (rule that)
next
  case True
  with err have "last_error s \<noteq> None" by blast
  moreover have inv': "pf_inv (s\<lparr>timer := None\<rparr>)" using inv by (simp add: pf_inv_def)
  ultimately obtain e t where t: "set_transient_failure (last_error s) (s\<lparr>timer := None\<rparr>) = Some (e, t)" "pf_inv t"
    using set_transient_failure_inv [OF inv' disjI1, of "last_error s"] by blast
  let ?t = "t\<lparr>steady_state := Some \<lparr>failure_threshold = length (subchannels t), failure_count = 0\<rparr>\<rparr>"
  have "pf_inv (foldl (\<lambda>t a. if in_state Idle t a then emit (Connect a) t else t) ?t (subchannels t))"
    using t(2) by (rule pf_inv_frame) simp_all
  then show thesis
    using True t(1) by (intro that) (simp_all add: finish_first_pass_def Let_def)
qed

lemma frontier_failure_inv:
  assumes "pf_inv s"
  obtains s' where "frontier_failure a st s = Some s'" "pf_inv s'" "last_error s' = last_error s"
    "subchannels s' = subchannels s"
proof (cases "frontier_index s < length (subchannels s) \<and> subchannels s ! frontier_index s = a \<and>
    connectivity_state st = TransientFailure")
  case False
  then have "frontier_failure a st s = Some s" by (simp only: frontier_failure_def if_False)
  then show thesis by (rule that [OF _ assms]) simp_all
next
  case True
  obtain r t where t: "advance_frontier False s = Some (r, t)" "pf_inv t" "\<exists>j. t = s\<lparr>frontier_index := j\<rparr>"
    by (rule advance_frontier_inv [OF assms, of False])
  show thesis
  proof (cases r)
    case None
    with True t show thesis by (intro that [of t]) (auto simp: frontier_failure_def)
  next
    case (Some b)
    with True t show thesis
      by (intro that [of "trigger_subchannel_connection b t"])
        (auto simp: frontier_failure_def trigger_subchannel_connection_def intro: trigger_inv [unfolded trigger_subchannel_connection_def])
  qed
qed

text \<open>Caching a reported state, and what each branch of an update does with it.\<close>

lemma drop_inv:
  assumes "pf_inv s" "subchannel_is_selected a s" "connectivity_state st \<noteq> ReadyState" "connectivity_state st \<noteq> TransientFailure"
  shows "pf_inv (subchannel_drop (s\<lparr>subchannel_states := (subchannel_states s)(a \<mapsto> st)\<rparr>))"
proof -
  have "\<not> in_state ReadyState s b" if "b \<noteq> a" "b \<in> set (subchannels s)" "last_error s = None" for b
    using assms(1,2) that by (auto simp: pf_inv_def subchannel_is_selected_def)
  with assms show ?thesis by (simp add: pf_inv_def subchannel_drop_def) blast
qed

lemma cache_ready_inv:
  assumes "pf_inv s" "subchannel_is_selected a s" "connectivity_state st = ReadyState"
  shows "pf_inv (s\<lparr>subchannel_states := (subchannel_states s)(a \<mapsto> st)\<rparr>)"
  using assms by (auto simp: pf_inv_def)

lemma activate_inv:
  assumes "in_state ReadyState s a" "\<not> subchannel_is_selected a s"
  shows "pf_inv (subchannel_activate a s)"
  using assms by (auto simp: pf_inv_def subchannel_activate_def in_state_iff)

lemma cache_nonready_inv:
  assumes "pf_inv s" "connectivity_state st \<noteq> ReadyState"
    "connectivity_state st = TransientFailure \<Longrightarrow> last_error s \<noteq> None"
  shows "pf_inv (s\<lparr>subchannel_states := (subchannel_states s)(a \<mapsto> st)\<rparr>)"
  using assms by (auto simp: pf_inv_def)

lemma cache_unselected_inv:
  fixes s :: "'a PickFirst"
  assumes inv: "pf_inv s" and a: "a \<in> set (subchannels s)" and life: "lifecycle s a st"
    and unsel: "\<not> subchannel_is_selected a s" and nonready: "connectivity_state st \<noteq> ReadyState"
  defines "s1 \<equiv> s\<lparr>subchannel_states := (subchannel_states s)(a \<mapsto> st)\<rparr>"
  defines "t \<equiv> (if connectivity_state st = TransientFailure then
         (case last_connection_error st of Some e \<Rightarrow> s1\<lparr>last_error := Some e\<rparr> | None \<Rightarrow> s1) else s1)"
  shows "pf_inv t" and "last_error t = None \<longrightarrow> connectivity_state st \<noteq> TransientFailure \<and> in_state Connecting t a"
    and "a \<in> set (subchannels t)"
proof -
  have "pf_inv t \<and> (last_error t = None \<longrightarrow> connectivity_state st \<noteq> TransientFailure \<and> in_state Connecting t a) \<and>
      a \<in> set (subchannels t)"
  proof (cases "connectivity_state st = TransientFailure")
    case True
    with life obtain e where "t = s1\<lparr>last_error := Some e\<rparr>"
      by (auto simp: lifecycle_def t_def)
    with inv a True show ?thesis by (auto simp: pf_inv_def s1_def)
  next
    case False
    then have t: "t = s1" by (simp add: t_def)
    have "connectivity_state st = Connecting" if "last_error s = None"
      using inv a that life unsel nonready False by (cases "connectivity_state st") (auto simp: lifecycle_def pf_inv_def)
    with t False nonready inv a show ?thesis by (auto simp: s1_def intro: cache_nonready_inv)
  qed
  then show "pf_inv t" "last_error t = None \<longrightarrow> connectivity_state st \<noteq> TransientFailure \<and> in_state Connecting t a"
    "a \<in> set (subchannels t)" by blast+
qed

lemma subchannel_update_inv:
  assumes inv: "pf_inv s" and life: "subchannel_is_current a s \<longrightarrow> lifecycle s a st"
  obtains s' where "subchannel_update a st s = Some s'" "pf_inv s'"
proof (cases "subchannel_is_current a s")
  case False
  then show thesis using inv that by (simp add: subchannel_update_def)
next
  case cur: True
  then have life: "lifecycle s a st" and a: "a \<in> set (subchannels s)"
    using life by (simp_all add: subchannel_is_current_def)
  from life have tf: "connectivity_state st = TransientFailure \<Longrightarrow> last_connection_error st \<noteq> None \<and> \<not> subchannel_is_selected a s"
    and idl: "connectivity_state st = Idle \<Longrightarrow> subchannel_is_selected a s \<or> in_state ReadyState s a \<or> in_state TransientFailure s a"
    by (simp_all add: lifecycle_def)
  let ?s = "s\<lparr>subchannel_states := (subchannel_states s)(a \<mapsto> st)\<rparr>"
  show thesis
  proof (cases "subchannel_is_selected a s")
    case True
    with tf have "connectivity_state st \<noteq> TransientFailure" by blast
    with True show thesis
      using cur cache_ready_inv [OF inv True] drop_inv [OF inv True] that
      by (cases "connectivity_state st = ReadyState") (simp_all add: subchannel_update_def Let_def)
  next
    case unsel: False
    show thesis
    proof (cases "connectivity_state st = ReadyState")
      case True
      with unsel have "pf_inv (subchannel_activate a ?s)" by (intro activate_inv) simp_all
      with True unsel cur show thesis by (intro that) (simp_all add: subchannel_update_def Let_def)
    next
      case False
      define t where "t = (if connectivity_state st = TransientFailure then
         (case last_connection_error st of Some e \<Rightarrow> ?s\<lparr>last_error := Some e\<rparr> | None \<Rightarrow> ?s) else ?s)"
      note t = cache_unselected_inv [OF inv a life unsel False, folded t_def]
      have upd: "subchannel_update a st s =
          (case steady_state t of Some steady \<Rightarrow> Some (subchannel_nonready steady a st t) | None \<Rightarrow> update_first_pass a st t)"
        using cur False unsel unfolding t_def by (simp add: subchannel_update_def Let_def)
      show thesis
      proof (cases "steady_state t")
        case (Some steady)
        have "pf_inv (subchannel_nonready steady a st t)"
          using t(1) by (rule pf_inv_frame) (simp_all add: subchannel_nonready_def Let_def split: ConnectivityState.split)
        with upd Some show thesis by (intro that) simp_all
      next
        case None
        obtain u where u: "frontier_failure a st t = Some u" "pf_inv u" "last_error u = last_error t"
          by (rule frontier_failure_inv [OF t(1)])
        from u(1) t(2) have "last_error t = None \<longrightarrow> u = t" by (auto simp: frontier_failure_def)
        with t(2,3) u(3) have "last_error u = None \<longrightarrow> (\<exists>a \<in> set (subchannels u). in_state Connecting u a)" by auto
        then obtain s' where "finish_first_pass u = Some s'" "pf_inv s'"
          by (rule finish_first_pass_inv [OF u(2)])
        with upd None u(1) show thesis by (intro that [of s']) (simp_all add: update_first_pass_def)
      qed
    qed
  qed
qed

lemma rebuilt_inv:
  fixes s :: "'a PickFirst"
  assumes inv: "pf_inv s" and as: "distinct as"
    and fresh: "last_error s = None \<longrightarrow> list_all (\<lambda>a. a \<in> set (subchannels s) \<or> connectivity_state (fresh a) \<in> {Idle, Connecting}) as"
  shows "pf_inv (s\<lparr>subchannels := as, subchannel_states := kept_map fresh s as, actions := acts\<rparr>)" (is "pf_inv ?t")
proof -
  have "\<not> in_state TransientFailure ?t a \<and> (in_state ReadyState ?t a \<longrightarrow> subchannel_is_selected a s)"
    if err: "last_error s = None" and a: "a \<in> set as" for a
  proof (cases "a \<in> set (subchannels s)")
    case True
    with inv err have "\<not> in_state TransientFailure s a \<and> (in_state ReadyState s a \<longrightarrow> subchannel_is_selected a s)"
      and "a \<in> dom (subchannel_states s)"
      by (auto simp: pf_inv_def)
    with True a show ?thesis by (auto simp: in_state_def kept_map_def kept_def)
  next
    case False
    with fresh err a show ?thesis by (auto simp: in_state_def kept_map_def kept_def list_all_iff)
  qed
  then show ?thesis
    using inv as by (auto simp: pf_inv_def kept_map_def subchannel_is_selected_def)
qed

lemma resolver_update_inv:
  assumes inv: "pf_inv s" and allowed: "pf_allowed s (Resolved fresh shuffler shuffle endpoints note)"
  obtains r s' where "resolver_update fresh shuffler shuffle endpoints note s = Some (r, s')" "pf_inv s'"
proof -
  let ?s = "s\<lparr>timer := None, steady_state := None, resolution_note := note\<rparr>"
  have inv1: "pf_inv ?s" using inv by (rule pf_inv_frame) simp_all
  show thesis
  proof (cases endpoints)
    case (Inl e)
    obtain e' t where "set_transient_failure (Some e) ?s = Some (e', t)" "pf_inv t"
      by (rule set_transient_failure_inv [OF inv1, of "Some e"]) simp
    then show thesis
      using Inl inv1 that [of "Inr ()" ?s] that [of "Inl e'" t]
      by (cases "subchannels s = [] \<or> pf_state s = TransientFailure") (simp_all add: resolver_update_def Let_def)
  next
    case (Inr eps)
    let ?as = "compile_address shuffler shuffle eps"
    show thesis
    proof (cases "?as = []")
      case True
      have "pf_inv (?s\<lparr>subchannels := [], selected := None\<rparr>)" by (simp add: pf_inv_def)
      then obtain e' t where "set_transient_failure (Some ''empty address list'') (?s\<lparr>subchannels := [], selected := None\<rparr>) = Some (e', t)" "pf_inv t"
        by (rule set_transient_failure_inv [of _ "Some ''empty address list''"]) simp
      then show thesis using Inr True by (intro that) (simp_all add: resolver_update_def Let_def)
    next
      case False
      define t where "t = ?s\<lparr>subchannels := ?as, subchannel_states := kept_map fresh ?s ?as,
        actions := actions ?s @ map NewSubchannel (filter (\<lambda>a. a \<notin> set (subchannels ?s)) ?as)\<rparr>"
      have dom: "set (subchannels ?s) \<subseteq> dom (subchannel_states ?s)" using inv1 by (simp add: pf_inv_def)
      have rebuild: "rebuild_subchannels fresh ?as ?s = Some (ready_candidate fresh ?s ?as, t)"
        unfolding t_def by (rule rebuild_subchannels_spec [OF compile_address_distinct dom])
      have t: "pf_inv t"
        unfolding t_def by (rule rebuilt_inv [OF inv1 compile_address_distinct]) (use allowed Inr in simp)
      have st: "in_state ReadyState t a \<longleftrightarrow> a \<in> set ?as \<and> connectivity_state (kept fresh ?s a) = ReadyState" for a
        by (simp add: t_def in_state_def kept_map_def)
      show thesis
      proof (cases "ready_candidate fresh ?s ?as")
        case None
        then have nr: "last_error t = None \<longrightarrow> (\<forall>a \<in> set (subchannels t). \<not> in_state ReadyState t a)"
          by (simp add: st ready_candidate_None)
        have "subchannels t \<noteq> []" using False by (simp add: t_def)
        then obtain s' where "start_connection_pass t = Some s'" "pf_inv s'"
          by (rule start_connection_pass_inv [OF t _ nr])
        then show thesis using Inr False None rebuild by (intro that) (simp_all add: resolver_update_def Let_def)
      next
        case (Some a)
        then have "in_state ReadyState t a"
          unfolding st by (auto simp: ready_candidate_def Let_def split: if_splits dest: hd_in_set)
        then have "pf_inv (subchannel_activate a t)"
          using t activate_inv [of t a] by (cases "subchannel_is_selected a t") (simp_all add: subchannel_activate_def)
        then show thesis using Inr False Some rebuild by (intro that) (simp_all add: resolver_update_def Let_def)
      qed
    qed
  qed
qed

lemma exit_idle_inv:
  assumes "pf_inv s"
  obtains s' where "exit_idle s = Some s'" "pf_inv s'"
proof (cases "pf_state s = Idle \<and> subchannels s \<noteq> []")
  case True
  with assms have "last_error s = None \<longrightarrow> (\<forall>a \<in> set (subchannels s). \<not> in_state ReadyState s a)"
    by (auto simp: pf_inv_def subchannel_is_selected_def)
  then obtain s' where "start_connection_pass s = Some s'" "pf_inv s'"
    by (rule start_connection_pass_inv [OF assms conjunct2 [OF True]])
  with True show thesis by (intro that) (simp_all add: exit_idle_def)
next
  case False
  then have "exit_idle s = Some s" by (simp only: exit_idle_def if_False)
  then show thesis by (rule that [OF _ assms])
qed

lemma work_timer_inv:
  assumes "pf_inv s"
  obtains s' where "work None s = Some s'" "pf_inv s'"
proof -
  obtain r t where t: "advance_frontier False s = Some (r, t)" "pf_inv t"
    by (rule advance_frontier_inv [OF assms, of False])
  obtain u where u: "exit_idle s = Some u" "pf_inv u"
    by (rule exit_idle_inv [OF assms])
  have "\<exists>s'. work None s = Some s' \<and> pf_inv s'"
    using t u assms trigger_inv by (auto simp: work_def split: option.split)
  then show thesis using that by blast
qed

interpretation pick_first: invariant_machine pf_step pf_inv pf_allowed
proof
  fix s e
  assume inv: "pf_inv s" and allowed: "pf_allowed s e"
  have "\<exists>s'. pf_step e s = Some s' \<and> pf_inv s'"
  proof (cases e)
    case (Resolved fresh shuffler shuffle endpoints n)
    then show ?thesis
      using resolver_update_inv [OF inv allowed [unfolded Resolved]] by fastforce
  next
    case (Work data)
    show ?thesis
    proof (cases data)
      case None
      then show ?thesis using Work work_timer_inv [OF inv] by (metis pf_step.simps(2))
    next
      case (Some p)
      obtain a st where p: "p = (a, st)" by (cases p)
      obtain s' where "subchannel_update a st s = Some s'" "pf_inv s'"
        by (rule subchannel_update_inv [OF inv, of a st]) (use allowed Work Some p in simp)
      then show ?thesis using Work Some p by (simp add: work_def)
    qed
  next
    case ExitIdle
    then show ?thesis using exit_idle_inv [OF inv] by (metis pf_step.simps(3))
  next
    case TimerFires
    have "pf_inv (timer_fires s)" using inv by (rule pf_inv_frame) (simp_all add: timer_fires_def)
    with TimerFires show ?thesis by simp
  qed
  then show "pf_step e s \<noteq> None" and "\<And>s'. pf_step e s = Some s' \<Longrightarrow> pf_inv s'" by auto
qed

text \<open>
  Property C4. The pick-first policy never panics: whatever sequence of resolver updates, subchannel updates, idle
  exits and timer expirations reaches a new policy, as long as the subchannels keep their documented lifecycle, each
  handler returns, and the list of subchannels ends duplicate-free with a cached state for each.
\<close>

theorem pick_first_never_panics:
  assumes "admissible pf_step pf_allowed events pick_first_build"
  shows "\<exists>s. run pf_step events pick_first_build = Some s \<and> distinct (subchannels s) \<and>
    set (subchannels s) \<subseteq> dom (subchannel_states s)"
proof -
  have "pf_inv pick_first_build" by (simp add: pf_inv_def pick_first_build_def)
  from pick_first.run_safe [OF this assms] show ?thesis by (auto simp: pf_inv_def)
qed

theorem pick_first_never_panics_witness:
  "\<exists>s. run pf_step
      [Resolved (\<lambda>_. idle) id False (Inr [endpoint [tcp_address ''a'', tcp_address ''b'']]) None,
       Work (Some (tcp_address ''a'', transient_failure ''refused'')), Work (Some (tcp_address ''b'', ready))]
      pick_first_build = Some s \<and> distinct (subchannels s) \<and> set (subchannels s) \<subseteq> dom (subchannel_states s)"
  by (rule pick_first_never_panics) code_simp

subsection \<open>What the channel sees\<close>

text \<open>The state and picker the channel was given last.\<close>

fun last_picker :: "'a action list \<Rightarrow> (ConnectivityState \<times> 'a Picker) option" where
  "last_picker [] = None"
| "last_picker (act # acts) =
     (case last_picker acts of
        Some x \<Rightarrow> Some x
      | None \<Rightarrow> (case act of UpdatePicker c p \<Rightarrow> Some (c, p) | _ \<Rightarrow> None))"

lemma last_picker_append [simp]:
  "last_picker (xs @ ys) = (case last_picker ys of Some x \<Rightarrow> Some x | None \<Rightarrow> last_picker xs)"
  by (induction xs) (simp_all split: option.split)

lemma last_picker_NewSubchannel [simp]: "last_picker (map NewSubchannel as) = None"
  by (induction as) simp_all

fun picker_ok :: "ConnectivityState \<Rightarrow> 'a Address option \<Rightarrow> 'a Picker \<Rightarrow> bool" where
  "picker_ok Idle sel p = (p = IdlePicker)"
| "picker_ok Connecting sel p = (p = QueuingPicker)"
| "picker_ok ReadyState sel p = (case sel of Some a \<Rightarrow> p = OneSubchannelPicker a | None \<Rightarrow> False)"
| "picker_ok TransientFailure sel p = (case p of FailingPicker e \<Rightarrow> True | _ \<Rightarrow> False)"

definition announced :: "'a PickFirst \<Rightarrow> bool" where
  "announced s \<longleftrightarrow>
     (case last_picker (actions s) of
        None \<Rightarrow> pf_state s = Idle
      | Some (c, p) \<Rightarrow> c = pf_state s \<and> picker_ok c (selected s) p)"

text \<open>
  What each subchannel last told the policy: the state it was handed out with or, from then on, its latest update.
  The policy's own cache may differ, because the policy writes CONNECTING there when it asks for a connection.
\<close>

fun hears :: "'a pf_event \<Rightarrow> 'a PickFirst \<Rightarrow> ('a Address \<rightharpoonup> SubchannelState) \<Rightarrow> 'a Address \<rightharpoonup> SubchannelState" where
  "hears (Resolved fresh shuffler shuffle (Inr eps) note) s h =
     (\<lambda>a. if a \<in> set (compile_address shuffler shuffle eps) \<and> a \<notin> set (subchannels s) then Some (fresh a) else h a)"
| "hears (Work (Some (a, st))) s h = h(a \<mapsto> st)"
| "hears e s h = h"

fun last_heard :: "'a pf_event list \<Rightarrow> 'a PickFirst \<Rightarrow> ('a Address \<rightharpoonup> SubchannelState) \<Rightarrow> 'a Address \<rightharpoonup> SubchannelState" where
  "last_heard [] s h = h"
| "last_heard (e # es) s h = (case pf_step e s of None \<Rightarrow> h | Some s' \<Rightarrow> last_heard es s' (hears e s h))"

definition heard_ready :: "('a Address \<rightharpoonup> SubchannelState) \<Rightarrow> 'a Address \<Rightarrow> bool" where
  "heard_ready h a \<longleftrightarrow> (case h a of Some st \<Rightarrow> connectivity_state st = ReadyState | None \<Rightarrow> False)"

definition well_told :: "('a Address \<rightharpoonup> SubchannelState) \<Rightarrow> 'a PickFirst \<Rightarrow> bool" where
  "well_told h s \<longleftrightarrow>
     set (subchannels s) \<subseteq> dom (subchannel_states s) \<and>
     (\<forall>a \<in> set (subchannels s). in_state ReadyState s a \<longrightarrow> heard_ready h a) \<and>
     (\<forall>a. selected s = Some a \<longrightarrow> a \<in> set (subchannels s) \<and> heard_ready h a)"

text \<open>
  What a handler may do short of a new list or a new selection: ask subchannels that have not failed to connect,
  and note that it did.
\<close>

definition pushes :: "'a PickFirst \<Rightarrow> 'a PickFirst \<Rightarrow> bool" where
  "pushes s s' \<longleftrightarrow>
     subchannels s' = subchannels s \<and> (selected s' = selected s \<or> selected s' = None) \<and>
     (\<exists>acts. actions s' = actions s @ acts \<and> (\<forall>a. NewSubchannel a \<notin> set acts) \<and>
        (\<forall>a. subchannel_states s' a = subchannel_states s a \<or>
             subchannel_states s' a = Some connecting \<and> Connect a \<in> set acts \<and> \<not> in_state TransientFailure s a))"

lemma pushes_refl: "pushes s s"
  by (simp add: pushes_def)

lemma pushes_trans [trans]:
  assumes "pushes s t" and "pushes t u"
  shows "pushes s u"
proof -
  from assms(1) obtain xs where xs: "subchannels t = subchannels s" "selected t = selected s \<or> selected t = None"
    "actions t = actions s @ xs" "\<forall>a. NewSubchannel a \<notin> set xs"
    "\<forall>a. subchannel_states t a = subchannel_states s a \<or>
      subchannel_states t a = Some connecting \<and> Connect a \<in> set xs \<and> \<not> in_state TransientFailure s a"
    unfolding pushes_def by blast
  from assms(2) obtain ys where ys: "subchannels u = subchannels t" "selected u = selected t \<or> selected u = None"
    "actions u = actions t @ ys" "\<forall>a. NewSubchannel a \<notin> set ys"
    "\<forall>a. subchannel_states u a = subchannel_states t a \<or>
      subchannel_states u a = Some connecting \<and> Connect a \<in> set ys \<and> \<not> in_state TransientFailure t a"
    unfolding pushes_def by blast
  have "subchannel_states u a = subchannel_states s a \<or>
      subchannel_states u a = Some connecting \<and> Connect a \<in> set (xs @ ys) \<and> \<not> in_state TransientFailure s a" for a
    using xs(5) [rule_format, of a] ys(5) [rule_format, of a] by (auto simp: in_state_def)
  with xs ys show ?thesis unfolding pushes_def by (intro conjI exI [of _ "xs @ ys"]) auto
qed

lemma pushes_frame:
  assumes "subchannels s' = subchannels s" "selected s' = selected s \<or> selected s' = None"
    "subchannel_states s' = subchannel_states s" "actions s' = actions s @ acts" "\<forall>a. NewSubchannel a \<notin> set acts"
  shows "pushes s s'"
  unfolding pushes_def using assms by auto

lemma well_told_pushes:
  assumes "well_told h s" "pushes s s'"
  shows "well_told h s'"
proof -
  from assms(2) have p: "subchannels s' = subchannels s" "selected s' = selected s \<or> selected s' = None"
    and st: "\<forall>a. subchannel_states s' a = subchannel_states s a \<or> subchannel_states s' a = Some connecting"
    unfolding pushes_def by auto
  have ready: "in_state ReadyState s a" if "in_state ReadyState s' a" for a
    using that st [rule_format, of a] by (auto simp: in_state_def)
  have "a \<in> dom (subchannel_states s')" if "a \<in> set (subchannels s)" for a
    using that st [rule_format, of a] assms(1) by (auto simp: well_told_def)
  with assms(1) p ready show ?thesis unfolding well_told_def by auto
qed

text \<open>All that a silent CONNECTING update needs of the announcements before it.\<close>

definition connecting_announced :: "'a PickFirst \<Rightarrow> bool" where
  "connecting_announced s \<longleftrightarrow>
     (pf_state s = Connecting \<longrightarrow> last_picker (actions s) = Some (Connecting, QueuingPicker))"

lemma announced_connecting: "announced s \<Longrightarrow> connecting_announced s"
  by (auto simp: announced_def connecting_announced_def split: option.splits)

lemma announced_update_picker:
  assumes "picker_ok c (selected s) p" and "c = Connecting \<Longrightarrow> connecting_announced s"
  shows "announced (update_picker c p s)"
  using assms by (auto simp: announced_def connecting_announced_def update_picker_def)

lemma announced_frame:
  assumes "announced s" and "last_picker (actions s') = last_picker (actions s)" "selected s' = selected s"
    "pf_state s' = pf_state s"
  shows "announced s'"
  using assms by (auto simp: announced_def split: option.splits)

lemma advance_frontier_frame: "advance_frontier reset s = Some (r, s') \<Longrightarrow> \<exists>j. s' = s\<lparr>frontier_index := j\<rparr>"
  by (auto simp: advance_frontier_def Let_def)

lemma trigger_fields [simp]:
  "selected (trigger_subchannel_connection a s) = selected s" "pf_state (trigger_subchannel_connection a s) = pf_state s"
  "actions (trigger_subchannel_connection a s) = actions s @ [Connect a]"
  "subchannels (trigger_subchannel_connection a s) = subchannels s"
  "last_error (trigger_subchannel_connection a s) = last_error s"
  "resolution_note (trigger_subchannel_connection a s) = resolution_note s"
  "steady_state (trigger_subchannel_connection a s) = steady_state s"
  "frontier_index (trigger_subchannel_connection a s) = frontier_index s"
  "subchannel_states (trigger_subchannel_connection a s) = (subchannel_states s)(a \<mapsto> connecting)"
  "timer (trigger_subchannel_connection a s) = Some False"
  by (simp_all add: trigger_subchannel_connection_def)

lemma scan_frontier_found:
  "scan_frontier states as i = Some (Some b, j) \<Longrightarrow>
     b \<in> set as \<and> (\<exists>st. states b = Some st \<and> connectivity_state st \<noteq> TransientFailure)"
  by (induction as arbitrary: i) (auto split: option.splits if_splits)

text \<open>The move to the next address, which \<open>work\<close> and \<open>update_first_pass\<close> share.\<close>

lemma advance_pushes:
  assumes "advance_frontier reset s = Some (r, t)"
  defines "s' \<equiv> (case r of Some b \<Rightarrow> trigger_subchannel_connection b t | None \<Rightarrow> t)"
  shows "pushes s s'" and "pf_state s' = pf_state s" and "selected s' = selected s"
    and "last_picker (actions s') = last_picker (actions s)"
proof -
  obtain j where t: "t = s\<lparr>frontier_index := j\<rparr>" using advance_frontier_frame [OF assms(1)] by blast
  show "pushes s s'"
  proof (cases r)
    case None
    then show ?thesis by (intro pushes_frame [of _ _ "[]"]) (simp_all add: s'_def t)
  next
    case (Some b)
    let ?i = "if reset then 0 else frontier_index s + 1"
    from assms(1) Some obtain j' where
      "scan_frontier (subchannel_states s) (drop ?i (subchannels s)) ?i = Some (Some b, j')"
      by (auto simp: advance_frontier_def Let_def)
    from scan_frontier_found [OF this] have "\<not> in_state TransientFailure s b" by (auto simp: in_state_def)
    with Some show ?thesis by (simp add: pushes_def s'_def t)
  qed
  show "pf_state s' = pf_state s" "selected s' = selected s" "last_picker (actions s') = last_picker (actions s)"
    by (simp_all add: s'_def t split: option.split)
qed

lemma set_transient_failure_announced:
  "set_transient_failure error s = Some (e, s') \<Longrightarrow> announced s' \<and> selected s' = selected s"
  by (auto simp: set_transient_failure_def Let_def announced_def update_picker_def split: option.splits)

lemma set_transient_failure_pushes: "set_transient_failure error s = Some (e, s') \<Longrightarrow> pushes s s'"
  by (auto simp: set_transient_failure_def Let_def update_picker_def emit_def split: option.splits
      intro!: pushes_frame)

lemma update_picker_pushes: "pushes s (update_picker c p s)"
  by (rule pushes_frame [of _ _ "if pf_state s = c \<and> c = Connecting then [] else [UpdatePicker c p]"])
    (simp_all add: update_picker_def)

lemma start_connection_pass_told:
  assumes "start_connection_pass s = Some s'"
  shows "pushes s s' \<and> selected s' = None \<and> (connecting_announced s \<longrightarrow> announced s')"
proof -
  let ?s = "s\<lparr>selected := None\<rparr>"
  have first: "pushes s ?s" by (rule pushes_frame [of _ _ "[]"]) simp_all
  from assms obtain r t where t: "advance_frontier True ?s = Some (r, t)"
    and s': "(case r of Some a \<Rightarrow> Some (update_picker Connecting QueuingPicker (trigger_subchannel_connection a t))
      | None \<Rightarrow> map_option snd (set_transient_failure None t)) = Some s'"
    by (auto simp: start_connection_pass_def split: bind_splits)
  note adv = advance_pushes [OF t]
  show ?thesis
  proof (cases r)
    case None
    with s' obtain e where e: "set_transient_failure None t = Some (e, s')" by auto
    with adv None show ?thesis
      using pushes_trans [OF first pushes_trans [OF _ set_transient_failure_pushes [OF e]]]
        set_transient_failure_announced [OF e] by simp
  next
    case (Some a)
    let ?u = "trigger_subchannel_connection a t"
    from Some s' have s': "s' = update_picker Connecting QueuingPicker ?u" by simp
    have "connecting_announced s \<longrightarrow> connecting_announced ?u"
      using adv Some by (simp add: connecting_announced_def)
    then have "connecting_announced s \<longrightarrow> announced s'"
      unfolding s' by (intro impI announced_update_picker) simp_all
    moreover have "pushes ?s ?u" "selected ?u = None" using adv Some by simp_all
    ultimately show ?thesis
      using pushes_trans [OF first pushes_trans [OF _ update_picker_pushes]] by (simp add: s')
  qed
qed

lemma connect_idle_fold_picker [simp]:
  "last_picker (actions (foldl (\<lambda>t a. if in_state Idle t a then emit (Connect a) t else t) s as)) = last_picker (actions s)"
  by (induction as arbitrary: s) simp_all

lemma connect_idle_fold_actions:
  "actions (foldl (\<lambda>t a. if in_state Idle t a then emit (Connect a) t else t) s as) =
     actions s @ map Connect (filter (in_state Idle s) as)"
  by (induction as arbitrary: s) (simp_all add: in_state_def cong: filter_cong)

lemma finish_first_pass_told:
  assumes "finish_first_pass s = Some s'"
  shows "pushes s s' \<and> selected s' = selected s \<and> (announced s \<longrightarrow> announced s')"
proof (cases "length (subchannels s) \<le> frontier_index s \<and> \<not> (\<exists>a \<in> set (subchannels s). in_state Connecting s a)")
  case False
  with assms have "s' = s" by (simp only: finish_first_pass_def if_False option.inject)
  then show ?thesis by (simp add: pushes_refl)
next
  case True
  with assms obtain e u where u: "set_transient_failure (last_error s) (s\<lparr>timer := None\<rparr>) = Some (e, u)"
    and s': "s' = foldl (\<lambda>t a. if in_state Idle t a then emit (Connect a) t else t)
      (u\<lparr>steady_state := Some \<lparr>failure_threshold = length (subchannels u), failure_count = 0\<rparr>\<rparr>) (subchannels u)"
    by (auto simp: finish_first_pass_def Let_def split: bind_splits)
  have "pushes s (s\<lparr>timer := None\<rparr>)" by (rule pushes_frame [of _ _ "[]"]) simp_all
  also have "pushes (s\<lparr>timer := None\<rparr>) u" by (rule set_transient_failure_pushes [OF u])
  also have "pushes u s'"
    by (rule pushes_frame [of _ _ "map Connect (filter (in_state Idle u) (subchannels u))"])
      (auto simp: s' connect_idle_fold_actions)
  finally have "pushes s s'" .
  moreover have "announced u" "selected u = selected s" using set_transient_failure_announced [OF u] by simp_all
  ultimately show ?thesis unfolding s' by (auto intro: announced_frame)
qed

lemma update_first_pass_told:
  assumes "update_first_pass a st s = Some s'"
  shows "pushes s s' \<and> selected s' = selected s \<and> (announced s \<longrightarrow> announced s')"
proof -
  from assms obtain t where t: "frontier_failure a st s = Some t" and s': "finish_first_pass t = Some s'"
    by (auto simp: update_first_pass_def split: bind_splits)
  have "pushes s t \<and> pf_state t = pf_state s \<and> selected t = selected s \<and> last_picker (actions t) = last_picker (actions s)"
  proof (cases "t = s")
    case False
    with t obtain r u where "advance_frontier False s = Some (r, u)"
      "t = (case r of Some b \<Rightarrow> trigger_subchannel_connection b u | None \<Rightarrow> u)"
      by (auto simp: frontier_failure_def split: if_splits)
    then show ?thesis using advance_pushes [of False s r u] by simp
  qed (simp add: pushes_refl)
  then have "pushes s t" "selected t = selected s" "announced s \<longrightarrow> announced t"
    using announced_frame [of s t] by auto
  with finish_first_pass_told [OF s'] show ?thesis by (auto intro: pushes_trans)
qed

lemma subchannel_nonready_told:
  "pushes s (subchannel_nonready steady a st s) \<and> selected (subchannel_nonready steady a st s) = selected s \<and>
     (announced s \<longrightarrow> announced (subchannel_nonready steady a st s))"
proof -
  let ?acts = "case connectivity_state st of Idle \<Rightarrow> [Connect a]
    | TransientFailure \<Rightarrow> if failure_threshold steady \<le> failure_count steady + 1 then [RequestResolution] else [] | _ \<Rightarrow> []"
  have acts: "actions (subchannel_nonready steady a st s) = actions s @ ?acts"
    and fields: "subchannels (subchannel_nonready steady a st s) = subchannels s"
      "selected (subchannel_nonready steady a st s) = selected s" "pf_state (subchannel_nonready steady a st s) = pf_state s"
      "subchannel_states (subchannel_nonready steady a st s) = subchannel_states s"
    by (simp_all add: subchannel_nonready_def Let_def split: ConnectivityState.split)
  have "pushes s (subchannel_nonready steady a st s)"
    by (rule pushes_frame [OF _ _ _ acts]) (simp_all add: fields split: ConnectivityState.split)
  moreover have "last_picker ?acts = None" by (simp split: ConnectivityState.split)
  then have "announced s \<longrightarrow> announced (subchannel_nonready steady a st s)"
    using announced_frame [of s "subchannel_nonready steady a st s"] by (simp add: fields acts del: last_picker.simps)
  ultimately show ?thesis by (simp add: fields)
qed

text \<open>An update is cached, and then one of five things happens.\<close>

definition cached :: "'a Address \<Rightarrow> SubchannelState \<Rightarrow> 'a PickFirst \<Rightarrow> 'a PickFirst" where
  "cached a st s = s\<lparr>subchannel_states := (subchannel_states s)(a \<mapsto> st)\<rparr>"

lemma cached_fields [simp]:
  "subchannels (cached a st s) = subchannels s" "selected (cached a st s) = selected s" "pf_state (cached a st s) = pf_state s"
  "actions (cached a st s) = actions s" "subchannel_states (cached a st s) = (subchannel_states s)(a \<mapsto> st)"
  "timer (cached a st s) = timer s" "steady_state (cached a st s) = steady_state s"
  "last_error (cached a st s) = last_error s" "frontier_index (cached a st s) = frontier_index s"
  "resolution_note (cached a st s) = resolution_note s"
  by (simp_all add: cached_def)

lemma subchannel_update_cases:
  assumes "subchannel_update a st s = Some s'"
  obtains (ignored) "a \<notin> set (subchannels s)" "s' = s"
  | (still_ready) "a \<in> set (subchannels s)" "selected s = Some a" "connectivity_state st = ReadyState" "s' = cached a st s"
  | (dropped) "a \<in> set (subchannels s)" "selected s = Some a" "connectivity_state st \<noteq> ReadyState" "s' = subchannel_drop (cached a st s)"
  | (activated) "a \<in> set (subchannels s)" "selected s \<noteq> Some a" "connectivity_state st = ReadyState" "s' = subchannel_activate a (cached a st s)"
  | (progress) "a \<in> set (subchannels s)" "selected s \<noteq> Some a" "connectivity_state st \<noteq> ReadyState"
      "pushes (cached a st s) s'" "selected s' = selected s" "announced s \<longrightarrow> announced s'"
proof (cases "a \<in> set (subchannels s) \<and> selected s \<noteq> Some a \<and> connectivity_state st \<noteq> ReadyState")
  case False
  have "subchannel_update a st s =
      (if a \<notin> set (subchannels s) then Some s
       else if selected s = Some a then
         if connectivity_state st = ReadyState then Some (cached a st s) else Some (subchannel_drop (cached a st s))
       else Some (subchannel_activate a (cached a st s)))"
    using False
    by (auto simp: subchannel_update_def subchannel_is_current_def subchannel_is_selected_def Let_def cached_def)
  with assms have s': "Some s' = (if a \<notin> set (subchannels s) then Some s
       else if selected s = Some a then
         if connectivity_state st = ReadyState then Some (cached a st s) else Some (subchannel_drop (cached a st s))
       else Some (subchannel_activate a (cached a st s)))"
    by (simp only:)
  show thesis
  proof (cases "a \<in> set (subchannels s)")
    case listed: True
    show thesis
    proof (cases "selected s = Some a")
      case True
      with listed s' show thesis
        using still_ready dropped by (cases "connectivity_state st = ReadyState") simp_all
    next
      case unsel: False
      with False listed have "connectivity_state st = ReadyState" by blast
      with listed unsel s' show thesis using activated by simp
    qed
  next
    case False
    with s' show thesis using ignored by simp
  qed
next
  case True
  define t where "t = (if connectivity_state st = TransientFailure then
     (case last_connection_error st of Some e \<Rightarrow> (cached a st s)\<lparr>last_error := Some e\<rparr> | None \<Rightarrow> cached a st s) else cached a st s)"
  have fields: "subchannels t = subchannels s" "selected t = selected s" "pf_state t = pf_state s"
    "actions t = actions s" "subchannel_states t = (subchannel_states s)(a \<mapsto> st)"
    by (simp_all add: t_def split: option.split)
  have "pushes (cached a st s) t" by (rule pushes_frame [of _ _ "[]"]) (simp_all add: fields)
  moreover have "announced s \<longrightarrow> announced t" using announced_frame [of s t] by (simp add: fields)
  moreover have s': "(case steady_state t of Some steady \<Rightarrow> Some (subchannel_nonready steady a st t)
      | None \<Rightarrow> update_first_pass a st t) = Some s'"
    using assms True unfolding t_def cached_def
    by (simp add: subchannel_update_def subchannel_is_current_def subchannel_is_selected_def Let_def)
  moreover have "pushes t s' \<and> selected s' = selected t \<and> (announced t \<longrightarrow> announced s')"
  proof (cases "steady_state t")
    case None
    with s' show ?thesis using update_first_pass_told by simp
  next
    case (Some steady)
    with s' show ?thesis using subchannel_nonready_told [of t steady a st] by simp
  qed
  ultimately show thesis using True fields(2) progress by (auto intro: pushes_trans)
qed

lemma subchannel_update_told:
  assumes told: "well_told h s" and upd: "subchannel_update a st s = Some s'"
  shows "well_told (h(a \<mapsto> st)) s'" and "announced s \<Longrightarrow> announced s'"
proof -
  have cached_told: "well_told (h(a \<mapsto> st)) (cached a st s)" if "selected s \<noteq> Some a \<or> connectivity_state st = ReadyState"
    using told that by (auto simp: well_told_def in_state_def heard_ready_def)
  have cached_ann: "announced (cached a st s)" if "announced s"
    using that by (rule announced_frame) simp_all
  have "well_told (h(a \<mapsto> st)) s' \<and> (announced s \<longrightarrow> announced s')"
    using upd
  proof (cases rule: subchannel_update_cases)
    case ignored
    with told show ?thesis by (auto simp: well_told_def in_state_def heard_ready_def)
  next
    case still_ready
    with cached_told cached_ann show ?thesis by simp
  next
    case dropped
    have "well_told (h(a \<mapsto> st)) ((cached a st s)\<lparr>selected := None\<rparr>)"
      using told by (auto simp: well_told_def in_state_def heard_ready_def)
    then have "well_told (h(a \<mapsto> st)) s'"
      unfolding dropped subchannel_drop_def cached_def [symmetric] by (rule well_told_pushes [OF _ update_picker_pushes])
    moreover have "announced s'" unfolding dropped subchannel_drop_def by (rule announced_update_picker) simp_all
    ultimately show ?thesis by blast
  next
    case activated
    then have "well_told (h(a \<mapsto> st)) s'"
      by (auto simp: well_told_def heard_ready_def subchannel_activate_def subchannel_is_selected_def update_picker_def)
    moreover have "announced s'"
      using activated by (auto simp: subchannel_activate_def subchannel_is_selected_def intro!: announced_update_picker)
    ultimately show ?thesis by blast
  next
    case progress
    with cached_told show ?thesis using well_told_pushes by blast
  qed
  then show "well_told (h(a \<mapsto> st)) s'" "announced s \<Longrightarrow> announced s'" by blast+
qed

lemma resolver_update_told:
  assumes told: "well_told h s" and upd: "resolver_update fresh shuffler shuffle endpoints n s = Some (r, s')"
  shows "well_told (hears (Resolved fresh shuffler shuffle endpoints n) s h) s'" and "announced s \<Longrightarrow> announced s'"
proof -
  let ?s = "s\<lparr>timer := None, steady_state := None, resolution_note := n\<rparr>"
  let ?h = "hears (Resolved fresh shuffler shuffle endpoints n) s h"
  have told_s: "well_told h ?s" and ann: "announced s \<Longrightarrow> announced ?s"
    using told by (auto simp: well_told_def in_state_def intro: announced_frame)
  have "well_told ?h s' \<and> (announced s \<longrightarrow> announced s')"
  proof (cases endpoints)
    case (Inl e)
    with upd have "s' = ?s \<or> (\<exists>e'. set_transient_failure (Some e) ?s = Some (e', s'))"
      by (auto simp: resolver_update_def Let_def split: if_splits)
    with told_s ann Inl show ?thesis
      using well_told_pushes set_transient_failure_pushes set_transient_failure_announced by fastforce
  next
    case (Inr eps)
    let ?as = "compile_address shuffler shuffle eps"
    show ?thesis
    proof (cases "?as = []")
      case True
      let ?t = "?s\<lparr>subchannels := [], selected := None\<rparr>"
      from True upd Inr obtain e' where e': "set_transient_failure (Some ''empty address list'') ?t = Some (e', s')"
        by (auto simp: resolver_update_def Let_def)
      have "well_told ?h ?t" by (simp add: well_told_def)
      with e' show ?thesis
        using well_told_pushes set_transient_failure_pushes set_transient_failure_announced by blast
    next
      case False
      have dom: "set (subchannels ?s) \<subseteq> dom (subchannel_states ?s)" using told_s by (simp only: well_told_def)
      define t where "t = ?s\<lparr>subchannels := ?as, subchannel_states := kept_map fresh ?s ?as,
        actions := actions ?s @ map NewSubchannel (filter (\<lambda>a. a \<notin> set (subchannels ?s)) ?as)\<rparr>"
      have t: "rebuild_subchannels fresh ?as ?s = Some (ready_candidate fresh ?s ?as, t)"
        unfolding t_def by (rule rebuild_subchannels_spec [OF compile_address_distinct dom])
      have dom_t: "set (subchannels t) \<subseteq> dom (subchannel_states t)" by (auto simp: t_def kept_map_def)
      have ready: "heard_ready ?h a" if "a \<in> set ?as" "in_state ReadyState t a" for a
        using that told Inr by (auto simp: t_def in_state_def kept_map_def kept_def well_told_def heard_ready_def split: if_splits)
      have ann_t: "announced s \<longrightarrow> announced t" using ann by (auto simp: t_def intro: announced_frame)
      have told_t: "well_told ?h (t\<lparr>selected := None\<rparr>)"
        using dom_t ready by (simp add: well_told_def t_def)
      show ?thesis
      proof (cases "ready_candidate fresh ?s ?as")
        case None
        with upd Inr False t have pass: "start_connection_pass t = Some s'"
          by (auto simp: resolver_update_def Let_def)
        have "well_told ?h s'"
          using start_connection_pass_told [OF pass] told_t
          by (intro well_told_pushes [OF told_t]) (auto simp: pushes_def in_state_def)
        with start_connection_pass_told [OF pass] ann_t announced_connecting show ?thesis by blast
      next
        case (Some a)
        then have a: "a \<in> set ?as" "connectivity_state (kept fresh ?s a) = ReadyState"
          by (auto simp: ready_candidate_def Let_def split: if_splits dest: hd_in_set)
        then have in_t: "in_state ReadyState t a" by (simp add: t_def in_state_def kept_map_def)
        from Some upd Inr False t have s': "s' = subchannel_activate a t"
          by (simp add: resolver_update_def Let_def)
        have "well_told ?h s'"
          using told_t dom_t a in_t ready [OF a(1) in_t] unfolding s'
          by (auto simp: well_told_def subchannel_activate_def subchannel_is_selected_def t_def update_picker_def in_state_def
              split: if_splits)
        moreover have "announced s \<longrightarrow> announced s'"
          using ann_t unfolding s' by (auto simp: subchannel_activate_def subchannel_is_selected_def intro!: announced_update_picker)
        ultimately show ?thesis by blast
      qed
    qed
  qed
  then show "well_told ?h s'" "announced s \<Longrightarrow> announced s'" by blast+
qed

lemma exit_idle_told:
  assumes "exit_idle s = Some s'"
  shows "pushes s s' \<and> (announced s \<longrightarrow> announced s')"
  using assms start_connection_pass_told [of s s'] announced_connecting [of s]
  by (auto simp: exit_idle_def pushes_refl split: if_splits)

lemma work_timer_told:
  assumes "work None s = Some s'"
  shows "pushes s s' \<and> (announced s \<longrightarrow> announced s')"
proof (cases "pf_state s = Idle \<or> timer s \<noteq> Some True")
  case True
  with assms show ?thesis by (auto simp: work_def pushes_refl dest: exit_idle_told split: if_splits)
next
  case False
  with assms obtain r t where t: "advance_frontier False s = Some (r, t)"
    and s': "s' = (case r of Some b \<Rightarrow> trigger_subchannel_connection b t | None \<Rightarrow> t)"
    by (auto simp: work_def)
  note adv = advance_pushes [OF t, folded s']
  then show ?thesis using announced_frame [of s s'] by simp
qed

lemma pf_step_told:
  assumes told: "well_told h s" and step: "pf_step e s = Some s'"
  shows "well_told (hears e s h) s'" and "announced s \<Longrightarrow> announced s'"
proof -
  have "well_told (hears e s h) s' \<and> (announced s \<longrightarrow> announced s')"
  proof (cases e)
    case (Resolved fresh shuffler shuffle endpoints n)
    with step resolver_update_told [OF told, of fresh shuffler shuffle endpoints n _ s'] show ?thesis by auto
  next
    case (Work data)
    show ?thesis
    proof (cases data)
      case None
      with Work step told show ?thesis using work_timer_told well_told_pushes by fastforce
    next
      case (Some p)
      obtain a st where "p = (a, st)" by (cases p)
      with Some Work step show ?thesis
        using subchannel_update_told [OF told, of a st s'] by (simp add: work_def)
    qed
  next
    case ExitIdle
    with step told show ?thesis using exit_idle_told well_told_pushes by fastforce
  next
    case TimerFires
    with step have s': "s' = timer_fires s" by simp
    have "pushes s s'" by (rule pushes_frame [of _ _ "[]"]) (simp_all add: s' timer_fires_def)
    with TimerFires told s' show ?thesis
      using well_told_pushes announced_frame [of s s'] by (auto simp: timer_fires_def)
  qed
  then show "well_told (hears e s h) s'" "announced s \<Longrightarrow> announced s'" by blast+
qed

lemma run_told:
  "well_told h s \<Longrightarrow> announced s \<Longrightarrow> run pf_step events s = Some s' \<Longrightarrow>
     well_told (last_heard events s h) s' \<and> announced s'"
proof (induction events arbitrary: s h)
  case (Cons e events)
  from Cons.prems(3) obtain t where t: "pf_step e s = Some t" "run pf_step events t = Some s'"
    by (auto split: option.splits)
  with Cons.IH [OF pf_step_told(1) [OF Cons.prems(1) t(1)] pf_step_told(2) [OF Cons.prems(1) t(1) Cons.prems(2)] t(2)]
  show ?case by simp
qed simp

text \<open>
  Property C13. The channel always sees what the policy knows. Take any sequence of resolver updates, subchannel updates,
  idle exits and timer expirations that a new policy survives without a panic; nothing is assumed of their order. Then
  the state reported last is the policy's own, and the picker reported with it sends calls to the selected subchannel
  when the policy is READY, queues them while it is CONNECTING or IDLE (the first pick also waking an idle policy), and
  fails them with UNAVAILABLE in TRANSIENT_FAILURE. A selected subchannel is one whose latest word to the policy,
  its latest update or else the state it was handed out with, was READY.
\<close>

theorem pick_first_announces:
  assumes "run pf_step events pick_first_build = Some s" and "last_picker (actions s) = Some (c, p)"
  shows "c = pf_state s \<and>
    (case c of
       ReadyState \<Rightarrow> \<exists>a st. selected s = Some a \<and> fst (pick p triggered) = PickSubchannel a \<and>
         last_heard events pick_first_build Map.empty a = Some st \<and> connectivity_state st = ReadyState
     | TransientFailure \<Rightarrow> \<exists>e. fst (pick p triggered) = FailPick (status_error Unavailable e)
     | Idle \<Rightarrow> pick p triggered = (QueuePick, True, \<not> triggered)
     | Connecting \<Rightarrow> fst (pick p triggered) = QueuePick)"
proof -
  have "well_told Map.empty (pick_first_build :: 'a PickFirst)" "announced (pick_first_build :: 'a PickFirst)"
    by (simp_all add: well_told_def announced_def pick_first_build_def)
  from run_told [OF this assms(1)] have told: "well_told (last_heard events pick_first_build Map.empty) s" and "announced s"
    by blast+
  then have c: "c = pf_state s" "picker_ok c (selected s) p" using assms(2) by (auto simp: announced_def)
  have "heard_ready (last_heard events pick_first_build Map.empty) a" if "selected s = Some a" for a
    using told that by (simp add: well_told_def)
  with c show ?thesis
    by (cases c) (auto simp: heard_ready_def pick_defs split: option.splits Picker.splits)
qed

theorem pick_first_announces_witness:
  "let a = tcp_address ''a''; c = ReadyState; p = OneSubchannelPicker a;
       events = [Resolved (\<lambda>_. idle) id False (Inr [endpoint [a]]) None, Work (Some (a, ready))];
       s = the (run pf_step events pick_first_build)
   in c = pf_state s \<and>
    (case c of
       ReadyState \<Rightarrow> \<exists>a st. selected s = Some a \<and> fst (pick p False) = PickSubchannel a \<and>
         last_heard events pick_first_build Map.empty a = Some st \<and> connectivity_state st = ReadyState
     | TransientFailure \<Rightarrow> \<exists>e. fst (pick p False) = FailPick (status_error Unavailable e)
     | Idle \<Rightarrow> pick p False = (QueuePick, True, \<not> False)
     | Connecting \<Rightarrow> fst (pick p False) = QueuePick)"
proof -
  let ?events = "[Resolved (\<lambda>_. idle) id False (Inr [endpoint [tcp_address ''a'']]) None, Work (Some (tcp_address ''a'', ready))]"
  have run: "run pf_step ?events pick_first_build = Some (the (run pf_step ?events pick_first_build))"
    by (rule not_none_the) code_simp
  have "last_picker (actions (the (run pf_step ?events pick_first_build))) = Some (ReadyState, OneSubchannelPicker (tcp_address ''a''))"
    by code_simp
  from pick_first_announces [OF run this, of False] show ?thesis by (simp only: Let_def)
qed

subsection \<open>A connection pass\<close>

text \<open>The pass has reached address \<open>k\<close>: it is being attempted, the addresses behind it have not been.\<close>

definition attempting :: "'a Address list \<Rightarrow> nat \<Rightarrow> 'a PickFirst \<Rightarrow> bool" where
  "attempting as k s \<longleftrightarrow>
     subchannels s = as \<and> distinct as \<and> k < length as \<and> frontier_index s = k \<and> selected s = None \<and>
     steady_state s = None \<and> pf_state s = Connecting \<and> timer s \<noteq> None \<and> in_state Connecting s (as ! k) \<and>
     list_all (in_state Idle s) (drop (Suc k) as)"

lemma advance_to_next:
  assumes "subchannels s = as" "frontier_index s = k" "Suc k < length as" "in_state c s (as ! Suc k)" "c \<noteq> TransientFailure"
  shows "advance_frontier False s = Some (Some (as ! Suc k), s\<lparr>frontier_index := Suc k\<rparr>)"
  using assms by (auto simp: advance_frontier_def Let_def in_state_iff Cons_nth_drop_Suc [symmetric])

lemma attempting_next:
  assumes "attempting as k s" "Suc k < length as"
    and "t = trigger_subchannel_connection (as ! Suc k) (u\<lparr>frontier_index := Suc k\<rparr>)"
    and "subchannels u = as" "selected u = None" "steady_state u = None" "pf_state u = Connecting"
    and "\<And>b. b \<in> set (drop (Suc k) as) \<Longrightarrow> subchannel_states u b = subchannel_states s b"
  shows "attempting as (Suc k) t"
proof -
  have "as ! Suc k \<notin> set (drop (Suc (Suc k)) as)"
    using assms(1,2) by (metis Cons_nth_drop_Suc attempting_def distinct.simps(2) distinct_drop)
  with assms show ?thesis
    by (auto simp: attempting_def trigger_subchannel_connection_def in_state_def list_all_iff
        Cons_nth_drop_Suc [symmetric, of "Suc k"])
qed

lemma pass_failure:
  assumes att: "attempting as k s" and k: "Suc k < length as"
  obtains s' where "subchannel_update (as ! k) (transient_failure e) s = Some s'" "attempting as (Suc k) s'"
    "actions s' = actions s @ [Connect (as ! Suc k)]" "resolution_note s' = resolution_note s"
    "subchannel_states s' = (subchannel_states s)(as ! k \<mapsto> transient_failure e, as ! Suc k \<mapsto> connecting)"
proof -
  let ?u = "s\<lparr>subchannel_states := (subchannel_states s)(as ! k \<mapsto> transient_failure e), last_error := Some e\<rparr>"
  let ?t = "trigger_subchannel_connection (as ! Suc k) (?u\<lparr>frontier_index := Suc k\<rparr>)"
  have ne: "b \<noteq> as ! k" if "b \<in> set (drop (Suc k) as)" for b
    using att that by (metis attempting_def Cons_nth_drop_Suc distinct.simps(2) distinct_drop)
  then have "as ! Suc k \<noteq> as ! k" using k by (metis Cons_nth_drop_Suc list.set_intros(1))
  moreover have "in_state Idle s (as ! Suc k)"
    using att k by (simp add: attempting_def Cons_nth_drop_Suc [symmetric, of "Suc k"])
  ultimately have adv: "advance_frontier False ?u = Some (Some (as ! Suc k), ?u\<lparr>frontier_index := Suc k\<rparr>)"
    using att k by (intro advance_to_next [where c = Idle]) (simp_all add: attempting_def)
  have att': "attempting as (Suc k) ?t"
    using att k ne by (intro attempting_next [OF att k refl]) (auto simp: attempting_def)
  have "frontier_failure (as ! k) (transient_failure e) ?u = Some ?t"
    using att adv by (simp add: frontier_failure_def attempting_def)
  moreover have "finish_first_pass ?t = Some ?t"
    using att' by (simp add: finish_first_pass_def attempting_def)
  ultimately have "subchannel_update (as ! k) (transient_failure e) s = Some ?t"
    using att by (simp add: subchannel_update_def subchannel_is_current_def subchannel_is_selected_def attempting_def
        Let_def update_first_pass_def)
  then show thesis
    by (rule that [OF _ att']) (simp_all add: trigger_subchannel_connection_def)
qed

lemma pass_timer:
  assumes att: "attempting as k s" and k: "Suc k < length as"
  obtains s' where "run pf_step [TimerFires, Work None] s = Some s'" "attempting as (Suc k) s'"
    "actions s' = actions s @ [Connect (as ! Suc k)]" "resolution_note s' = resolution_note s"
proof -
  let ?t = "trigger_subchannel_connection (as ! Suc k) ((timer_fires s)\<lparr>frontier_index := Suc k\<rparr>)"
  have "in_state Idle s (as ! Suc k)"
    using att k by (simp add: attempting_def Cons_nth_drop_Suc [symmetric, of "Suc k"])
  then have "advance_frontier False (timer_fires s) = Some (Some (as ! Suc k), (timer_fires s)\<lparr>frontier_index := Suc k\<rparr>)"
    using att k by (intro advance_to_next [where c = Idle]) (simp_all add: attempting_def timer_fires_def)
  then have "run pf_step [TimerFires, Work None] s = Some ?t"
    using att by (auto simp: work_def attempting_def timer_fires_def)
  moreover have "attempting as (Suc k) ?t"
    using att by (intro attempting_next [OF att k refl]) (simp_all add: attempting_def timer_fires_def)
  ultimately show thesis by (rule that) (simp_all add: timer_fires_def)
qed

lemma pass_start:
  assumes new: "subchannels s = []" "pf_state s \<noteq> Connecting" and as: "as = compile_address shuffler shuffle eps" "as \<noteq> []"
  obtains s' where "resolver_update (\<lambda>_. idle) shuffler shuffle (Inr eps) n s = Some (Inr (), s')" "attempting as 0 s'"
    "actions s' = actions s @ map NewSubchannel as @ [Connect (as ! 0), UpdatePicker Connecting QueuingPicker]"
    "resolution_note s' = n"
proof -
  let ?s = "s\<lparr>timer := None, steady_state := None, resolution_note := n\<rparr>"
  let ?t = "?s\<lparr>subchannels := as, subchannel_states := kept_map (\<lambda>_. idle) ?s as, actions := actions s @ map NewSubchannel as\<rparr>"
  let ?u = "trigger_subchannel_connection (as ! 0) (?t\<lparr>selected := None, frontier_index := 0\<rparr>)"
  have dist: "distinct as" using as(1) by (simp add: compile_address_distinct)
  have kept: "kept (\<lambda>_. idle) ?s a = idle" for a using new by (simp add: kept_def)
  then have none: "ready_candidate (\<lambda>_. idle) ?s as = None" by (simp add: ready_candidate_None)
  have rebuild: "rebuild_subchannels (\<lambda>_. idle) as ?s = Some (None, ?t)"
    using rebuild_subchannels_spec [OF dist, of ?s "\<lambda>_. idle"] new none by simp
  have "advance_frontier True (?t\<lparr>selected := None\<rparr>) = Some (Some (as ! 0), ?t\<lparr>selected := None, frontier_index := 0\<rparr>)"
    using as(2) by (cases as) (simp_all add: advance_frontier_def kept_map_def kept)
  then have "start_connection_pass ?t = Some (update_picker Connecting QueuingPicker ?u)"
    by (simp add: start_connection_pass_def)
  with rebuild as have "resolver_update (\<lambda>_. idle) shuffler shuffle (Inr eps) n s = Some (Inr (), update_picker Connecting QueuingPicker ?u)"
    by (simp add: resolver_update_def Let_def)
  moreover have "attempting as 0 (update_picker Connecting QueuingPicker ?u)"
    using as(2) dist
    by (cases as) (auto simp: attempting_def trigger_subchannel_connection_def in_state_def kept_map_def kept list_all_iff)
  moreover have "actions (update_picker Connecting QueuingPicker ?u) =
      actions s @ map NewSubchannel as @ [Connect (as ! 0), UpdatePicker Connecting QueuingPicker]"
    using new(2) by (simp add: update_picker_def trigger_subchannel_connection_def)
  ultimately show thesis by (rule that) simp
qed

text \<open>How each attempt of a pass ends: with an error of its own, or with the timer expiring first.\<close>

fun attempt_events :: "'a Address \<Rightarrow> string option \<Rightarrow> 'a pf_event list" where
  "attempt_events a (Some e) = [Work (Some (a, transient_failure e))]"
| "attempt_events a None = [TimerFires, Work None]"

lemma attempts_run:
  assumes "attempting as k s" "k + length outcomes < length as"
  shows "\<exists>s'. run pf_step (concat (map2 attempt_events (drop k as) outcomes)) s = Some s' \<and>
    attempting as (k + length outcomes) s' \<and> resolution_note s' = resolution_note s \<and>
    actions s' = actions s @ map Connect (take (length outcomes) (drop (Suc k) as))"
  using assms
proof (induction outcomes arbitrary: k s)
  case Nil
  then show ?case by simp
next
  case (Cons out outcomes)
  then have k: "Suc k < length as" by simp
  obtain t where t: "run pf_step (attempt_events (as ! k) out) s = Some t" "attempting as (Suc k) t"
    "actions t = actions s @ [Connect (as ! Suc k)]" "resolution_note t = resolution_note s"
  proof (cases out)
    case None
    obtain t where "run pf_step [TimerFires, Work None] s = Some t" "attempting as (Suc k) t"
      "actions t = actions s @ [Connect (as ! Suc k)]" "resolution_note t = resolution_note s"
      by (rule pass_timer [OF Cons.prems(1) k])
    then show thesis by (intro that [of t]) (simp_all only: None attempt_events.simps)
  next
    case (Some e)
    obtain t where "subchannel_update (as ! k) (transient_failure e) s = Some t" "attempting as (Suc k) t"
      "actions t = actions s @ [Connect (as ! Suc k)]" "resolution_note t = resolution_note s"
      by (rule pass_failure [OF Cons.prems(1) k])
    then show thesis by (intro that [of t]) (simp_all add: Some work_def)
  qed
  from Cons.IH [OF t(2)] Cons.prems(2) obtain s' where
    "run pf_step (concat (map2 attempt_events (drop (Suc k) as) outcomes)) t = Some s'"
    "attempting as (Suc k + length outcomes) s'" "resolution_note s' = resolution_note t"
    "actions s' = actions t @ map Connect (take (length outcomes) (drop (Suc (Suc k)) as))"
    by auto
  moreover have "drop k as = as ! k # drop (Suc k) as" "drop (Suc k) as = as ! Suc k # drop (Suc (Suc k)) as"
    using k by (simp_all add: Cons_nth_drop_Suc)
  ultimately show ?case using t by (simp add: run_append)
qed



text \<open>The error a policy reports carries the resolver's note.\<close>

definition with_note :: "string \<Rightarrow> string option \<Rightarrow> string" where
  "with_note e n = (case n of Some t \<Rightarrow> if t \<noteq> [] then e @ '' ('' @ t @ '')'' else e | None \<Rightarrow> e)"

lemma pass_exhausted:
  assumes att: "attempting as k s" and k: "Suc k = length as" and failed: "list_all (in_state TransientFailure s) (take k as)"
  obtains s' where "subchannel_update (as ! k) (transient_failure e) s = Some s'"
    "actions s' = actions s @ [UpdatePicker TransientFailure (FailingPicker (with_note e (resolution_note s))), RequestResolution]"
    "pf_state s' = TransientFailure" "timer s' = None" "subchannels s' = as"
    "steady_state s' = Some \<lparr>failure_threshold = length as, failure_count = 0\<rparr>"
proof -
  let ?u = "s\<lparr>subchannel_states := (subchannel_states s)(as ! k \<mapsto> transient_failure e), last_error := Some e\<rparr>"
  let ?v = "?u\<lparr>frontier_index := Suc k\<rparr>"
  have ff: "frontier_failure (as ! k) (transient_failure e) ?u = Some ?v"
    using att k by (simp add: frontier_failure_def attempting_def advance_frontier_def Let_def)
  have all: "in_state TransientFailure ?v a" if "a \<in> set as" for a
  proof (cases "a = as ! k")
    case False
    from k have "as = take k as @ [as ! k]" by (metis lessI take_Suc_conv_app_nth take_all_iff order_refl)
    with that False have "a \<in> set (take k as)" by (metis Un_iff empty_iff empty_set insert_iff list.set(2) set_append)
    with failed False show ?thesis by (simp add: list_all_iff)
  qed simp
  then have idle: "\<not> in_state Idle ?v a" "\<not> in_state Connecting ?v a" if "a \<in> set as" for a
    using that in_state_unique by fastforce+
  have no_connect: "foldl (\<lambda>t a. if in_state Idle t a then emit (Connect a) t else t) w bs = w"
    if "\<And>b. b \<in> set bs \<Longrightarrow> \<not> in_state Idle w b" for w :: "'a PickFirst" and bs
    using that by (induction bs) simp_all
  let ?w = "emit RequestResolution (update_picker TransientFailure (FailingPicker (with_note e (resolution_note s))) (?v\<lparr>timer := None, last_error := Some e\<rparr>))"
  have stf: "set_transient_failure (last_error ?v) (?v\<lparr>timer := None\<rparr>) = Some (with_note e (resolution_note s), ?w)"
    by (simp add: set_transient_failure_def with_note_def Let_def)
  have "finish_first_pass ?v = Some (?w\<lparr>steady_state := Some \<lparr>failure_threshold = length as, failure_count = 0\<rparr>\<rparr>)"
    using att k idle stf by (simp add: finish_first_pass_def attempting_def no_connect)
  with ff have "subchannel_update (as ! k) (transient_failure e) s =
      Some (?w\<lparr>steady_state := Some \<lparr>failure_threshold = length as, failure_count = 0\<rparr>\<rparr>)"
    using att by (simp add: subchannel_update_def subchannel_is_current_def subchannel_is_selected_def attempting_def
        Let_def update_first_pass_def)
  then show thesis by (rule that) (use att in \<open>simp_all add: attempting_def update_picker_def\<close>)
qed

lemma failures_run:
  assumes "attempting as k s" "k + length es < length as" "list_all (in_state TransientFailure s) (take k as)"
  shows "\<exists>s'. run pf_step (map2 (\<lambda>a e. Work (Some (a, transient_failure e))) (drop k as) es) s = Some s' \<and>
    attempting as (k + length es) s' \<and> resolution_note s' = resolution_note s \<and>
    list_all (in_state TransientFailure s') (take (k + length es) as) \<and>
    actions s' = actions s @ map Connect (take (length es) (drop (Suc k) as))"
  using assms
proof (induction es arbitrary: k s)
  case Nil
  then show ?case by simp
next
  case (Cons e es)
  then have k: "Suc k < length as" by simp
  obtain t where t: "subchannel_update (as ! k) (transient_failure e) s = Some t" "attempting as (Suc k) t"
    "actions t = actions s @ [Connect (as ! Suc k)]" "resolution_note t = resolution_note s"
    "subchannel_states t = (subchannel_states s)(as ! k \<mapsto> transient_failure e, as ! Suc k \<mapsto> connecting)"
    by (rule pass_failure [OF Cons.prems(1) k])
  have "distinct as" using Cons.prems(1) by (simp add: attempting_def)
  then have "a \<noteq> as ! Suc k" if "a \<in> set (take (Suc k) as)" for a
    using that k by (auto simp: in_set_conv_nth nth_eq_iff_index_eq)
  then have "list_all (in_state TransientFailure t) (take (Suc k) as)"
    using Cons.prems(3) k by (auto simp: list_all_iff take_Suc_conv_app_nth in_state_def t(5))
  from Cons.IH [OF t(2) _ this] Cons.prems(2) obtain s' where
    "run pf_step (map2 (\<lambda>a e. Work (Some (a, transient_failure e))) (drop (Suc k) as) es) t = Some s'"
    "attempting as (Suc k + length es) s'" "resolution_note s' = resolution_note t"
    "list_all (in_state TransientFailure s') (take (Suc k + length es) as)"
    "actions s' = actions t @ map Connect (take (length es) (drop (Suc (Suc k)) as))"
    by auto
  moreover have "drop k as = as ! k # drop (Suc k) as" "drop (Suc k) as = as ! Suc k # drop (Suc (Suc k)) as"
    using k by (simp_all add: Cons_nth_drop_Suc)
  ultimately show ?case using t by (simp add: work_def)
qed



subsection \<open>After the pass\<close>

text \<open>
  In the steady state the policy asks for a new resolution once per round of failures: \<open>k\<close> failures of
  listed subchannels, on top of the \<open>c\<close> already counted, make \<open>(c + k) div n\<close> requests and leave \<open>(c + k) mod n\<close>
  counted, \<open>n\<close> being the number of addresses of the pass, and nothing else is sent to the channel.
\<close>

theorem steady_state_requests:
  assumes "steady_state s = Some \<lparr>failure_threshold = n, failure_count = c\<rparr>" "c < n" "selected s = None"
    and "\<forall>(a, e) \<in> set failures. a \<in> set (subchannels s)"
  shows "\<exists>s'. run pf_step (map (\<lambda>(a, e). Work (Some (a, transient_failure e))) failures) s = Some s' \<and>
    actions s' = actions s @ replicate ((c + length failures) div n) RequestResolution \<and>
    steady_state s' = Some \<lparr>failure_threshold = n, failure_count = (c + length failures) mod n\<rparr> \<and> pf_state s' = pf_state s"
  using assms
proof (induction failures arbitrary: s c)
  case Nil
  then show ?case by simp
next
  case (Cons f failures)
  obtain a e where f: "f = (a, e)" by (cases f)
  let ?t = "s\<lparr>subchannel_states := (subchannel_states s)(a \<mapsto> transient_failure e), last_error := Some e\<rparr>"
  let ?c = "if Suc c = n then 0 else Suc c"
  define u where "u = subchannel_nonready \<lparr>failure_threshold = n, failure_count = c\<rparr> a (transient_failure e) ?t"
  have step: "subchannel_update a (transient_failure e) s = Some u"
    using Cons.prems f
    by (simp add: subchannel_update_def subchannel_is_current_def subchannel_is_selected_def Let_def u_def)
  have u: "steady_state u = Some \<lparr>failure_threshold = n, failure_count = ?c\<rparr>" "selected u = None" "pf_state u = pf_state s"
    "subchannels u = subchannels s" "actions u = actions s @ (if Suc c = n then [RequestResolution] else [])"
    using Cons.prems by (simp_all add: u_def subchannel_nonready_def Let_def)
  have c: "?c < n" and listed: "\<forall>(a, e) \<in> set failures. a \<in> set (subchannels u)"
    using Cons.prems u(4) by auto
  from Cons.IH [OF u(1) c u(2) listed] obtain s' where s':
    "run pf_step (map (\<lambda>(a, e). Work (Some (a, transient_failure e))) failures) u = Some s'"
    "actions s' = actions u @ replicate ((?c + length failures) div n) RequestResolution"
    "steady_state s' = Some \<lparr>failure_threshold = n, failure_count = (?c + length failures) mod n\<rparr>" "pf_state s' = pf_state u"
    by blast
  have count: "(c + Suc (length failures)) div n = (if Suc c = n then 1 else 0) + (?c + length failures) div n"
    using div_add_self1 [of n "length failures"] Cons.prems(2) by auto
  have "replicate ((c + Suc (length failures)) div n) RequestResolution =
      (if Suc c = n then [RequestResolution] else []) @ replicate ((?c + length failures) div n) (RequestResolution :: 'a action)"
    unfolding count by simp
  moreover have "c + Suc (length failures) = (if Suc c = n then n else 0) + (?c + length failures)" by auto
  then have "(c + Suc (length failures)) mod n = (?c + length failures) mod n"
    by (cases "Suc c = n") (simp_all only: simp_thms if_True if_False mod_add_self1 add_0)
  ultimately show ?case
    using step s' u by (simp add: f work_def)
qed

theorem steady_state_requests_witness:
  "\<exists>s'. run pf_step (map (\<lambda>(a, e). Work (Some (a, transient_failure e)))
        [(tcp_address ''a'', ''x''), (tcp_address ''b'', ''y''), (tcp_address ''a'', ''z'')])
      (pick_first_build\<lparr>subchannels := [tcp_address ''a'', tcp_address ''b''], pf_state := TransientFailure,
        steady_state := Some \<lparr>failure_threshold = 2, failure_count = 0\<rparr>\<rparr>) = Some s' \<and>
    actions s' = actions (pick_first_build\<lparr>subchannels := [tcp_address ''a'', tcp_address ''b''], pf_state := TransientFailure,
        steady_state := Some \<lparr>failure_threshold = 2, failure_count = 0\<rparr>\<rparr>) @ replicate ((0 + 3) div 2) RequestResolution \<and>
    steady_state s' = Some \<lparr>failure_threshold = 2, failure_count = (0 + 3) mod 2\<rparr> \<and> pf_state s' = TransientFailure"
  using steady_state_requests [of "pick_first_build\<lparr>subchannels := [tcp_address ''a'', tcp_address ''b''], pf_state := TransientFailure,
        steady_state := Some \<lparr>failure_threshold = 2, failure_count = 0\<rparr>\<rparr>" 2 0
      "[(tcp_address ''a'', ''x''), (tcp_address ''b'', ''y''), (tcp_address ''a'', ''z'')]"]
  by (simp add: pick_first_build_def numeral_3_eq_3)

text \<open>
  The first READY subchannel wins: whatever the pass was doing, it becomes the selected and only listed
  subchannel and calls go to it, and every later report of any other subchannel changes nothing.
\<close>

theorem first_ready_wins:
  assumes "a \<in> set (subchannels s)" "selected s = None" "\<forall>(b, st) \<in> set others. b \<noteq> a"
  shows "\<exists>s'. run pf_step (Work (Some (a, ready)) # map (\<lambda>u. Work (Some u)) others) s = Some s' \<and>
    selected s' = Some a \<and> subchannels s' = [a] \<and> timer s' = None \<and> steady_state s' = None \<and>
    actions s' = actions s @ [UpdatePicker ReadyState (OneSubchannelPicker a)]"
proof -
  obtain t where t: "subchannel_update a ready s = Some t" and
    fields: "selected t = Some a" "subchannels t = [a]" "timer t = None" "steady_state t = None"
    "actions t = actions s @ [UpdatePicker ReadyState (OneSubchannelPicker a)]"
    using assms(1,2)
    by (simp add: subchannel_update_def subchannel_is_current_def Let_def subchannel_activate_def
        subchannel_is_selected_def update_picker_def)
  have "run pf_step (map (\<lambda>u. Work (Some u)) others) t = Some t"
    using assms(3)
  proof (induction others)
    case (Cons u others)
    then have "work (Some u) t = Some t"
      using fields(2) by (cases u) (auto simp: work_def subchannel_update_def subchannel_is_current_def)
    with Cons show ?case by simp
  qed simp
  with t fields show ?thesis by (simp add: work_def)
qed

theorem first_ready_wins_witness:
  "\<exists>s'. run pf_step (Work (Some (tcp_address ''b'', ready)) #
        map (\<lambda>u. Work (Some u)) [(tcp_address ''a'', transient_failure ''x''), (tcp_address ''a'', idle)])
      (pick_first_build\<lparr>subchannels := [tcp_address ''a'', tcp_address ''b'']\<rparr>) = Some s' \<and>
    selected s' = Some (tcp_address ''b'') \<and> subchannels s' = [tcp_address ''b''] \<and> timer s' = None \<and> steady_state s' = None \<and>
    actions s' = actions (pick_first_build\<lparr>subchannels := [tcp_address ''a'', tcp_address ''b'']\<rparr>) @
      [UpdatePicker ReadyState (OneSubchannelPicker (tcp_address ''b''))]"
  by (rule first_ready_wins) (simp_all add: pick_first_build_def)

subsection \<open>Where the policy goes wrong\<close>


text \<open>
  Addresses whose text contains a colon are all taken for IPv6: when every address is TCP and written
  as \<open>host:port\<close>, as the DNS resolver writes them, the list keeps the resolver's order and the families are not
  interleaved.
\<close>

theorem host_port_not_interleaved:
  assumes "\<forall>ep \<in> set eps. \<forall>a \<in> set (addresses ep). network_type a = ''tcp'' \<and> CHR '':'' \<in> set (address a)"
  shows "compile_address shuffler False eps = rev (remdups (rev (concat (map addresses eps))))"
proof -
  let ?u = "dedup {} (concat (map addresses eps))"
  have "\<forall>a \<in> set ?u. is_tcp a \<and> is_ipv6 a"
    using assms by (auto simp: set_dedup is_tcp_def is_ipv6_def TCP_IP_NETWORK_TYPE_def)
  then have "filter is_tcp ?u = ?u" "filter is_ipv6 ?u = ?u" "filter (\<lambda>a. \<not> is_tcp a) ?u = []" "filter (\<lambda>a. \<not> is_ipv6 a) ?u = []"
    "filter is_ipv6 (filter is_tcp ?u) = ?u" "filter (\<lambda>a. \<not> is_ipv6 a) (filter is_tcp ?u) = []"
    by (simp_all add: filter_empty_conv)
  moreover have "interleave3 xs [] [] = xs" for xs :: "'b list"
    by (induction xs) (simp_all add: interleave3.simps)
  ultimately have "compile_address shuffler False eps = ?u"
    by (simp only: compile_address_def Let_def if_False)
  then show ?thesis by (simp add: dedup_remdups)
qed

theorem host_port_not_interleaved_witness:
  "compile_address id False
     [endpoint [tcp_address ''10.0.0.1:80''], endpoint [tcp_address ''10.0.0.2:80''], endpoint [tcp_address ''[::1]:80'']] =
   rev (remdups (rev (concat (map addresses
     [endpoint [tcp_address ''10.0.0.1:80''], endpoint [tcp_address ''10.0.0.2:80''], endpoint [tcp_address ''[::1]:80'']]))))"
  by (rule host_port_not_interleaved) simp

text \<open>
  A policy that is READY can report TRANSIENT_FAILURE: when a resolver update keeps the selected
  subchannel, the other addresses stay listed beside it, and the failure of one of them (a shared subchannel another
  policy connects) at the old frontier ends a first pass that is not running, although the selected subchannel is READY.
\<close>

theorem sticky_ready_reports_failure:
  "let a = tcp_address ''a''; b = tcp_address ''b''; c = tcp_address ''c'';
       s = the (run pf_step
         [Resolved (\<lambda>_. idle) id False (Inr [endpoint [a, b]]) None, TimerFires, Work None, Work (Some (b, ready)),
          Resolved (\<lambda>_. connecting) id False (Inr [endpoint [b, c]]) None, Work (Some (c, transient_failure ''refused''))]
         pick_first_build)
   in selected s = Some b \<and> in_state ReadyState s b \<and> pf_state s = TransientFailure \<and>
      last_picker (actions s) = Some (TransientFailure, FailingPicker ''refused'')"
  by code_simp

end
