(* ===== verification/Subchannel.thy ===== *)
theory Subchannel
  imports Grpc_Core Lb_Common
begin

text \<open>
  \<open>grpc/src/client/subchannel.rs\<close>: one connection slot of a channel. A subchannel has a state, a
  background task that manages it until it is idle again, and a work scheduler to which it sends its
  updates. The steps of the task and of its environment (the transport, timers, the last reference going
  away) are a transition relation. The service of a ready connection is a type parameter.
\<close>

record 'i ReadyConnection =
  service :: 'i
  security_level :: SecurityLevel
  security_protocol :: string
  authority :: Authority

datatype 'i InternalSubchannelState =
    IntIdle
  | IntConnecting
  | IntReady "'i ReadyConnection"
  | IntTransientFailure string

fun subchannel_state_from :: "'i InternalSubchannelState \<Rightarrow> SubchannelState" where
  "subchannel_state_from IntIdle = \<lparr>connectivity_state = Idle, last_connection_error = None\<rparr>"
| "subchannel_state_from IntConnecting = \<lparr>connectivity_state = Connecting, last_connection_error = None\<rparr>"
| "subchannel_state_from (IntReady c) = \<lparr>connectivity_state = ReadyState, last_connection_error = None\<rparr>"
| "subchannel_state_from (IntTransientFailure e) = \<lparr>connectivity_state = TransientFailure, last_connection_error = Some e\<rparr>"

text \<open>\<open>PartialEq\<close>: the variants are compared, not their contents.\<close>

fun int_state_eq :: "'i InternalSubchannelState \<Rightarrow> 'i InternalSubchannelState \<Rightarrow> bool" where
  "int_state_eq IntIdle IntIdle = True"
| "int_state_eq IntConnecting IntConnecting = True"
| "int_state_eq (IntReady _) (IntReady _) = True"
| "int_state_eq (IntTransientFailure _) (IntTransientFailure _) = True"
| "int_state_eq _ _ = False"

text \<open>What the background task waits for: the transport, the end of the connection, or the backoff.\<close>

datatype Task = ConnectTask | ClosedTask | BackoffTask

text \<open>\<open>alive\<close> is whether \<open>weak_self\<close> can be upgraded; \<open>resets\<close> counts the backoff resets.\<close>

record 'i InternalSubchannel =
  sc_state :: "'i InternalSubchannelState"
  alive :: bool
  task :: "Task option"
  sent :: "SubchannelState list"
  resets :: nat

definition new_arc :: "'i InternalSubchannel" where
  "new_arc = \<lparr>sc_state = IntIdle, alive = True, task = None, sent = [], resets = 0\<rparr>"

definition update_state :: "'i InternalSubchannelState \<Rightarrow> 'i InternalSubchannel \<Rightarrow> 'i InternalSubchannel" where
  "update_state st s =
     s\<lparr>sc_state := st, sent := (if alive s then sent s @ [subchannel_state_from st] else sent s)\<rparr>"

definition move_to_idle :: "'i InternalSubchannel \<Rightarrow> 'i InternalSubchannel" where
  "move_to_idle s = (update_state IntIdle s)\<lparr>task := None\<rparr>"

definition begin_connecting_if_idle :: "'i InternalSubchannel \<Rightarrow> 'i InternalSubchannel" where
  "begin_connecting_if_idle s =
     (if \<not> int_state_eq (sc_state s) IntIdle then s
      else (update_state IntConnecting s)\<lparr>task := Some ConnectTask\<rparr>)"

definition move_to_ready :: "'i ReadyConnection \<Rightarrow> 'i InternalSubchannel \<Rightarrow> 'i InternalSubchannel" where
  "move_to_ready c s = (update_state (IntReady c) (s\<lparr>resets := resets s + 1\<rparr>))\<lparr>task := Some ClosedTask\<rparr>"

definition move_to_transient_failure :: "string \<Rightarrow> 'i InternalSubchannel \<Rightarrow> 'i InternalSubchannel" where
  "move_to_transient_failure err s = (update_state (IntTransientFailure err) s)\<lparr>task := Some BackoffTask\<rparr>"

text \<open>
  The steps. When the last reference is dropped the waiting task is notified and stops; a task that is
  between two waits misses the notification and goes on.
\<close>

inductive sc_step :: "'i InternalSubchannel \<Rightarrow> 'i InternalSubchannel \<Rightarrow> bool" where
  connect: "alive s \<Longrightarrow> sc_step s (begin_connecting_if_idle s)"
| connect_timeout: "task s = Some ConnectTask \<Longrightarrow> sc_step s (move_to_transient_failure ''connect timeout expired'' s)"
| connect_ok: "task s = Some ConnectTask \<Longrightarrow> sc_step s (move_to_ready c s)"
| connect_err: "task s = Some ConnectTask \<Longrightarrow> sc_step s (move_to_transient_failure e s)"
| closed: "task s = Some ClosedTask \<Longrightarrow> sc_step s (move_to_idle s)"
| backoff_expired: "task s = Some BackoffTask \<Longrightarrow> sc_step s (move_to_idle s)"
| dropped: "alive s \<Longrightarrow> sc_step s (s\<lparr>alive := False, task := None\<rparr>)"
| dropped_unnoticed: "alive s \<Longrightarrow> sc_step s (s\<lparr>alive := False\<rparr>)"

inductive sc_reachable :: "'i InternalSubchannel \<Rightarrow> bool" where
  new: "sc_reachable new_arc"
| step: "sc_reachable s \<Longrightarrow> sc_step s s' \<Longrightarrow> sc_reachable s'"

inductive_cases sc_stepE: "sc_step s s'"

subsection \<open>Calls\<close>

record CallDetails =
  service_url :: string
  method_name :: string

definition create_call_details :: "Authority \<Rightarrow> string \<Rightarrow> CallDetails" where
  "create_call_details a full_method =
     (let (svc, mth) = (case rsplit_once CHR ''/'' full_method of Some p \<Rightarrow> p | None \<Rightarrow> (full_method, []));
          h = (if port a = Some 443 then host a else host_port_string a)
      in \<lparr>service_url = ''https://'' @ h @ svc, method_name = mth\<rparr>)"

text \<open>
  Call credentials: the level they need and what they add to the request's metadata. The request is the
  method name and its metadata.
\<close>

record CallCredentials =
  minimum_channel_security_level :: SecurityLevel
  get_metadata :: "CallDetails \<Rightarrow> string \<Rightarrow> SecurityLevel \<Rightarrow> (string \<times> string) list \<Rightarrow> StatusError + (string \<times> string) list"

datatype 'i invoke_result =
    FailWith StatusError
  | InvokeService 'i string "(string \<times> string) list"

text \<open>\<open>dyn_invoke\<close>; a subchannel that is not ready panics (\<open>todo!\<close>).\<close>

definition dyn_invoke ::
    "CallCredentials option \<Rightarrow> string \<Rightarrow> (string \<times> string) list \<Rightarrow> 'i InternalSubchannel \<Rightarrow> 'i invoke_result option" where
  "dyn_invoke call_creds mth md s =
     (case sc_state s of
        IntReady c \<Rightarrow>
          Some (case call_creds of
            None \<Rightarrow> InvokeService (service c) mth md
          | Some creds \<Rightarrow>
              if security_level c < minimum_channel_security_level creds
              then FailWith (status_error Unauthenticated
                     ''transport: cannot send secure credentials on an insecure connection'')
              else (case get_metadata creds (create_call_details (authority c) mth) (security_protocol c) (security_level c) md of
                      Inl st \<Rightarrow>
                        FailWith (if is_restricted_control_plane_code st
                          then status_error Internal
                            (''transport: received call credentials error with illegal status: '' @ message st)
                          else st)
                    | Inr md' \<Rightarrow> InvokeService (service c) mth md'))
      | _ \<Rightarrow> None)"

subsection \<open>The lifecycle\<close>

text \<open>The transitions the \<open>Subchannel\<close> trait documents.\<close>

fun documented :: "ConnectivityState \<Rightarrow> ConnectivityState \<Rightarrow> bool" where
  "documented Idle Connecting = True"
| "documented Connecting ReadyState = True"
| "documented Connecting TransientFailure = True"
| "documented ReadyState Idle = True"
| "documented TransientFailure Idle = True"
| "documented _ _ = False"

definition state_task_ok :: "'i InternalSubchannel \<Rightarrow> bool" where
  "state_task_ok s \<longleftrightarrow>
     (case sc_state s of
        IntIdle \<Rightarrow> task s = None
      | IntConnecting \<Rightarrow> task s = Some ConnectTask \<or> \<not> alive s \<and> task s = None
      | IntReady _ \<Rightarrow> task s = Some ClosedTask \<or> \<not> alive s \<and> task s = None
      | IntTransientFailure _ \<Rightarrow> task s = Some BackoffTask \<or> \<not> alive s \<and> task s = None)"

definition error_iff_failed :: "SubchannelState \<Rightarrow> bool" where
  "error_iff_failed st \<longleftrightarrow> (last_connection_error st \<noteq> None \<longleftrightarrow> connectivity_state st = TransientFailure)"

definition sc_inv :: "'i InternalSubchannel \<Rightarrow> bool" where
  "sc_inv s \<longleftrightarrow>
     state_task_ok s \<and> successively documented (map connectivity_state (idle # sent s)) \<and>
     list_all error_iff_failed (sent s) \<and>
     (alive s \<longrightarrow> last (idle # sent s) = subchannel_state_from (sc_state s))"

lemma update_state_inv:
  assumes "successively documented (map connectivity_state (idle # sent s))" "list_all error_iff_failed (sent s)"
    and "alive s \<longrightarrow> last (idle # sent s) = subchannel_state_from (sc_state s)"
    and "documented (connectivity_state (subchannel_state_from (sc_state s))) (connectivity_state (subchannel_state_from st))"
  shows "successively documented (map connectivity_state (idle # sent (update_state st s)))"
    and "list_all error_iff_failed (sent (update_state st s))"
    and "alive s \<longrightarrow> last (idle # sent (update_state st s)) = subchannel_state_from st"
proof -
  have "last (map connectivity_state (idle # sent s)) = connectivity_state (last (idle # sent s))"
    by (rule last_map) simp
  moreover have "map connectivity_state (idle # sent (update_state st s)) = map connectivity_state (idle # sent s) @
      (if alive s then [connectivity_state (subchannel_state_from st)] else [])"
    by (simp add: update_state_def)
  ultimately show "successively documented (map connectivity_state (idle # sent (update_state st s)))"
    using assms by (simp add: successively_append_iff del: list.map)
  show "list_all error_iff_failed (sent (update_state st s))"
    using assms(2) by (cases st) (auto simp: update_state_def error_iff_failed_def)
  show "alive s \<longrightarrow> last (idle # sent (update_state st s)) = subchannel_state_from st"
    by (simp add: update_state_def)
qed

lemma sc_step_inv:
  assumes step: "sc_step s s'" and inv: "sc_inv s"
  shows "sc_inv s'"
proof -
  from inv have h: "state_task_ok s" "successively documented (map connectivity_state (idle # sent s))"
    "list_all error_iff_failed (sent s)" "alive s \<longrightarrow> last (idle # sent s) = subchannel_state_from (sc_state s)"
    unfolding sc_inv_def by blast+
  have upd: "sc_inv ((update_state st s)\<lparr>task := tsk, resets := n\<rparr>)"
    if "documented (connectivity_state (subchannel_state_from (sc_state s))) (connectivity_state (subchannel_state_from st))"
      "state_task_ok ((update_state st s)\<lparr>task := tsk, resets := n\<rparr>)" for st tsk n
    using update_state_inv [OF h(2-4) that(1)] that(2)
    unfolding sc_inv_def by (simp add: update_state_def del: list.map last.simps)
  from step show ?thesis
  proof (cases rule: sc_step.cases)
    case connect
    show ?thesis
    proof (cases "sc_state s")
      case IntIdle
      then show ?thesis
        using upd [of IntConnecting "resets s" "Some ConnectTask"] connect
        by (simp add: begin_connecting_if_idle_def update_state_def state_task_ok_def)
    qed (use inv connect in \<open>simp_all add: begin_connecting_if_idle_def\<close>)
  next
    case connect_timeout
    with h have "sc_state s = IntConnecting" by (cases "sc_state s") (simp_all add: state_task_ok_def)
    with connect_timeout upd [of "IntTransientFailure ''connect timeout expired''" "resets s" "Some BackoffTask"] show ?thesis
      by (simp add: move_to_transient_failure_def update_state_def state_task_ok_def)
  next
    case (connect_ok c)
    with h have "sc_state s = IntConnecting" by (cases "sc_state s") (simp_all add: state_task_ok_def)
    moreover have "move_to_ready c s = (update_state (IntReady c) s)\<lparr>task := Some ClosedTask, resets := resets s + 1\<rparr>"
      by (cases s) (simp add: move_to_ready_def update_state_def)
    ultimately show ?thesis
      using connect_ok upd [of "IntReady c" "resets s + 1" "Some ClosedTask"]
      by (simp add: update_state_def state_task_ok_def)
  next
    case (connect_err e)
    with h have "sc_state s = IntConnecting" by (cases "sc_state s") (simp_all add: state_task_ok_def)
    with connect_err upd [of "IntTransientFailure e" "resets s" "Some BackoffTask"] show ?thesis
      by (simp add: move_to_transient_failure_def update_state_def state_task_ok_def)
  next
    case closed
    with h obtain c where "sc_state s = IntReady c" by (cases "sc_state s") (simp_all add: state_task_ok_def)
    with closed upd [of IntIdle "resets s" None] show ?thesis
      by (simp add: move_to_idle_def update_state_def state_task_ok_def)
  next
    case backoff_expired
    with h obtain e where "sc_state s = IntTransientFailure e" by (cases "sc_state s") (simp_all add: state_task_ok_def)
    with backoff_expired upd [of IntIdle "resets s" None] show ?thesis
      by (simp add: move_to_idle_def update_state_def state_task_ok_def)
  next
    case dropped
    with h show ?thesis
      by (cases "sc_state s") (simp_all add: sc_inv_def state_task_ok_def)
  next
    case dropped_unnoticed
    with h show ?thesis
      by (cases "sc_state s") (auto simp: sc_inv_def state_task_ok_def)
  qed
qed

lemma sc_reachable_inv: "sc_reachable s \<Longrightarrow> sc_inv s"
proof (induction rule: sc_reachable.induct)
  case new
  show ?case by (simp add: sc_inv_def state_task_ok_def new_arc_def idle_def)
next
  case (step s s')
  then show ?case by (blast intro: sc_step_inv)
qed

text \<open>
  Property C17. A subchannel keeps its documented lifecycle: whatever the transport, the timers and the policy do, the
  updates it sends start from IDLE and only make the documented transitions, an update carries an error exactly when
  it reports a failure, and the last update is the subchannel's state as long as somebody holds it.
\<close>

theorem subchannel_lifecycle:
  assumes "sc_reachable s"
  shows "successively documented (map connectivity_state (idle # sent s)) \<and>
    (\<forall>st \<in> set (sent s). last_connection_error st \<noteq> None \<longleftrightarrow> connectivity_state st = TransientFailure) \<and>
    (alive s \<longrightarrow> last (idle # sent s) = subchannel_state_from (sc_state s))"
  using sc_reachable_inv [OF assms] by (simp add: sc_inv_def list_all_iff error_iff_failed_def)

lemma one_failed_attempt:
  "sc_reachable (move_to_transient_failure ''refused'' (begin_connecting_if_idle new_arc))"
  by (rule sc_reachable.step [OF sc_reachable.step [OF sc_reachable.new sc_step.connect] sc_step.connect_err])
    (simp_all add: new_arc_def begin_connecting_if_idle_def)

theorem subchannel_lifecycle_witness:
  "let s = move_to_transient_failure ''refused'' (begin_connecting_if_idle new_arc)
   in successively documented (map connectivity_state (idle # sent s)) \<and>
    (\<forall>st \<in> set (sent s). last_connection_error st \<noteq> None \<longleftrightarrow> connectivity_state st = TransientFailure) \<and>
    (alive s \<longrightarrow> last (idle # sent s) = subchannel_state_from (sc_state s))"
  unfolding Let_def by (rule subchannel_lifecycle [OF one_failed_attempt])

text \<open>
  A subchannel is never stuck: one that is held and not idle has a background task whose next event moves
  it on, and one that is idle has none and starts connecting as soon as it is asked to.
\<close>

theorem subchannel_not_stuck:
  assumes "sc_reachable s" "alive s"
  shows "\<exists>s'. sc_step s s' \<and> alive s' \<and>
    documented (connectivity_state (subchannel_state_from (sc_state s))) (connectivity_state (subchannel_state_from (sc_state s')))"
proof -
  have ok: "state_task_ok s" using sc_reachable_inv [OF assms(1)] by (simp add: sc_inv_def)
  show ?thesis
  proof (cases "sc_state s")
    case IntIdle
    then show ?thesis
      using sc_step.connect [OF assms(2)] assms(2)
      by (intro exI [of _ "begin_connecting_if_idle s"]) (simp add: begin_connecting_if_idle_def update_state_def)
  next
    case IntConnecting
    with ok assms(2) have "task s = Some ConnectTask" by (simp add: state_task_ok_def)
    then show ?thesis
      using sc_step.connect_err [of s "[]"] IntConnecting assms(2)
      by (intro exI [of _ "move_to_transient_failure [] s"]) (simp add: move_to_transient_failure_def update_state_def)
  next
    case (IntReady c)
    with ok assms(2) have "task s = Some ClosedTask" by (simp add: state_task_ok_def)
    then show ?thesis
      using sc_step.closed [of s] IntReady assms(2)
      by (intro exI [of _ "move_to_idle s"]) (simp add: move_to_idle_def update_state_def)
  next
    case (IntTransientFailure e)
    with ok assms(2) have "task s = Some BackoffTask" by (simp add: state_task_ok_def)
    then show ?thesis
      using sc_step.backoff_expired [of s] IntTransientFailure assms(2)
      by (intro exI [of _ "move_to_idle s"]) (simp add: move_to_idle_def update_state_def)
  qed
qed

theorem subchannel_not_stuck_witness:
  "let s = move_to_transient_failure ''refused'' (begin_connecting_if_idle new_arc) :: nat InternalSubchannel
   in \<exists>s'. sc_step s s' \<and> alive s' \<and>
    documented (connectivity_state (subchannel_state_from (sc_state s))) (connectivity_state (subchannel_state_from (sc_state s')))"
  unfolding Let_def
  by (rule subchannel_not_stuck [OF one_failed_attempt])
    (simp add: new_arc_def begin_connecting_if_idle_def move_to_transient_failure_def update_state_def)

text \<open>
  Property C35. Call credentials stay on connections that are secure enough, and their errors never reach the
  application with a status code reserved for the application: a call that goes out with credentials goes out on a
  connection of at least their level, with the metadata they produced; one that fails has a permitted code.
\<close>

theorem call_credentials_protected:
  assumes "dyn_invoke (Some creds) mth md s = Some r"
  shows "case r of
      InvokeService svc m md' \<Rightarrow>
        (\<exists>c. sc_state s = IntReady c \<and> minimum_channel_security_level creds \<le> security_level c \<and> svc = service c \<and> m = mth \<and>
           get_metadata creds (create_call_details (authority c) mth) (security_protocol c) (security_level c) md = Inr md')
    | FailWith st \<Rightarrow> \<not> is_restricted_control_plane_code st"
  using assms
  by (auto simp: dyn_invoke_def is_restricted_control_plane_code_def status_error_def
      split: InternalSubchannelState.splits if_splits sum.splits)

theorem call_credentials_protected_witness:
  "let creds = \<lparr>minimum_channel_security_level = PrivacyAndIntegrity, get_metadata = (\<lambda>_ _ _ md. Inr ((''authorization'', ''t'') # md))\<rparr>;
       c = \<lparr>service = 0 :: nat, security_level = PrivacyAndIntegrity, security_protocol = ''tls'', authority = \<lparr>host = ''h'', port = None\<rparr>\<rparr>;
       s = move_to_ready c (begin_connecting_if_idle new_arc);
       r = InvokeService 0 ''/s/m'' [(''authorization'', ''t'')]
   in case r of
      InvokeService svc m md' \<Rightarrow>
        (\<exists>c. sc_state s = IntReady c \<and> minimum_channel_security_level creds \<le> security_level c \<and> svc = service c \<and> m = ''/s/m'' \<and>
           get_metadata creds (create_call_details (authority c) ''/s/m'') (security_protocol c) (security_level c) [] = Inr md')
    | FailWith st \<Rightarrow> \<not> is_restricted_control_plane_code st"
  unfolding Let_def
  by (rule call_credentials_protected)
    (simp add: dyn_invoke_def move_to_ready_def begin_connecting_if_idle_def new_arc_def update_state_def less_SecurityLevel_def)

end
