(* ===== verification/Subchannel_Sharing.thy ===== *)
theory Subchannel_Sharing
  imports Lb_Common
begin

text \<open>
  \<open>grpc/src/client/load_balancing/subchannel_sharing.rs\<close>: one subchannel of the channel (internal) backs every
  subchannel a policy asks for with the same address (external). Internal and external subchannels are compared by
  identity in the code and are numbers here; \<open>int_address\<close>, \<open>backing\<close> and \<open>live\<close> hold the address of an internal
  subchannel, the \<open>delegate\<close> of an external one and the external ones still referenced. \<open>delivered\<close> and \<open>created\<close> log
  the updates sent to work schedulers and the subchannels requested from the channel. A work scheduler is a type
  parameter.
\<close>

record 'w InternalSubchannelEntry =
  entry_state :: SubchannelState
  ext_subchannels :: "(nat \<times> 'w) list"

record ('a, 'w) Sharing =
  subchannels_by_address :: "'a Address \<rightharpoonup> nat"
  subchannels_int_to_ext :: "nat \<rightharpoonup> 'w InternalSubchannelEntry"
  int_address :: "nat \<Rightarrow> 'a Address"
  backing :: "nat \<Rightarrow> nat"
  live :: "nat list"
  next_int :: nat
  next_ext :: nat
  delivered :: "('w \<times> nat \<times> SubchannelState) list"
  created :: "'a Address list"

definition sharing_new :: "'a Address \<Rightarrow> ('a, 'w) Sharing" where
  "sharing_new any =
     \<lparr>subchannels_by_address = Map.empty, subchannels_int_to_ext = Map.empty, int_address = (\<lambda>_. any), backing = (\<lambda>_. 0),
      live = [], next_int = 0, next_ext = 0, delivered = [], created = []\<rparr>"

definition deliver_subchannel_update :: "nat \<Rightarrow> SubchannelState \<Rightarrow> ('a, 'w) Sharing \<Rightarrow> ('a, 'w) Sharing" where
  "deliver_subchannel_update i st s =
     (case subchannels_int_to_ext s i of
        None \<Rightarrow> s
      | Some entry \<Rightarrow>
          s\<lparr>subchannels_int_to_ext := (subchannels_int_to_ext s)(i \<mapsto> entry\<lparr>entry_state := st\<rparr>),
            delivered := delivered s @ map (\<lambda>(e, w). (w, e, st)) (filter (\<lambda>(e, w). e \<in> set (live s)) (ext_subchannels entry))\<rparr>)"

definition release_subchannel :: "nat \<Rightarrow> ('a, 'w) Sharing \<Rightarrow> ('a, 'w) Sharing" where
  "release_subchannel i s =
     (case subchannels_int_to_ext s i of
        None \<Rightarrow> s
      | Some entry \<Rightarrow>
          (let retained = filter (\<lambda>(e, w). e \<in> set (live s)) (ext_subchannels entry)
           in if retained = [] then
                s\<lparr>subchannels_int_to_ext := (subchannels_int_to_ext s)(i := None),
                  subchannels_by_address := (subchannels_by_address s)(int_address s i := None)\<rparr>
              else s\<lparr>subchannels_int_to_ext := (subchannels_int_to_ext s)(i \<mapsto> entry\<lparr>ext_subchannels := retained\<rparr>)\<rparr>))"

text \<open>
  \<open>SharingChannelController::new_subchannel\<close>. \<open>st0\<close> is the state the channel gives a subchannel it creates;
  \<open>None\<close> is the panic of a registered internal subchannel without an entry.
\<close>

definition new_subchannel ::
    "'a Address \<Rightarrow> 'w \<Rightarrow> SubchannelState \<Rightarrow> ('a, 'w) Sharing \<Rightarrow> ((nat \<times> SubchannelState) \<times> ('a, 'w) Sharing) option" where
  "new_subchannel a w st0 s =
     (let (i, new_state, s1) =
            (case subchannels_by_address s a of
               Some i \<Rightarrow> (i, None, s)
             | None \<Rightarrow> (next_int s, Some st0,
                 s\<lparr>subchannels_by_address := (subchannels_by_address s)(a \<mapsto> next_int s),
                   int_address := (int_address s)(next_int s := a), next_int := Suc (next_int s), created := created s @ [a]\<rparr>));
          e = next_ext s1
      in case (case subchannels_int_to_ext s1 i of
                 Some entry \<Rightarrow> Some entry
               | None \<Rightarrow> map_option (\<lambda>st. \<lparr>entry_state = st, ext_subchannels = []\<rparr>) new_state) of
           None \<Rightarrow> None
         | Some entry \<Rightarrow>
             Some ((e, entry_state entry),
               s1\<lparr>subchannels_int_to_ext :=
                    (subchannels_int_to_ext s1)(i \<mapsto> entry\<lparr>ext_subchannels := ext_subchannels entry @ [(e, w)]\<rparr>),
                  backing := (backing s1)(e := i), live := e # live s1, next_ext := Suc e\<rparr>))"

definition drop_external :: "nat \<Rightarrow> ('a, 'w) Sharing \<Rightarrow> ('a, 'w) Sharing" where
  "drop_external e s = s\<lparr>live := removeAll e (live s)\<rparr>"

text \<open>
  Everything that touches the maps: a policy asking for a subchannel, the two kinds of work the policy schedules for
  itself, and the last reference to an external subchannel going away, which schedules its release for later.
\<close>

datatype ('a, 'w) sharing_event =
    Create "'a Address" 'w SubchannelState
  | InternalUpdate nat SubchannelState
  | Released nat
  | DropExternal nat

fun sharing_step :: "('a, 'w) sharing_event \<Rightarrow> ('a, 'w) Sharing \<Rightarrow> ('a, 'w) Sharing option" where
  "sharing_step (Create a w st0) s = map_option snd (new_subchannel a w st0 s)"
| "sharing_step (InternalUpdate i st) s = Some (deliver_subchannel_update i st s)"
| "sharing_step (Released i) s = Some (release_subchannel i s)"
| "sharing_step (DropExternal e) s = Some (drop_external e s)"

subsection \<open>The two maps agree\<close>

definition registered :: "('a, 'w) Sharing \<Rightarrow> nat \<Rightarrow> nat \<Rightarrow> bool" where
  "registered s i e \<longleftrightarrow>
     (case subchannels_int_to_ext s i of Some entry \<Rightarrow> e \<in> fst ` set (ext_subchannels entry) | None \<Rightarrow> False)"

definition sharing_inv :: "('a, 'w) Sharing \<Rightarrow> bool" where
  "sharing_inv s \<longleftrightarrow>
     (\<forall>a i. subchannels_by_address s a = Some i \<longrightarrow> i \<in> dom (subchannels_int_to_ext s) \<and> int_address s i = a) \<and>
     (\<forall>i entry. subchannels_int_to_ext s i = Some entry \<longrightarrow>
        subchannels_by_address s (int_address s i) = Some i \<and> i < next_int s \<and> distinct (map fst (ext_subchannels entry)) \<and>
        (\<forall>(e, w) \<in> set (ext_subchannels entry). backing s e = i \<and> e < next_ext s)) \<and>
     (\<forall>e \<in> set (live s). e < next_ext s \<and> registered s (backing s e) e)"

lemma sharing_inv_new: "sharing_inv (sharing_new any)"
  by (simp add: sharing_inv_def sharing_new_def)

lemma sharing_deliver_inv: "sharing_inv s \<Longrightarrow> sharing_inv (deliver_subchannel_update i st s)"
  by (auto simp: deliver_subchannel_update_def sharing_inv_def registered_def split: option.splits)

lemma sharing_drop_inv: "sharing_inv s \<Longrightarrow> sharing_inv (drop_external e s)"
  by (auto simp: drop_external_def sharing_inv_def registered_def)

lemma sharing_invD:
  assumes "sharing_inv s"
  shows "subchannels_by_address s a = Some i \<Longrightarrow> i \<in> dom (subchannels_int_to_ext s) \<and> int_address s i = a"
    and "subchannels_int_to_ext s i = Some entry \<Longrightarrow> subchannels_by_address s (int_address s i) = Some i \<and> i < next_int s"
    and "subchannels_int_to_ext s i = Some entry \<Longrightarrow> distinct (map fst (ext_subchannels entry))"
    and "subchannels_int_to_ext s i = Some entry \<Longrightarrow> (e, w) \<in> set (ext_subchannels entry) \<Longrightarrow> backing s e = i \<and> e < next_ext s"
    and "e \<in> set (live s) \<Longrightarrow> e < next_ext s \<and> registered s (backing s e) e"
  using assms unfolding sharing_inv_def by blast+

lemma sharing_invI:
  assumes "\<And>a i. subchannels_by_address s a = Some i \<Longrightarrow> i \<in> dom (subchannels_int_to_ext s) \<and> int_address s i = a"
    and "\<And>i entry. subchannels_int_to_ext s i = Some entry \<Longrightarrow> subchannels_by_address s (int_address s i) = Some i \<and> i < next_int s"
    and "\<And>i entry. subchannels_int_to_ext s i = Some entry \<Longrightarrow> distinct (map fst (ext_subchannels entry))"
    and "\<And>i entry e w. subchannels_int_to_ext s i = Some entry \<Longrightarrow> (e, w) \<in> set (ext_subchannels entry) \<Longrightarrow>
      backing s e = i \<and> e < next_ext s"
    and "\<And>e. e \<in> set (live s) \<Longrightarrow> e < next_ext s \<and> registered s (backing s e) e"
  shows "sharing_inv s"
  using assms unfolding sharing_inv_def by auto

lemma sharing_release_inv:
  assumes inv: "sharing_inv s"
  shows "sharing_inv (release_subchannel i s)"
proof (cases "subchannels_int_to_ext s i")
  case None
  with inv show ?thesis by (simp add: release_subchannel_def)
next
  case (Some entry)
  let ?r = "filter (\<lambda>(e, w). e \<in> set (live s)) (ext_subchannels entry)"
  note D = sharing_invD [OF inv]
  have keep: "e \<in> fst ` set ?r" if "e \<in> set (live s)" "backing s e = i" for e
    using D(5) [OF that(1)] that Some by (force simp: registered_def)
  show ?thesis
  proof (cases "?r = []")
    case True
    with keep have other: "backing s e \<noteq> i" if "e \<in> set (live s)" for e using that by fastforce
    have gone: "release_subchannel i s =
        s\<lparr>subchannels_int_to_ext := (subchannels_int_to_ext s)(i := None),
          subchannels_by_address := (subchannels_by_address s)(int_address s i := None)\<rparr>"
      using Some True by (simp add: release_subchannel_def)
    have one: "j = i" if "subchannels_int_to_ext s j = Some en" "int_address s j = int_address s i" for j en
      using D(2) [OF that(1)] D(2) [OF Some] unfolding that(2) by auto
    show ?thesis
      unfolding gone
    proof (rule sharing_invI, goal_cases)
      case (1 a j)
      then have a: "subchannels_by_address s a = Some j" "a \<noteq> int_address s i" by (simp_all split: if_splits)
      from D(1) [OF a(1)] a(2) show ?case by auto
    next
      case (2 j en)
      then show ?case using D(2) [of j en] one [of j en] by (auto split: if_splits)
    next
      case (3 j en)
      then show ?case using D(3) [of j en] by (simp split: if_splits)
    next
      case (4 j en e w)
      then show ?case using D(4) [of j en e w] by (simp split: if_splits)
    next
      case (5 e)
      then show ?case using D(5) [of e] other [of e] by (simp add: registered_def)
    qed
  next
    case False
    have kept: "release_subchannel i s = s\<lparr>subchannels_int_to_ext := (subchannels_int_to_ext s)(i \<mapsto> entry\<lparr>ext_subchannels := ?r\<rparr>)\<rparr>"
      using Some False by (simp add: release_subchannel_def Let_def)
    have dist: "distinct (map fst ?r)" using D(3) [OF Some] by (rule distinct_map_filter)
    show ?thesis
      unfolding kept
    proof (rule sharing_invI, goal_cases)
      case (1 a j)
      then show ?case using D(1) [of a j] by auto
    next
      case (2 j en)
      then show ?case using D(2) [of j] Some by (simp split: if_splits)
    next
      case (3 j en)
      then show ?case using D(3) [of j en] dist by (auto split: if_splits)
    next
      case (4 j en e w)
      then show ?case using D(4) [of j _ e w] Some by (auto split: if_splits)
    next
      case (5 e)
      then show ?case using D(5) [of e] keep [of e] by (simp add: registered_def)
    qed
  qed
qed

lemma new_subchannel_spec:
  assumes inv: "sharing_inv s"
  obtains i s' where "new_subchannel a w st0 s =
      Some ((next_ext s, case subchannels_by_address s a of Some i \<Rightarrow> entry_state (the (subchannels_int_to_ext s i)) | None \<Rightarrow> st0), s')"
    "sharing_inv s'" "backing s' (next_ext s) = i" "int_address s' i = a" "next_ext s \<in> set (live s')"
    "created s' = (if subchannels_by_address s a = None then created s @ [a] else created s)"
    "subchannels_by_address s a = None \<longrightarrow> i = next_int s" "subchannels_by_address s a \<noteq> None \<longrightarrow> subchannels_by_address s a = Some i"
proof -
  note D = sharing_invD [OF inv]
  show thesis
  proof (cases "subchannels_by_address s a")
    case None
    let ?i = "next_int s" and ?e = "next_ext s"
    have fresh: "subchannels_int_to_ext s ?i = None" using D(2) [of ?i] by (cases "subchannels_int_to_ext s ?i") auto
    define t where "t = s\<lparr>subchannels_by_address := (subchannels_by_address s)(a \<mapsto> ?i),
      int_address := (int_address s)(?i := a), next_int := Suc ?i, created := created s @ [a],
      subchannels_int_to_ext := (subchannels_int_to_ext s)(?i \<mapsto> \<lparr>entry_state = st0, ext_subchannels = [(?e, w)]\<rparr>),
      backing := (backing s)(?e := ?i), live := ?e # live s, next_ext := Suc ?e\<rparr>"
    have t: "new_subchannel a w st0 s = Some ((?e, st0), t)"
      using None fresh by (simp add: new_subchannel_def t_def Let_def)
    have "sharing_inv t"
      unfolding t_def
    proof (rule sharing_invI, goal_cases)
      case (1 b j)
      then show ?case using D(1) [of b j] D(2) [of j] by (auto split: if_splits)
    next
      case (2 j en)
      then show ?case using D(2) [of j en] None by (auto split: if_splits)
    next
      case (3 j en)
      then show ?case using D(3) [of j en] by (auto split: if_splits)
    next
      case (4 j en e' w')
      then show ?case using D(4) [of j en e' w'] by (auto split: if_splits)
    next
      case (5 e')
      then show ?case using D(5) [of e'] fresh by (auto simp: registered_def split: if_splits)
    qed
    then show thesis using t None by (intro that [of t ?i]) (simp_all add: t_def)
  next
    case (Some i)
    let ?e = "next_ext s"
    from D(1) [OF Some] obtain entry where entry: "subchannels_int_to_ext s i = Some entry" by auto
    define t where "t = s\<lparr>subchannels_int_to_ext := (subchannels_int_to_ext s)(i \<mapsto> entry\<lparr>ext_subchannels := ext_subchannels entry @ [(?e, w)]\<rparr>),
      backing := (backing s)(?e := i), live := ?e # live s, next_ext := Suc ?e\<rparr>"
    have t: "new_subchannel a w st0 s = Some ((?e, entry_state entry), t)"
      using Some entry by (simp add: new_subchannel_def t_def Let_def)
    have "sharing_inv t"
      unfolding t_def
    proof (rule sharing_invI, goal_cases)
      case (1 b j)
      then show ?case using D(1) [of b j] by auto
    next
      case (2 j en)
      then show ?case using D(2) [of j] entry by (simp split: if_splits)
    next
      case (3 j en)
      have "?e \<notin> fst ` set (ext_subchannels entry)" using D(4) [OF entry] by fastforce
      with 3 show ?case using D(3) [of j] entry by (auto split: if_splits)
    next
      case (4 j en e' w')
      then show ?case using D(4) [of j _ e' w'] entry by (auto split: if_splits)
    next
      case (5 e')
      then show ?case using D(5) [of e'] entry by (auto simp: registered_def split: if_splits)
    qed
    then show thesis using t Some entry D(1) [OF Some] by (intro that [of t i]) (simp_all add: t_def)
  qed
qed

interpretation sharing: invariant_machine sharing_step sharing_inv "\<lambda>_ _. True"
proof
  fix s :: "('a, 'b) Sharing" and e
  assume inv: "sharing_inv s"
  have "\<exists>s'. sharing_step e s = Some s' \<and> sharing_inv s'"
  proof (cases e)
    case (Create a w st0)
    obtain i s' where "new_subchannel a w st0 s =
      Some ((next_ext s, case subchannels_by_address s a of Some i \<Rightarrow> entry_state (the (subchannels_int_to_ext s i)) | None \<Rightarrow> st0), s')"
      "sharing_inv s'"
      by (rule new_subchannel_spec [OF inv])
    with Create show ?thesis by simp
  qed (simp_all add: inv sharing_deliver_inv sharing_release_inv sharing_drop_inv)
  then show "sharing_step e s \<noteq> None" and "\<And>s'. sharing_step e s = Some s' \<Longrightarrow> sharing_inv s'" by auto
qed

lemma sharing_run:
  obtains s where "run sharing_step events (sharing_new any) = Some s" "sharing_inv s"
proof -
  have "\<exists>s. run sharing_step events (sharing_new any) = Some s \<and> sharing_inv s"
    by (rule sharing.run_safe [OF sharing_inv_new admissible_always])
  then show thesis by (elim exE conjE) (rule that)
qed

text \<open>
  Property C12. Subchannels are shared by address: whatever policies create and drop and whatever updates and releases
  arrive, in any order, creating a subchannel never panics, and of the subchannels still in use two have the same
  address exactly when they are backed by the same subchannel of the channel, which is the registered one.
\<close>

theorem shared_by_address:
  "\<exists>s. run sharing_step events (sharing_new any) = Some s \<and>
    (\<forall>e \<in> set (live s). subchannels_by_address s (int_address s (backing s e)) = Some (backing s e)) \<and>
    (\<forall>e \<in> set (live s). \<forall>e' \<in> set (live s).
       int_address s (backing s e) = int_address s (backing s e') \<longleftrightarrow> backing s e = backing s e')"
proof -
  obtain s where s: "run sharing_step events (sharing_new any) = Some s" "sharing_inv s"
    by (rule sharing_run)
  have reg: "subchannels_by_address s (int_address s (backing s e)) = Some (backing s e)" if "e \<in> set (live s)" for e
    using sharing_invD(5) [OF s(2) that] sharing_invD(2) [OF s(2), of "backing s e"]
    by (auto simp: registered_def split: option.splits)
  have "backing s e = backing s e'"
    if "e \<in> set (live s)" "e' \<in> set (live s)" "int_address s (backing s e) = int_address s (backing s e')" for e e'
    using reg [OF that(1)] reg [OF that(2)] unfolding that(3) by simp
  with s(1) reg show ?thesis by (intro exI [of _ s] conjI ballI iffI) simp_all
qed

theorem shared_by_address_witness:
  "\<exists>s. run sharing_step
      [Create \<lparr>network_type = ''tcp'', address = ''a'', attributes = ()\<rparr> (0 :: nat) idle,
       Create \<lparr>network_type = ''tcp'', address = ''a'', attributes = ()\<rparr> 1 idle, DropExternal 0, Released 0]
      (sharing_new \<lparr>network_type = [], address = [], attributes = ()\<rparr>) = Some s \<and>
    (\<forall>e \<in> set (live s). subchannels_by_address s (int_address s (backing s e)) = Some (backing s e)) \<and>
    (\<forall>e \<in> set (live s). \<forall>e' \<in> set (live s).
       int_address s (backing s e) = int_address s (backing s e') \<longleftrightarrow> backing s e = backing s e')"
  by (rule shared_by_address)

text \<open>
  An update of an internal subchannel reaches every external subchannel it backs that is still in use,
  once each, and no other; and it is remembered: until the next update, a policy that asks for the same address is given
  exactly that state, and the channel is not asked for another subchannel.
\<close>

theorem shared_updates_delivered:
  assumes "run sharing_step events (sharing_new any) = Some s" and "i \<in> dom (subchannels_int_to_ext s)"
  shows "\<exists>ds. delivered (deliver_subchannel_update i st s) = delivered s @ map (\<lambda>(e, w). (w, e, st)) ds \<and>
    distinct (map fst ds) \<and> fst ` set ds = {e \<in> set (live s). backing s e = i} \<and>
    (\<exists>e s'. new_subchannel (int_address s i) w st0 (deliver_subchannel_update i st s) = Some ((e, st), s') \<and> created s' = created s)"
proof -
  have inv: "sharing_inv s"
    using sharing.run_inv [OF sharing_inv_new admissible_always assms(1)] .
  note D = sharing_invD [OF inv]
  from assms(2) obtain entry where entry: "subchannels_int_to_ext s i = Some entry" by auto
  let ?ds = "filter (\<lambda>(e, w). e \<in> set (live s)) (ext_subchannels entry)"
  let ?t = "deliver_subchannel_update i st s"
  have ds: "delivered ?t = delivered s @ map (\<lambda>(e, w). (w, e, st)) ?ds"
    and t: "subchannels_by_address ?t = subchannels_by_address s" "created ?t = created s"
      "subchannels_int_to_ext ?t i = Some (entry\<lparr>entry_state := st\<rparr>)"
    using entry by (simp_all add: deliver_subchannel_update_def)
  have dist: "distinct (map fst ?ds)" using D(3) [OF entry] by (rule distinct_map_filter)
  have all: "fst ` set ?ds = {e \<in> set (live s). backing s e = i}"
    using D(4) [OF entry] D(5) entry by (force simp: registered_def)
  have by_addr: "subchannels_by_address s (int_address s i) = Some i" using D(2) [OF entry] by simp
  obtain j s' where "new_subchannel (int_address s i) w st0 ?t =
      Some ((next_ext ?t, case subchannels_by_address ?t (int_address s i) of
        Some i \<Rightarrow> entry_state (the (subchannels_int_to_ext ?t i)) | None \<Rightarrow> st0), s')"
    "created s' = (if subchannels_by_address ?t (int_address s i) = None then created ?t @ [int_address s i] else created ?t)"
    by (rule new_subchannel_spec [OF sharing_deliver_inv [OF inv]])
  then have "new_subchannel (int_address s i) w st0 ?t = Some ((next_ext ?t, st), s')" "created s' = created s"
    by (simp_all add: t by_addr)
  with ds dist all show ?thesis by (intro exI [of _ ?ds] conjI exI [of _ "next_ext ?t"] exI [of _ s'])
qed

theorem shared_updates_delivered_witness:
  "let a = \<lparr>network_type = ''tcp'', address = ''a'', attributes = ()\<rparr>;
       s = the (run sharing_step [Create a (7 :: nat) idle, Create a 8 idle] (sharing_new a))
   in \<exists>ds. delivered (deliver_subchannel_update 0 connecting s) = delivered s @ map (\<lambda>(e, w). (w, e, connecting)) ds \<and>
    distinct (map fst ds) \<and> fst ` set ds = {e \<in> set (live s). backing s e = 0} \<and>
    (\<exists>e s'. new_subchannel (int_address s 0) 9 idle (deliver_subchannel_update 0 connecting s) = Some ((e, connecting), s') \<and> created s' = created s)"
  unfolding Let_def
  by (rule shared_updates_delivered
      [of "[Create \<lparr>network_type = ''tcp'', address = ''a'', attributes = ()\<rparr> (7 :: nat) idle,
            Create \<lparr>network_type = ''tcp'', address = ''a'', attributes = ()\<rparr> 8 idle]"])
    (rule not_none_the not_none_dom, code_simp)+

text \<open>
  Nothing is leaked and nothing is forgotten early: when a release is handled, the internal subchannel is
  dropped from both maps exactly if no external subchannel it backs is in use, and then the next request for its
  address creates a new one.
\<close>

theorem release_exactly_unused:
  assumes "run sharing_step events (sharing_new any) = Some s" and "i \<in> dom (subchannels_int_to_ext s)"
  shows "if \<exists>e \<in> set (live s). backing s e = i
    then i \<in> dom (subchannels_int_to_ext (release_subchannel i s)) \<and> subchannels_by_address (release_subchannel i s) = subchannels_by_address s
    else i \<notin> dom (subchannels_int_to_ext (release_subchannel i s)) \<and>
      (\<exists>r s'. new_subchannel (int_address s i) w st0 (release_subchannel i s) = Some (r, s') \<and> snd r = st0 \<and> created s' = created s @ [int_address s i])"
proof -
  have inv: "sharing_inv s"
    using sharing.run_inv [OF sharing_inv_new admissible_always assms(1)] .
  note D = sharing_invD [OF inv]
  from assms(2) obtain entry where entry: "subchannels_int_to_ext s i = Some entry" by auto
  let ?r = "filter (\<lambda>(e, w). e \<in> set (live s)) (ext_subchannels entry)"
  let ?t = "release_subchannel i s"
  have used: "?r = [] \<longleftrightarrow> \<not> (\<exists>e \<in> set (live s). backing s e = i)"
    using D(4) [OF entry] D(5) entry by (force simp: registered_def filter_empty_conv)
  show ?thesis
  proof (cases "?r = []")
    case False
    with entry used show ?thesis by (simp add: release_subchannel_def Let_def)
  next
    case True
    then have t: "subchannels_int_to_ext ?t i = None" "subchannels_by_address ?t (int_address s i) = None" "created ?t = created s"
      using entry by (simp_all add: release_subchannel_def)
    obtain j s' where "new_subchannel (int_address s i) w st0 ?t =
        Some ((next_ext ?t, case subchannels_by_address ?t (int_address s i) of
          Some i \<Rightarrow> entry_state (the (subchannels_int_to_ext ?t i)) | None \<Rightarrow> st0), s')"
      "created s' = (if subchannels_by_address ?t (int_address s i) = None then created ?t @ [int_address s i] else created ?t)"
      by (rule new_subchannel_spec [OF sharing_release_inv [OF inv]])
    then show ?thesis using t used True by auto
  qed
qed

theorem release_exactly_unused_witness:
  "let a = \<lparr>network_type = ''tcp'', address = ''a'', attributes = ()\<rparr>;
       s = the (run sharing_step [Create a (7 :: nat) idle, DropExternal 0] (sharing_new a))
   in if \<exists>e \<in> set (live s). backing s e = 0
    then 0 \<in> dom (subchannels_int_to_ext (release_subchannel 0 s)) \<and> subchannels_by_address (release_subchannel 0 s) = subchannels_by_address s
    else 0 \<notin> dom (subchannels_int_to_ext (release_subchannel 0 s)) \<and>
      (\<exists>r s'. new_subchannel (int_address s 0) 9 idle (release_subchannel 0 s) = Some (r, s') \<and> snd r = idle \<and> created s' = created s @ [int_address s 0])"
  unfolding Let_def
  by (rule release_exactly_unused
      [of "[Create \<lparr>network_type = ''tcp'', address = ''a'', attributes = ()\<rparr> (7 :: nat) idle, DropExternal 0]"])
    (rule not_none_the not_none_dom, code_simp)+

end
