(* ===== verification/Recv_Validator.thy ===== *)
theory Recv_Validator
  imports Grpc_Core
begin

text \<open>
  \<open>grpc/src/client/stream_util.rs\<close>: the validator that wraps a client's receive stream, and the failing
  stream. A receive stream is a state and a \<open>recv\<close> function, which the validator takes as an argument; a
  received message is written through a reference and is not part of the item.
\<close>

datatype ('h, 'c) ResponseStreamItem =
    Headers 'h
  | Message
  | TrailersItem "'c Trailers"
  | StreamClosed

datatype RecvStreamState = AwaitingHeaders | AwaitingMessagesOrTrailers | AwaitingTrailers | Done

record 'r RecvStreamValidator =
  recv_stream :: 'r
  state :: RecvStreamState
  unary :: bool

definition validator_new :: "'r \<Rightarrow> bool \<Rightarrow> 'r RecvStreamValidator" where
  "validator_new r u = \<lparr>recv_stream = r, state = AwaitingHeaders, unary = u\<rparr>"

definition error :: "string \<Rightarrow> 'r RecvStreamValidator \<Rightarrow> ('h, 'c) ResponseStreamItem \<times> 'r RecvStreamValidator" where
  "error s v = (TrailersItem (trailers_new (Inl (status_error Internal s))), v\<lparr>state := Done\<rparr>)"

definition validate ::
    "('h, 'c) ResponseStreamItem \<Rightarrow> 'r RecvStreamValidator \<Rightarrow> ('h, 'c) ResponseStreamItem \<times> 'r RecvStreamValidator" where
  "validate item v =
     (case item of
        Headers _ \<Rightarrow>
          if state v = AwaitingHeaders then (item, v\<lparr>state := AwaitingMessagesOrTrailers\<rparr>)
          else error ''stream received multiple headers'' v
      | Message \<Rightarrow>
          if state v = AwaitingMessagesOrTrailers then
            (item, if unary v then v\<lparr>state := AwaitingTrailers\<rparr> else v)
          else if state v = AwaitingTrailers then error ''unary stream received multiple messages'' v
          else error ''stream received messages without headers'' v
      | TrailersItem t \<Rightarrow>
          if unary v \<and> state v \<noteq> AwaitingTrailers \<and> \<not> isl (status t)
          then error ''unary stream received zero messages'' v
          else (TrailersItem t, v\<lparr>state := Done\<rparr>)
      | StreamClosed \<Rightarrow> error ''stream ended without trailers'' v)"

definition validator_recv ::
    "('r \<Rightarrow> ('h, 'c) ResponseStreamItem \<times> 'r) \<Rightarrow> 'r RecvStreamValidator \<Rightarrow>
     ('h, 'c) ResponseStreamItem \<times> 'r RecvStreamValidator" where
  "validator_recv recv v =
     (if state v = Done then (StreamClosed, v)
      else (let (item, r) = recv (recv_stream v) in validate item (v\<lparr>recv_stream := r\<rparr>)))"

text \<open>\<open>ResponseValidator::intercept\<close>, on the streams the next invoker returned.\<close>

definition intercept_response :: "bool \<Rightarrow> 's \<times> 'r \<Rightarrow> 's \<times> 'r RecvStreamValidator" where
  "intercept_response u streams = (let (tx, rx) = streams in (tx, validator_new rx u))"

record 'c FailingRecvStream =
  failing_status :: "StatusError option"
  failing_connection_info :: "'c option"

definition failing_recv :: "'c FailingRecvStream \<Rightarrow> ('h, 'c) ResponseStreamItem \<times> 'c FailingRecvStream" where
  "failing_recv f =
     (case failing_status f of
        Some s \<Rightarrow>
          (TrailersItem ((trailers_new (Inl s))\<lparr>connection_info := failing_connection_info f\<rparr>),
           f\<lparr>failing_status := None, failing_connection_info := None\<rparr>)
      | None \<Rightarrow> (StreamClosed, f))"

definition failing_stream :: "StatusError \<Rightarrow> 'c option \<Rightarrow> 'c FailingRecvStream" where
  "failing_stream s c = \<lparr>failing_status = Some s, failing_connection_info = c\<rparr>"

text \<open>The first items of a stream, and a stream that replays a list and is closed after it.\<close>

fun items :: "('r \<Rightarrow> 'i \<times> 'r) \<Rightarrow> nat \<Rightarrow> 'r \<Rightarrow> 'i list" where
  "items recv 0 r = []"
| "items recv (Suc n) r = (let (i, r') = recv r in i # items recv n r')"

fun replay :: "('h, 'c) ResponseStreamItem list \<Rightarrow> ('h, 'c) ResponseStreamItem \<times> ('h, 'c) ResponseStreamItem list" where
  "replay [] = (StreamClosed, [])"
| "replay (i # is) = (i, is)"

subsection \<open>The response protocol\<close>

text \<open>
  Headers, then messages, then trailers, then closed: \<open>hs\<close> is at most one header, messages only follow a
  header, nothing but the closed item follows trailers, and it only follows trailers. A unary response has
  at most one message, and exactly one when its trailers report success.
\<close>

definition protocol :: "bool \<Rightarrow> ('h, 'c) ResponseStreamItem list \<Rightarrow> bool" where
  "protocol u is \<longleftrightarrow>
     (\<exists>hs n ts c. is = map Headers hs @ replicate n Message @ map TrailersItem ts @ replicate c StreamClosed \<and>
        length hs \<le> 1 \<and> (0 < n \<longrightarrow> hs \<noteq> []) \<and> length ts \<le> 1 \<and> (0 < c \<longrightarrow> ts \<noteq> []) \<and>
        (u \<longrightarrow> n \<le> 1 \<and> (\<forall>t \<in> set ts. \<not> isl (status t) \<longrightarrow> n = 1)))"

text \<open>An automaton for the same language, which the validator follows.\<close>

fun follow :: "bool \<Rightarrow> RecvStreamState \<Rightarrow> ('h, 'c) ResponseStreamItem \<Rightarrow> RecvStreamState option" where
  "follow u AwaitingHeaders (Headers h) = Some AwaitingMessagesOrTrailers"
| "follow u AwaitingMessagesOrTrailers Message = Some (if u then AwaitingTrailers else AwaitingMessagesOrTrailers)"
| "follow u st (TrailersItem t) =
     (if st = Done \<or> u \<and> st \<noteq> AwaitingTrailers \<and> \<not> isl (status t) then None else Some Done)"
| "follow u Done StreamClosed = Some Done"
| "follow u st i = None"

fun accepts :: "bool \<Rightarrow> RecvStreamState \<Rightarrow> ('h, 'c) ResponseStreamItem list \<Rightarrow> bool" where
  "accepts u st [] = True"
| "accepts u st (i # is) = (case follow u st i of None \<Rightarrow> False | Some st' \<Rightarrow> accepts u st' is)"

lemma accepts_Done: "accepts u Done is \<longleftrightarrow> is = replicate (length is) StreamClosed"
  by (induction "is") (auto split: option.splits elim!: follow.elims)

lemma accepts_trailers:
  "accepts u st (i # is) \<Longrightarrow> i = TrailersItem t \<Longrightarrow> is = replicate (length is) StreamClosed"
  by (auto simp: accepts_Done split: option.splits if_splits)

lemma accepts_AwaitingTrailers:
  assumes "accepts u AwaitingTrailers is"
  obtains ts c where "is = map TrailersItem ts @ replicate c StreamClosed" "length ts \<le> 1" "0 < c \<longrightarrow> ts \<noteq> []"
proof (cases "is")
  case Nil
  then show thesis using that [of "[]" 0] by simp
next
  case (Cons i js)
  with assms obtain t where "i = TrailersItem t" by (cases i) auto
  with assms Cons accepts_trailers [of u AwaitingTrailers i js t] show thesis
    using that [of "[t]" "length js"] by simp
qed

lemma accepts_messages:
  assumes "accepts u AwaitingMessagesOrTrailers is"
  obtains n ts c where "is = replicate n Message @ map TrailersItem ts @ replicate c StreamClosed" "length ts \<le> 1"
    "0 < c \<longrightarrow> ts \<noteq> []" "u \<longrightarrow> n \<le> 1 \<and> (\<forall>t \<in> set ts. \<not> isl (status t) \<longrightarrow> n = 1)"
  using assms
proof (induction "is" arbitrary: thesis)
  case Nil
  then show ?case using Nil(1) [of 0 "[]" 0] by simp
next
  case (Cons i "is")
  show ?case
  proof (cases i)
    case Message
    show ?thesis
    proof (cases u)
      case True
      with Cons.prems(2) Message have "accepts u AwaitingTrailers is" by simp
      then obtain ts c where "is = map TrailersItem ts @ replicate c StreamClosed" "length ts \<le> 1" "0 < c \<longrightarrow> ts \<noteq> []"
        by (rule accepts_AwaitingTrailers)
      with Message show ?thesis using Cons.prems(1) [of 1 ts c] by simp
    next
      case False
      with Cons.prems(2) Message have acc: "accepts u AwaitingMessagesOrTrailers is" by simp
      obtain n ts c where "is = replicate n Message @ map TrailersItem ts @ replicate c StreamClosed" "length ts \<le> 1" "0 < c \<longrightarrow> ts \<noteq> []"
        by (rule Cons.IH [OF _ acc])
      with Message False show ?thesis using Cons.prems(1) [of "Suc n" ts c] by simp
    qed
  next
    case (TrailersItem t)
    with Cons.prems(2) accepts_trailers [of u AwaitingMessagesOrTrailers i "is" t]
    have "is = replicate (length is) StreamClosed" by blast
    with TrailersItem Cons.prems(2) show ?thesis
      using Cons.prems(1) [of 0 "[t]" "length is"] by (simp split: if_splits)
  qed (use Cons.prems(2) in simp_all)
qed

lemma accepts_protocol:
  assumes "accepts u AwaitingHeaders is"
  shows "protocol u is"
proof (cases "is")
  case Nil
  then show ?thesis unfolding protocol_def by (intro exI [of _ "[]"] exI [of _ 0]) simp
next
  case (Cons i js)
  show ?thesis
  proof (cases i)
    case (Headers h)
    with assms Cons have "accepts u AwaitingMessagesOrTrailers js" by simp
    then obtain n ts c where "js = replicate n Message @ map TrailersItem ts @ replicate c StreamClosed" "length ts \<le> 1"
      "0 < c \<longrightarrow> ts \<noteq> []" "u \<longrightarrow> n \<le> 1 \<and> (\<forall>t \<in> set ts. \<not> isl (status t) \<longrightarrow> n = 1)"
      by (rule accepts_messages)
    with Headers Cons show ?thesis
      unfolding protocol_def by (intro exI [of _ "[h]"] exI [of _ n] exI [of _ ts] exI [of _ c]) simp
  next
    case (TrailersItem t)
    with assms Cons accepts_trailers [of u AwaitingHeaders i js t] have "js = replicate (length js) StreamClosed" by simp
    with TrailersItem Cons assms show ?thesis
      unfolding protocol_def
      by (intro exI [of _ "[]"] exI [of _ 0] exI [of _ "[t]"] exI [of _ "length js"]) (simp split: if_splits)
  qed (use assms Cons in simp_all)
qed

lemma accepts_closed: "accepts u Done (replicate c StreamClosed)"
  by (simp add: accepts_Done)

lemma accepts_append_messages:
  "accepts u AwaitingMessagesOrTrailers (replicate n Message @ is) \<longleftrightarrow>
     (if u then (case n of 0 \<Rightarrow> accepts u AwaitingMessagesOrTrailers is | Suc 0 \<Rightarrow> accepts u AwaitingTrailers is | _ \<Rightarrow> False)
      else accepts u AwaitingMessagesOrTrailers is)"
proof (cases u)
  case True
  then show ?thesis
    by (cases n) (auto split: nat.splits simp: gr0_conv_Suc replicate_app_Cons_same dest: gr0_implies_Suc)
next
  case False
  then show ?thesis by (induction n) simp_all
qed

lemma accepts_tail:
  assumes "length ts \<le> 1" "0 < c \<longrightarrow> ts \<noteq> []" "st \<noteq> Done" "\<forall>t \<in> set ts. u \<and> st \<noteq> AwaitingTrailers \<longrightarrow> isl (status t)"
  shows "accepts u st (map TrailersItem ts @ replicate c StreamClosed)"
proof (cases ts)
  case Nil
  with assms(2) show ?thesis by simp
next
  case (Cons t ts')
  with assms show ?thesis by (auto simp: accepts_closed)
qed

lemma protocol_accepts:
  assumes "protocol u is"
  shows "accepts u AwaitingHeaders is"
proof -
  obtain hs n ts c where "is": "is = map Headers hs @ replicate n Message @ map TrailersItem ts @ replicate c StreamClosed"
    and len: "length hs \<le> 1" "0 < n \<longrightarrow> hs \<noteq> []" "length ts \<le> 1" "0 < c \<longrightarrow> ts \<noteq> []"
    and u: "u \<longrightarrow> n \<le> 1 \<and> (\<forall>t \<in> set ts. \<not> isl (status t) \<longrightarrow> n = 1)"
    using assms unfolding protocol_def by blast
  show ?thesis
  proof (cases hs)
    case Nil
    with len(2) u show ?thesis unfolding "is" by (auto intro: accepts_tail [OF len(3,4)])
  next
    case (Cons h hs')
    with len(1) have "hs' = []" by simp
    have "accepts u AwaitingMessagesOrTrailers (replicate n Message @ map TrailersItem ts @ replicate c StreamClosed)"
      using u unfolding accepts_append_messages by (auto intro!: accepts_tail [OF len(3,4)] split: nat.splits)
    with Cons \<open>hs' = []\<close> show ?thesis unfolding "is" by simp
  qed
qed

lemma protocol_iff: "protocol u is \<longleftrightarrow> accepts u AwaitingHeaders is"
  using accepts_protocol protocol_accepts by blast

subsection \<open>What the validator delivers\<close>

lemma validator_recv_follow:
  assumes "validator_recv recv v = (i, v')"
  shows "follow (unary v) (state v) i = Some (state v') \<and> unary v' = unary v"
proof (cases "state v = Done")
  case True
  with assms show ?thesis by (auto simp: validator_recv_def)
next
  case False
  with assms show ?thesis
    by (cases "state v")
      (auto simp: validator_recv_def validate_def error_def trailers_new_def split: prod.splits ResponseStreamItem.splits if_splits)
qed

lemma validator_accepts: "accepts (unary v) (state v) (items (validator_recv recv) n v)"
proof (induction n arbitrary: v)
  case (Suc n)
  obtain i v' where r: "validator_recv recv v = (i, v')" by (cases "validator_recv recv v")
  from validator_recv_follow [OF r] Suc [of v'] show ?case by (simp add: r)
qed simp

text \<open>
  Property C8. Whatever the underlying stream does, what the validator delivers follows the response protocol.
\<close>

theorem validator_enforces_protocol: "protocol u (items (validator_recv recv) n (validator_new r u))"
  using validator_accepts [of "validator_new r u" recv n] by (simp add: protocol_iff validator_new_def)

lemma items_Done: "state v = Done \<Longrightarrow> items (validator_recv recv) n v = replicate n StreamClosed"
  by (induction n) (simp_all add: validator_recv_def)

lemma validator_passes:
  assumes "state v \<noteq> Done" "recv (recv_stream v) = (i, r)" "follow (unary v) (state v) i = Some st"
  shows "validator_recv recv v = (i, v\<lparr>recv_stream := r, state := st\<rparr>)"
  using assms
  by (cases "state v"; cases i) (auto simp: validator_recv_def validate_def split: if_splits)

lemma validator_transparent_from:
  assumes "accepts (unary v) (state v) (items recv n (recv_stream v))" "state v \<noteq> Done"
  shows "items (validator_recv recv) n v = items recv n (recv_stream v)"
  using assms
proof (induction n arbitrary: v)
  case (Suc n)
  obtain i r where r: "recv (recv_stream v) = (i, r)" by (cases "recv (recv_stream v)")
  with Suc.prems(1) obtain st where st: "follow (unary v) (state v) i = Some st" "accepts (unary v) st (items recv n r)"
    by (auto split: option.splits)
  let ?v = "v\<lparr>recv_stream := r, state := st\<rparr>"
  have "items (validator_recv recv) n ?v = items recv n r"
  proof (cases "st = Done")
    case True
    have "length (items recv n r) = n" by (induction n arbitrary: r) (simp_all split: prod.split)
    with True st(2) show ?thesis by (simp add: items_Done accepts_Done)
  next
    case False
    with Suc.IH [of ?v] st(2) show ?thesis by simp
  qed
  with validator_passes [of v recv i r st] Suc.prems(2) st(1) r show ?case by simp
qed simp

text \<open>
  The validator is transparent: a stream whose items follow the protocol comes through unchanged.
\<close>

theorem validator_transparent:
  assumes "protocol u (items recv n r)"
  shows "items (validator_recv recv) n (validator_new r u) = items recv n r"
  using assms validator_transparent_from [of "validator_new r u" recv n]
  by (simp add: protocol_iff validator_new_def)

theorem validator_transparent_witness:
  "let is = [Headers (0 :: nat), Message, TrailersItem (trailers_new (Inr ()) :: unit Trailers), StreamClosed]
   in items (validator_recv replay) 4 (validator_new is True) = items replay 4 is"
  unfolding Let_def
  by (rule validator_transparent) (simp add: protocol_iff eval_nat_numeral trailers_new_def)

text \<open>
  The first violation before the trailers ends the response: the items before it are delivered, then one
  INTERNAL error, and then the stream is closed however the underlying stream goes on.
\<close>

theorem validator_reports_violation:
  assumes "items recv (length pre + Suc k) r = pre @ i # rest"
    and "protocol u pre" "\<not> protocol u (pre @ [i])" "\<forall>t. TrailersItem t \<notin> set pre"
  shows "\<exists>m. items (validator_recv recv) (length pre + Suc k) (validator_new r u) =
    pre @ TrailersItem (trailers_new (Inl (status_error Internal m))) # replicate k StreamClosed"
proof -
  have main: "\<exists>m. items (validator_recv recv) (length pre + Suc k) v =
      pre @ TrailersItem (trailers_new (Inl (status_error Internal m))) # replicate k StreamClosed"
    if "state v \<noteq> Done" "items recv (length pre + Suc k) (recv_stream v) = pre @ i # rest"
      "accepts (unary v) (state v) pre" "\<not> accepts (unary v) (state v) (pre @ [i])" "\<forall>t. TrailersItem t \<notin> set pre" for v
    using that
  proof (induction pre arbitrary: v)
    case Nil
    obtain j r where r: "recv (recv_stream v) = (j, r)" by (cases "recv (recv_stream v)")
    with Nil have "j = i" "follow (unary v) (state v) i = None" by (auto split: option.splits)
    with r Nil.prems(1) obtain m where "validator_recv recv v =
        (TrailersItem (trailers_new (Inl (status_error Internal m))), v\<lparr>recv_stream := r, state := Done\<rparr>)"
      by (cases "state v"; cases i) (auto simp: validator_recv_def validate_def error_def split: if_splits)
    then show ?case by (auto simp: items_Done)
  next
    case (Cons p pre)
    obtain j r where r: "recv (recv_stream v) = (j, r)" by (cases "recv (recv_stream v)")
    with Cons.prems have j: "j = p" and rest: "items recv (length pre + Suc k) r = pre @ i # rest" by auto
    from Cons.prems(3,4) obtain st where st: "follow (unary v) (state v) p = Some st" "accepts (unary v) st pre"
      "\<not> accepts (unary v) st (pre @ [i])"
      by (auto split: option.splits)
    have "st \<noteq> Done"
      using st(1) Cons.prems(1,5) by (cases "state v"; cases p) (auto split: if_splits)
    with Cons.IH [of "v\<lparr>recv_stream := r, state := st\<rparr>"] rest st Cons.prems(5)
    obtain m where "items (validator_recv recv) (length pre + Suc k) (v\<lparr>recv_stream := r, state := st\<rparr>) =
        pre @ TrailersItem (trailers_new (Inl (status_error Internal m))) # replicate k StreamClosed"
      by auto
    with validator_passes [of v recv p r st] Cons.prems(1) st(1) r j show ?case by auto
  qed
  show ?thesis
    by (rule main) (use assms in \<open>simp_all add: protocol_iff validator_new_def\<close>)
qed

theorem validator_reports_violation_witness:
  "let pre = [Headers (0 :: nat), Message]; is = pre @ Message # [StreamClosed] :: (nat, unit) ResponseStreamItem list
   in \<exists>m. items (validator_recv replay) (length pre + Suc 1) (validator_new is True) =
    pre @ TrailersItem (trailers_new (Inl (status_error Internal m))) # replicate 1 StreamClosed"
  unfolding Let_def
  by (rule validator_reports_violation [where rest = "[StreamClosed]"]) (auto simp: protocol_iff eval_nat_numeral)

text \<open>
  Property C30. A response always ends: if the underlying stream delivers trailers or closes within \<open>n\<close> items,
  the validator delivers trailers within \<open>n\<close> items.
\<close>

theorem validator_delivers_trailers:
  assumes "\<exists>i \<in> set (items recv n r). i = StreamClosed \<or> (\<exists>t. i = TrailersItem t)"
  shows "\<exists>t. TrailersItem t \<in> set (items (validator_recv recv) n (validator_new r u))"
proof -
  have "\<exists>t. TrailersItem t \<in> set (items (validator_recv recv) n v)"
    if "\<exists>i \<in> set (items recv n (recv_stream v)). i = StreamClosed \<or> (\<exists>t. i = TrailersItem t)" "state v \<noteq> Done" for v
    using that
  proof (induction n arbitrary: v)
    case (Suc n)
    obtain i r where r: "recv (recv_stream v) = (i, r)" by (cases "recv (recv_stream v)")
    obtain j v' where v': "validator_recv recv v = (j, v')" by (cases "validator_recv recv v")
    have step: "(\<exists>t. j = TrailersItem t) \<or>
        i \<noteq> StreamClosed \<and> (\<forall>t. i \<noteq> TrailersItem t) \<and> state v' \<noteq> Done \<and> recv_stream v' = r"
      using v' r Suc.prems(2)
      by (auto simp: validator_recv_def validate_def error_def split: ResponseStreamItem.splits if_splits)
    show ?case
    proof (cases "\<exists>t. j = TrailersItem t")
      case True
      with v' show ?thesis by auto
    next
      case False
      with step have "\<exists>t. TrailersItem t \<in> set (items (validator_recv recv) n v')"
        using Suc.prems(1) r by (intro Suc.IH) auto
      with v' show ?thesis by auto
    qed
  qed simp
  with assms show ?thesis by (simp add: validator_new_def)
qed

theorem validator_delivers_trailers_witness:
  "\<exists>t. TrailersItem t \<in> set (items (validator_recv replay) 2 (validator_new [Headers (0 :: nat) :: (nat, unit) ResponseStreamItem] False))"
  by (rule validator_delivers_trailers) (simp add: eval_nat_numeral)

text \<open>
  A call that failed before it was sent delivers its status: the failing stream, also behind a
  validator, unary or not, yields trailers with exactly that status and connection, and is closed after that.
\<close>

theorem failing_stream_delivers_status:
  "items (validator_recv failing_recv) (Suc n) (snd (intercept_response u (tx, failing_stream s c))) =
     (TrailersItem \<lparr>status = Inl s, metadata = [], connection_info = c\<rparr> # replicate n StreamClosed
       :: ('h, 'c) ResponseStreamItem list)"
proof -
  have "validator_recv failing_recv (validator_new (failing_stream s c) u) =
      (TrailersItem \<lparr>status = Inl s, metadata = [], connection_info = c\<rparr> :: ('h, 'c) ResponseStreamItem,
       \<lparr>recv_stream = \<lparr>failing_status = None, failing_connection_info = None\<rparr>, state = Done, unary = u\<rparr>)"
    by (simp add: validator_recv_def validator_new_def failing_recv_def failing_stream_def validate_def trailers_new_def)
  then show ?thesis by (simp add: intercept_response_def items_Done)
qed

end
