(* ===== verification/Grpc_Metadata.thy ===== *)
theory Grpc_Metadata
  imports Metadata_Encoding
begin

text \<open>
  Metadata of the \<open>grpc\<close> crate: \<open>grpc/src/metadata/encoding.rs\<close>, \<open>value.rs\<close> and \<open>map.rs\<close>. A metadata map is a
  vector of entries, looked up by a linear scan. Header names are strings in the lower-case form that
  \<open>http::HeaderName\<close> keeps; the operations of \<open>http::HeaderMap\<close> that the conversions use, and the comparison
  of a header name with a text, are the parameters \<open>'h http\<close>; base64 and \<open>HeaderName::from_bytes\<close> are those
  of \<open>'h ext\<close>. The unit error is \<open>InvalidMetadataValueBytes\<close>.
\<close>

datatype ValueEncoding = Ascii | Binary

record UnencodedHeaderValue =
  data :: "byte list"
  is_sensitive :: bool

definition header_value_from_bytes :: "byte list \<Rightarrow> UnencodedHeaderValue" where
  "header_value_from_bytes bytes = \<lparr>data = bytes, is_sensitive = True\<rparr>"

definition header_value_eq :: "UnencodedHeaderValue \<Rightarrow> UnencodedHeaderValue \<Rightarrow> bool" where
  "header_value_eq a b \<longleftrightarrow> data a = data b"

section \<open>Keys and values\<close>

definition valid_key_char :: "char \<Rightarrow> bool" where
  "valid_key_char c \<longleftrightarrow>
     (48 \<le> (of_char c :: nat) \<and> (of_char c :: nat) \<le> 57) \<or>
     (97 \<le> (of_char c :: nat) \<and> (of_char c :: nat) \<le> 122) \<or>
     c = CHR ''_'' \<or> c = CHR ''-'' \<or> c = CHR ''.''"

definition is_valid_key :: "string \<Rightarrow> bool" where
  "is_valid_key key \<longleftrightarrow> key \<noteq> [] \<and> list_all valid_key_char key"

fun ve_is_valid_key :: "ValueEncoding \<Rightarrow> string \<Rightarrow> bool" where
  "ve_is_valid_key Ascii key \<longleftrightarrow> \<not> ends_with key ''-bin'' \<and> is_valid_key key"
| "ve_is_valid_key Binary key \<longleftrightarrow> ends_with key ''-bin'' \<and> is_valid_key key"

definition is_valid_value :: "byte list \<Rightarrow> bool" where
  "is_valid_value v \<longleftrightarrow> list_all (\<lambda>b. 32 \<le> b \<and> b \<le> 126) v"

definition is_ascii_whitespace :: "byte \<Rightarrow> bool" where
  "is_ascii_whitespace b \<longleftrightarrow> b = 32 \<or> b = 9 \<or> b = 10 \<or> b = 12 \<or> b = 13"

definition trim_ascii :: "byte list \<Rightarrow> byte list" where
  "trim_ascii v = rev (dropWhile is_ascii_whitespace (rev (dropWhile is_ascii_whitespace v)))"

fun ve_from_bytes :: "ValueEncoding \<Rightarrow> byte list \<Rightarrow> unit + UnencodedHeaderValue" where
  "ve_from_bytes Ascii v =
     (let v = trim_ascii v
      in if v = [] \<or> \<not> is_valid_value v then Inl () else Inr (header_value_from_bytes v))"
| "ve_from_bytes Binary v = Inr (header_value_from_bytes v)"

text \<open>\<open>from_shared\<close> slices the shared buffer to the trimmed part, whose content this is.\<close>

fun ve_from_shared :: "ValueEncoding \<Rightarrow> byte list \<Rightarrow> unit + UnencodedHeaderValue" where
  "ve_from_shared Ascii v =
     (let trimmed = trim_ascii v
      in if \<not> is_valid_value trimmed then Inl ()
         else if length trimmed = length v then Inr (header_value_from_bytes v)
         else Inr (header_value_from_bytes trimmed))"
| "ve_from_shared Binary v = Inr (header_value_from_bytes v)"

fun ve_from_static :: "ValueEncoding \<Rightarrow> byte list \<Rightarrow> UnencodedHeaderValue option" where
  "ve_from_static Ascii v =
     (let v = trim_ascii v in if \<not> is_valid_value v then None else Some (header_value_from_bytes v))"
| "ve_from_static Binary v = Some (header_value_from_bytes v)"

fun ve_decode :: "'h ext \<Rightarrow> ValueEncoding \<Rightarrow> string \<Rightarrow> unit + byte list" where
  "ve_decode E Ascii v =
     (let v = trim_ascii (bytes_of v) in if v = [] \<or> \<not> is_valid_value v then Inl () else Inr v)"
| "ve_decode E Binary v = (case b64_decode E v of Some b \<Rightarrow> Inr b | None \<Rightarrow> Inl ())"

fun ve_encode :: "'h ext \<Rightarrow> ValueEncoding \<Rightarrow> byte list \<Rightarrow> string" where
  "ve_encode E Ascii v = string_of v"
| "ve_encode E Binary v = b64_encode_no_pad E v"

section \<open>The map\<close>

type_synonym MetadataMap = "(string \<times> UnencodedHeaderValue) list"

record 'h http =
  http_new :: 'h
  http_append :: "'h \<Rightarrow> string \<Rightarrow> string \<Rightarrow> 'h"
  http_iter :: "'h \<Rightarrow> (string \<times> string) list"
  name_eq_str :: "string \<Rightarrow> string \<Rightarrow> bool"

text \<open>
  The loop of \<open>insert\<close> over the read indices: the vector, the value still to be placed, the value that was
  replaced, and the write index.
\<close>

definition swap :: "nat \<Rightarrow> nat \<Rightarrow> 'a list \<Rightarrow> 'a list" where
  "swap i j xs = xs[i := xs ! j, j := xs ! i]"

definition insert_step ::
  "string \<Rightarrow> nat \<Rightarrow> MetadataMap \<times> UnencodedHeaderValue option \<times> UnencodedHeaderValue option \<times> nat \<Rightarrow>
   MetadataMap \<times> UnencodedHeaderValue option \<times> UnencodedHeaderValue option \<times> nat" where
  "insert_step key read_idx = (\<lambda>(headers, new_val, old_val, write_idx).
     if fst (headers ! read_idx) = key then
       (case new_val of
          Some v \<Rightarrow> (headers[read_idx := (fst (headers ! read_idx), v)], None,
                      Some (snd (headers ! read_idx)), write_idx + 1)
        | None \<Rightarrow> (headers, new_val, old_val, write_idx))
     else ((if read_idx \<noteq> write_idx then swap read_idx write_idx headers else headers),
           new_val, old_val, write_idx + 1))"

definition md_insert ::
  "string \<Rightarrow> UnencodedHeaderValue \<Rightarrow> MetadataMap \<Rightarrow> MetadataMap \<times> UnencodedHeaderValue option" where
  "md_insert key val m =
     (case fold (insert_step key) [0..<length m] (m, Some val, None, 0) of
        (headers, new_val, old_val, write_idx) \<Rightarrow>
          (let headers = take write_idx headers
           in (case new_val of Some v \<Rightarrow> headers @ [(key, v)] | None \<Rightarrow> headers, old_val)))"

definition md_append :: "string \<Rightarrow> UnencodedHeaderValue \<Rightarrow> MetadataMap \<Rightarrow> MetadataMap" where
  "md_append key val m = m @ [(key, val)]"

definition md_merge :: "MetadataMap \<Rightarrow> MetadataMap \<Rightarrow> MetadataMap" where
  "md_merge other m = m @ other"

text \<open>Lookups by a \<open>MetadataKey\<close> and by a text; \<open>None\<close> of \<open>get_all_str\<close> is the panic of its \<open>unwrap\<close>.\<close>

definition md_get :: "MetadataMap \<Rightarrow> string \<Rightarrow> UnencodedHeaderValue option" where
  "md_get m key = map_option snd (find (\<lambda>e. fst e = key) m)"

definition md_get_all :: "MetadataMap \<Rightarrow> string option \<Rightarrow> UnencodedHeaderValue list" where
  "md_get_all m key =
     (case key of None \<Rightarrow> [] | Some key \<Rightarrow> map snd (filter (\<lambda>e. fst e = key) m))"

definition md_get_str :: "'h http \<Rightarrow> ValueEncoding \<Rightarrow> MetadataMap \<Rightarrow> string \<Rightarrow> UnencodedHeaderValue option" where
  "md_get_str H ve m key =
     (if \<not> ve_is_valid_key ve key then None
      else map_option snd (find (\<lambda>e. name_eq_str H (fst e) key) m))"

definition md_get_all_str :: "'h ext \<Rightarrow> ValueEncoding \<Rightarrow> MetadataMap \<Rightarrow> string \<Rightarrow> UnencodedHeaderValue list option" where
  "md_get_all_str E ve m key =
     (if ve_is_valid_key ve key then
        (case hn_parse E key of
           Inr name \<Rightarrow> if ve_is_valid_key ve name then Some (md_get_all m (Some name)) else None
         | Inl _ \<Rightarrow> None)
      else Some (md_get_all m None))"

definition md_remove_str ::
  "'h http \<Rightarrow> ValueEncoding \<Rightarrow> string \<Rightarrow> MetadataMap \<Rightarrow> MetadataMap \<times> UnencodedHeaderValue option" where
  "md_remove_str H ve key m =
     (if \<not> ve_is_valid_key ve key then (m, None)
      else (filter (\<lambda>e. \<not> name_eq_str H (fst e) key) m,
            map_option snd (find (\<lambda>e. name_eq_str H (fst e) key) m)))"

definition md_remove_all :: "string \<Rightarrow> MetadataMap \<Rightarrow> MetadataMap" where
  "md_remove_all key m = filter (\<lambda>e. fst e \<noteq> key) m"

definition md_remove_all_str :: "'h http \<Rightarrow> ValueEncoding \<Rightarrow> string \<Rightarrow> MetadataMap \<Rightarrow> MetadataMap" where
  "md_remove_all_str H ve key m =
     (if \<not> ve_is_valid_key ve key then m else filter (\<lambda>e. \<not> name_eq_str H (fst e) key) m)"

definition md_contains_key :: "MetadataMap \<Rightarrow> string \<Rightarrow> bool" where
  "md_contains_key m key \<longleftrightarrow> list_ex (\<lambda>e. fst e = key) m"

definition md_contains_key_str :: "'h http \<Rightarrow> MetadataMap \<Rightarrow> string \<Rightarrow> bool" where
  "md_contains_key_str H m key \<longleftrightarrow> list_ex (\<lambda>e. name_eq_str H (fst e) key) m"

datatype KeyAndValue = AsciiEntry string UnencodedHeaderValue | BinaryEntry string UnencodedHeaderValue

definition key_and_value :: "string \<times> UnencodedHeaderValue \<Rightarrow> KeyAndValue" where
  "key_and_value e =
     (if \<not> ends_with (fst e) ''-bin'' then AsciiEntry (fst e) (snd e) else BinaryEntry (fst e) (snd e))"

definition md_iter :: "MetadataMap \<Rightarrow> KeyAndValue list" where
  "md_iter m = map key_and_value m"

definition md_retain :: "(KeyAndValue \<Rightarrow> bool) \<Rightarrow> MetadataMap \<Rightarrow> MetadataMap" where
  "md_retain f m = filter (\<lambda>e. f (key_and_value e)) m"

text \<open>The error text of a binary value that is not base64 names the key.\<close>

definition decode_error_text :: "string \<Rightarrow> string" where
  "decode_error_text key =
     ''failed to decode base64 value for key '' @ [CHR 0x27] @ key @ [CHR 0x27] @ '': failed to parse metadata value''"

fun from_header_entries :: "'h ext \<Rightarrow> (string \<times> string) list \<Rightarrow> MetadataMap \<Rightarrow> string + MetadataMap" where
  "from_header_entries E [] ret = Inr ret"
| "from_header_entries E ((key, val) # rest) ret =
     (if ve_is_valid_key Ascii key then
        (case ve_from_bytes Ascii (bytes_of val) of
           Inr mv \<Rightarrow> from_header_entries E rest (ret @ [(key, mv)])
         | Inl _ \<Rightarrow> from_header_entries E rest ret)
      else if ve_is_valid_key Binary key then
        (case ve_decode E Binary val of
           Inr b \<Rightarrow> from_header_entries E rest (ret @ [(key, header_value_from_bytes b)])
         | Inl _ \<Rightarrow> Inl (decode_error_text key))
      else from_header_entries E rest ret)"

definition from_headers :: "'h ext \<Rightarrow> 'g http \<Rightarrow> 'g \<Rightarrow> string + MetadataMap" where
  "from_headers E H headers = from_header_entries E (http_iter H headers) []"

definition into_headers :: "'h ext \<Rightarrow> 'g http \<Rightarrow> MetadataMap \<Rightarrow> 'g" where
  "into_headers E H m =
     foldl (\<lambda>ret (key, val).
        http_append H ret key
          (if ends_with key ''-bin'' then ve_encode E Binary (data val) else ve_encode E Ascii (data val)))
       (http_new H) m"

section \<open>The insertion loop\<close>

text \<open>What an insertion is for: the first entry of the key gets the value, the other entries of the key go.\<close>

fun put_first :: "string \<Rightarrow> 'v \<Rightarrow> (string \<times> 'v) list \<Rightarrow> (string \<times> 'v) list" where
  "put_first k v [] = []"
| "put_first k v (e # m) = (if fst e = k then (k, v) # filter (\<lambda>e. fst e \<noteq> k) m else e # put_first k v m)"

lemma put_first_absent: "k \<notin> fst ` set m \<Longrightarrow> put_first k v m = m"
  by (induction m) auto

lemma put_first_snoc:
  "put_first k v (m @ [e]) =
     (if fst e \<noteq> k then put_first k v m @ [e] else if k \<in> fst ` set m then put_first k v m else m @ [(k, v)])"
  by (induction m) auto

lemma length_put_first: "length (put_first k v m) \<le> length m"
proof (induction m)
  case (Cons e m)
  then show ?case using length_filter_le [of "\<lambda>e. fst e \<noteq> k" m] by auto
qed simp

lemma find_snoc: "find P (xs @ [x]) = (case find P xs of Some y \<Rightarrow> Some y | None \<Rightarrow> if P x then Some x else None)"
  by (induction xs) auto

lemma find_key_None: "find (\<lambda>e. fst e = k) m = None \<longleftrightarrow> k \<notin> fst ` set m"
  by (induction m) auto

definition insert_inv ::
  "string \<Rightarrow> UnencodedHeaderValue \<Rightarrow> MetadataMap \<Rightarrow> nat \<Rightarrow>
   MetadataMap \<times> UnencodedHeaderValue option \<times> UnencodedHeaderValue option \<times> nat \<Rightarrow> bool" where
  "insert_inv key val m r = (\<lambda>(headers, new_val, old_val, w).
     length headers = length m \<and> drop r headers = drop r m \<and> w = length (put_first key val (take r m)) \<and>
     take w headers = put_first key val (take r m) \<and>
     new_val = (if key \<in> fst ` set (take r m) then None else Some val) \<and> old_val = md_get (take r m) key)"

lemma take_swap: "w < r \<Longrightarrow> r < length xs \<Longrightarrow> take (Suc w) (swap r w xs) = take w xs @ [xs ! r]"
  by (simp add: swap_def take_Suc_conv_app_nth take_update_cancel)

lemma drop_swap: "w < r \<Longrightarrow> drop (Suc r) (swap r w xs) = drop (Suc r) xs"
  by (simp add: swap_def drop_update_cancel)

lemma insert_step_inv:
  assumes inv: "insert_inv key val m r s" and r: "r < length m"
  shows "insert_inv key val m (Suc r) (insert_step key r s)"
proof -
  obtain h nv ov w where s: "s = (h, nv, ov, w)" by (cases s)
  have i: "length h = length m" "drop r h = drop r m" "w = length (put_first key val (take r m))"
    "take w h = put_first key val (take r m)" "nv = (if key \<in> fst ` set (take r m) then None else Some val)"
    "ov = md_get (take r m) key"
    using inv unfolding s insert_inv_def prod.case by blast+
  have hr: "h ! r = m ! r" using i(1,2) r by (metis nth_via_drop Cons_nth_drop_Suc)
  have dr: "drop (Suc r) h = drop (Suc r) m" using i(2) by (metis drop_Suc tl_drop)
  have wr: "w \<le> r" using i(3) length_put_first [of key val "take r m"] r by simp
  have take_r: "take (Suc r) m = take r m @ [m ! r]" using r by (rule take_Suc_conv_app_nth)
  show ?thesis
  proof (cases "fst (m ! r) = key")
    case False
    have "take (Suc w) (if r \<noteq> w then swap r w h else h) = take w h @ [m ! r]"
      using wr r i(1) hr by (auto simp: take_swap take_Suc_conv_app_nth)
    moreover have "drop (Suc r) (if r \<noteq> w then swap r w h else h) = drop (Suc r) m"
      using wr dr by (auto simp: drop_swap)
    ultimately show ?thesis using False i hr
      by (auto simp: s insert_inv_def insert_step_def take_r put_first_snoc md_get_def find_snoc swap_def
          split: option.split)
  next
    case True
    show ?thesis
    proof (cases "key \<in> fst ` set (take r m)")
      case in_prefix: True
      then show ?thesis using True i hr dr
        by (auto simp: s insert_inv_def insert_step_def take_r put_first_snoc md_get_def find_snoc find_key_None
            split: option.split)
    next
      case absent: False
      then have "w = r" "take r h = take r m" using i(3,4) r by (simp_all add: put_first_absent)
      then have "take (Suc r) (h[r := (key, val)]) = take r m @ [(key, val)]"
        using r i(1) by (simp add: take_Suc_conv_app_nth)
      then show ?thesis using True absent i hr dr \<open>w = r\<close> r
        by (auto simp: s insert_inv_def insert_step_def take_r put_first_snoc md_get_def find_snoc
            find_key_None [THEN iffD2] drop_update_cancel)
    qed
  qed
qed

lemma insert_loop_inv:
  "r \<le> length m \<Longrightarrow> insert_inv key val m r (fold (insert_step key) [0..<r] (m, Some val, None, 0))"
proof (induction r)
  case 0
  then show ?case by (simp add: insert_inv_def md_get_def)
next
  case (Suc r)
  then show ?case using insert_step_inv [of key val m r] by simp
qed

lemma md_insert_eq:
  "md_insert key val m =
     (if md_contains_key m key then put_first key val m else m @ [(key, val)], md_get m key)"
proof -
  have "insert_inv key val m (length m) (fold (insert_step key) [0..<length m] (m, Some val, None, 0))"
    by (rule insert_loop_inv) simp
  then show ?thesis
    by (auto simp: md_insert_def insert_inv_def md_contains_key_def list_ex_iff put_first_absent
        split: prod.splits)
qed

section \<open>A metadata map as a map from keys to lists of values\<close>

text \<open>The contract of a map with several values per key, and what a sequence of operations does to it.\<close>

datatype 'v map_op = OpInsert string 'v | OpAppend string 'v | OpRemove string

fun abs_op :: "'v map_op \<Rightarrow> (string \<Rightarrow> 'v list) \<Rightarrow> string \<Rightarrow> 'v list" where
  "abs_op (OpInsert k v) f = f(k := [v])"
| "abs_op (OpAppend k v) f = f(k := f k @ [v])"
| "abs_op (OpRemove k) f = f(k := [])"

fun apply_op ::
  "(string \<Rightarrow> 'v \<Rightarrow> 'm \<Rightarrow> 'm) \<Rightarrow> (string \<Rightarrow> 'v \<Rightarrow> 'm \<Rightarrow> 'm) \<Rightarrow> (string \<Rightarrow> 'm \<Rightarrow> 'm) \<Rightarrow> 'v map_op \<Rightarrow> 'm \<Rightarrow> 'm" where
  "apply_op ins app del (OpInsert k v) m = ins k v m"
| "apply_op ins app del (OpAppend k v) m = app k v m"
| "apply_op ins app del (OpRemove k) m = del k m"

locale multimap =
  fixes vals :: "'m \<Rightarrow> string \<Rightarrow> 'v list" and ins :: "string \<Rightarrow> 'v \<Rightarrow> 'm \<Rightarrow> 'm"
    and app :: "string \<Rightarrow> 'v \<Rightarrow> 'm \<Rightarrow> 'm" and del :: "string \<Rightarrow> 'm \<Rightarrow> 'm"
  assumes vals_ins: "vals (ins k v m) j = (if j = k then [v] else vals m j)"
    and vals_app: "vals (app k v m) j = vals m j @ (if j = k then [v] else [])"
    and vals_del: "vals (del k m) j = (if j = k then [] else vals m j)"
begin

lemma vals_apply: "vals (apply_op ins app del op m) = abs_op op (vals m)"
  by (cases op) (auto simp: vals_ins vals_app vals_del)

lemma vals_run: "vals (fold (apply_op ins app del) ops m) = fold abs_op ops (vals m)"
  by (induction ops arbitrary: m) (simp_all add: vals_apply)

end

abbreviation values_of :: "MetadataMap \<Rightarrow> string \<Rightarrow> UnencodedHeaderValue list" where
  "values_of m k \<equiv> md_get_all m (Some k)"

lemma values_of_eq: "values_of m k = map snd (filter (\<lambda>e. fst e = k) m)"
  by (simp add: md_get_all_def)

lemma filter_put_first:
  "filter (\<lambda>e. fst e = j) (put_first k v m) =
     (if j = k then (if k \<in> fst ` set m then [(k, v)] else []) else filter (\<lambda>e. fst e = j) m)"
proof (induction m)
  case (Cons e m)
  have "filter (\<lambda>e. fst e = j) (filter (\<lambda>e. fst e \<noteq> k) m) = (if j = k then [] else filter (\<lambda>e. fst e = j) m)"
    by (auto simp: filter_empty_conv intro: filter_cong)
  then show ?case using Cons by (cases "fst e = k"; cases "j = k") simp_all
qed simp

lemma values_insert: "values_of (fst (md_insert k v m)) j = (if j = k then [v] else values_of m j)"
  by (auto simp: md_insert_eq values_of_eq filter_put_first md_contains_key_def list_ex_iff filter_empty_conv)

interpretation md: multimap values_of "\<lambda>k v m. fst (md_insert k v m)" md_append md_remove_all
proof unfold_locales
  show "values_of (md_remove_all k m) j = (if j = k then [] else values_of m j)" for k m j
    by (auto simp: values_of_eq md_remove_all_def filter_empty_conv intro!: arg_cong [where f = "map snd"] filter_cong)
  show "values_of (fst (md_insert k v m)) j = (if j = k then [v] else values_of m j)" for k v m j
    by (rule values_insert)
qed (simp add: values_of_eq md_append_def)

lemma md_get_values: "md_get m k = (case values_of m k of [] \<Rightarrow> None | v # _ \<Rightarrow> Some v)"
  by (induction m) (auto simp: md_get_def md_get_all_def)

text \<open>
  Property C9. A metadata map behaves as a map from keys to lists of values: any sequence of inserts, appends and
  removals has on every key the effect it has on such a map (so the in-place insertion loop keeps the values
  and the order of all other keys), an insert returns the first old value, and a lookup gives the first value.
\<close>

theorem metadata_map_refines_multimap:
  "values_of (fold (apply_op (\<lambda>k v m. fst (md_insert k v m)) md_append md_remove_all) ops m) =
     fold abs_op ops (values_of m) \<and>
   snd (md_insert k v m) = md_get m k \<and>
   md_get m k = (case values_of m k of [] \<Rightarrow> None | v # _ \<Rightarrow> Some v) \<and>
   (md_contains_key m k \<longleftrightarrow> values_of m k \<noteq> [])"
  using md.vals_run [of ops m] md_get_values [of m k]
  by (auto simp: md_insert_eq values_of_eq md_contains_key_def list_ex_iff filter_empty_conv)

section \<open>Looking up by a text\<close>

text \<open>
  The documented behaviour of \<open>http\<close>: iterating a header map gives the values of a name in the order in which
  they were appended, and comparing a header name with a text ignores ASCII case.
\<close>

definition entry_values :: "(string \<times> 'v) list \<Rightarrow> string \<Rightarrow> 'v list" where
  "entry_values es k = map snd (filter (\<lambda>e. fst e = k) es)"

definition http_laws :: "'h http \<Rightarrow> bool" where
  "http_laws H \<longleftrightarrow>
     http_iter H (http_new H) = [] \<and>
     (\<forall>h k v j. entry_values (http_iter H (http_append H h k v)) j =
        entry_values (http_iter H h) j @ (if j = k then [v] else [])) \<and>
     (\<forall>k s. name_eq_str H k s \<longleftrightarrow> eq_ignore_ascii_case k s)"

definition list_http :: "(string \<times> string) list http" where
  "list_http = \<lparr>http_new = [], http_append = (\<lambda>h k v. h @ [(k, v)]), http_iter = (\<lambda>h. h),
                name_eq_str = eq_ignore_ascii_case\<rparr>"

lemma list_http_laws: "http_laws list_http"
  by (simp add: http_laws_def list_http_def entry_values_def)

lemma valid_key_lower: "is_valid_key k \<Longrightarrow> to_ascii_lowercase k = k"
  by (auto simp: is_valid_key_def to_ascii_lowercase_def list_all_iff valid_key_char_def ascii_lower_def
      intro!: map_idI)

lemma name_eq_valid:
  "http_laws H \<Longrightarrow> is_valid_key k \<Longrightarrow> is_valid_key s \<Longrightarrow> name_eq_str H k s \<longleftrightarrow> k = s"
  by (simp add: http_laws_def eq_ignore_ascii_case_iff valid_key_lower)

lemma ve_valid_key: "ve_is_valid_key ve k \<Longrightarrow> is_valid_key k"
  by (cases ve) auto

definition wf_keys :: "MetadataMap \<Rightarrow> bool" where
  "wf_keys m \<longleftrightarrow> (\<forall>e \<in> set m. is_valid_key (fst e))"

lemma find_name_eq:
  assumes "http_laws H" "wf_keys m" "is_valid_key k"
  shows "find (\<lambda>e. name_eq_str H (fst e) k) m = find (\<lambda>e. fst e = k) m"
    and "filter (\<lambda>e. \<not> name_eq_str H (fst e) k) m = filter (\<lambda>e. fst e \<noteq> k) m"
  using assms(2) name_eq_valid [OF assms(1) _ assms(3)]
  by (induction m) (auto simp: wf_keys_def)

text \<open>
  On a map whose keys are valid, the lookups and removals by a text are those by the key it names, and
  find nothing when the text is not a key of the encoding asked for.
\<close>

theorem metadata_lookup_by_text:
  assumes "http_laws H" and "wf_keys m"
  shows "md_get_str H ve m s = (if ve_is_valid_key ve s then md_get m s else None) \<and>
    md_remove_str H ve s m = (if ve_is_valid_key ve s then (md_remove_all s m, md_get m s) else (m, None)) \<and>
    md_remove_all_str H ve s m = (if ve_is_valid_key ve s then md_remove_all s m else m)"
proof (cases "ve_is_valid_key ve s")
  case True
  then show ?thesis using find_name_eq [OF assms ve_valid_key [OF True]]
    by (simp add: md_get_str_def md_get_def md_remove_str_def md_remove_all_def md_remove_all_str_def)
qed (simp add: md_get_str_def md_remove_str_def md_remove_all_str_def)

theorem metadata_lookup_by_text_witness:
  "md_get_str list_http Ascii [(''x-host'', header_value_from_bytes [97]), (''t-bin'', header_value_from_bytes [0])] ''t-bin'' = None \<and>
   md_get_str list_http Binary [(''x-host'', header_value_from_bytes [97]), (''t-bin'', header_value_from_bytes [0])] ''t-bin'' =
     Some (header_value_from_bytes [0])"
proof -
  let ?m = "[(''x-host'', header_value_from_bytes [97]), (''t-bin'', header_value_from_bytes [0])]"
  have "wf_keys ?m" unfolding wf_keys_def by code_simp
  note look = metadata_lookup_by_text [OF list_http_laws this, of _ "''t-bin''"]
  have "\<not> ve_is_valid_key Ascii ''t-bin''" "ve_is_valid_key Binary ''t-bin''" by code_simp+
  then show ?thesis using look [of Ascii] look [of Binary] by (simp add: md_get_def)
qed

text \<open>
  \<open>contains_key\<close> with a text does not check that the text is a valid key: it finds \<open>X-Host\<close>, which is no
  valid key and which every other lookup misses.
\<close>

theorem contains_key_accepts_invalid:
  assumes "http_laws H"
  shows "md_contains_key_str H (fst (md_insert ''x-host'' v [])) ''X-Host'' \<and> \<not> is_valid_key ''X-Host'' \<and>
    md_get_str H ve (fst (md_insert ''x-host'' v [])) ''X-Host'' = None"
proof -
  have inv: "\<not> is_valid_key ''X-Host''" by code_simp
  have "eq_ignore_ascii_case ''x-host'' ''X-Host''" by code_simp
  then have "name_eq_str H ''x-host'' ''X-Host''" using assms by (simp add: http_laws_def)
  then show ?thesis using inv ve_valid_key [of ve "''X-Host''"]
    by (auto simp: md_insert_eq md_contains_key_def md_contains_key_str_def md_get_str_def)
qed

theorem contains_key_accepts_invalid_witness:
  "md_contains_key_str list_http (fst (md_insert ''x-host'' (header_value_from_bytes [97]) [])) ''X-Host''"
  using contains_key_accepts_invalid [OF list_http_laws] by blast

section \<open>To HTTP headers and back\<close>

text \<open>
  The entries that survive the wire: an ASCII value is not empty, has no blanks at its ends and only
  printable characters; a binary value is any bytes. \<open>ve_from_bytes\<close> makes only such values.
\<close>

definition wire_entry :: "string \<times> UnencodedHeaderValue \<Rightarrow> bool" where
  "wire_entry e \<longleftrightarrow>
     (ve_is_valid_key Ascii (fst e) \<and> data (snd e) \<noteq> [] \<and> trim_ascii (data (snd e)) = data (snd e) \<and>
      is_valid_value (data (snd e))) \<or>
     ve_is_valid_key Binary (fst e)"

definition encode_entry :: "'h ext \<Rightarrow> string \<times> UnencodedHeaderValue \<Rightarrow> string \<times> string" where
  "encode_entry E e =
     (fst e, if ends_with (fst e) ''-bin'' then ve_encode E Binary (data (snd e)) else ve_encode E Ascii (data (snd e)))"

definition fresh_value :: "UnencodedHeaderValue \<Rightarrow> UnencodedHeaderValue" where
  "fresh_value v = header_value_from_bytes (data v)"

lemma dropWhile_rev_dropWhile:
  "dropWhile P (rev (dropWhile P (rev (dropWhile P xs)))) = rev (dropWhile P (rev (dropWhile P xs)))"
proof (cases "dropWhile P xs")
  case (Cons y ys)
  then have "\<not> P y" by (metis hd_dropWhile list.distinct(1) list.sel(1))
  then have "dropWhile P (rev (y # ys)) = dropWhile P (rev ys) @ [y]"
    by (simp add: dropWhile_append3)
  then show ?thesis using Cons \<open>\<not> P y\<close> by simp
next
  case Nil
  then show ?thesis unfolding Nil by simp
qed

lemma trim_ascii_idem [simp]: "trim_ascii (trim_ascii v) = trim_ascii v"
  by (simp add: trim_ascii_def dropWhile_rev_dropWhile dropWhile_idem [simplified comp_def])

lemma from_bytes_wire:
  "ve_is_valid_key ve k \<Longrightarrow> ve_from_bytes ve b = Inr v \<Longrightarrow> wire_entry (k, v)"
  by (cases ve) (auto simp: wire_entry_def header_value_from_bytes_def Let_def split: if_splits)

lemma into_headers_values:
  assumes "http_laws H"
  shows "entry_values (http_iter H (into_headers E H m)) k = entry_values (map (encode_entry E) m) k"
proof -
  have step: "entry_values (http_iter H (foldl (\<lambda>ret (key, val). http_append H ret key
      (if ends_with key ''-bin'' then ve_encode E Binary (data val) else ve_encode E Ascii (data val))) h m)) k =
    entry_values (http_iter H h) k @ entry_values (map (encode_entry E) m) k" for h
    using assms
    by (induction m arbitrary: h) (auto simp: http_laws_def entry_values_def encode_entry_def split_beta)
  show ?thesis using step [of "http_new H"] assms
    by (simp add: into_headers_def http_laws_def entry_values_def)
qed

lemma entry_values_mem: "(k, v) \<in> set es \<longleftrightarrow> v \<in> set (entry_values es k)"
  by (force simp: entry_values_def)

text \<open>What an encoded entry is read back as.\<close>

definition decode_entry :: "'h ext \<Rightarrow> string \<times> string \<Rightarrow> string \<times> UnencodedHeaderValue" where
  "decode_entry E e = (fst e, header_value_from_bytes
     (if ends_with (fst e) ''-bin'' then the (b64_decode E (snd e)) else bytes_of (snd e)))"

lemma decode_encode_entry:
  assumes "base64_laws E" "wire_entry e"
  shows "from_header_entries E (encode_entry E e # rest) ret = from_header_entries E rest (ret @ [decode_entry E (encode_entry E e)])"
    and "decode_entry E (encode_entry E e) = (fst e, fresh_value (snd e))"
  using assms
  by (auto simp: wire_entry_def encode_entry_def decode_entry_def fresh_value_def base64_laws_def Let_def split: prod.splits)

lemma from_encoded:
  assumes "base64_laws E" "\<forall>e \<in> set L. \<exists>e'. wire_entry e' \<and> e = encode_entry E e'"
  shows "from_header_entries E L ret = Inr (ret @ map (decode_entry E) L)"
  using assms(2)
proof (induction L arbitrary: ret)
  case (Cons e L)
  then obtain e' where "wire_entry e'" "e = encode_entry E e'" by auto
  then show ?case using Cons decode_encode_entry(1) [OF assms(1)] by simp
qed simp



text \<open>
  Reading headers fails exactly if a header with a binary key is not base64; headers with other names, and ASCII
  headers with an unprintable or an empty value, are dropped.
\<close>

lemma from_header_entries_fails:
  "(\<exists>t. from_header_entries E L ret = Inl t) \<longleftrightarrow>
     (\<exists>(k, s) \<in> set L. ve_is_valid_key Binary k \<and> b64_decode E s = None)"
proof (induction E L ret rule: from_header_entries.induct)
  case (2 E key s rest ret)
  show ?case
  proof (cases "ve_is_valid_key Ascii key")
    case True
    then show ?thesis using 2(1,2) by (auto split: sum.split)
  next
    case False
    then show ?thesis using 2(3,4) by (cases "ve_is_valid_key Binary key") (auto split: sum.split option.split)
  qed
qed simp

text \<open>
  An empty ASCII value can be put into a map (\<open>from_static\<close> and \<open>from_shared\<close> accept it, \<open>from_bytes\<close>
  does not) but does not reach the receiver: its entry is dropped when the headers are read.
\<close>

theorem empty_value_lost:
  assumes "http_laws H" "base64_laws E" "ve_is_valid_key Ascii k"
  shows "ve_from_static Ascii [] = Some (header_value_from_bytes []) \<and>
    ve_from_shared Ascii [] = Inr (header_value_from_bytes []) \<and> ve_from_bytes Ascii [] = Inl () \<and>
    from_headers E H (into_headers E H (md_append k (header_value_from_bytes []) [])) = Inr []"
proof -
  have "entry_values (http_iter H (into_headers E H [(k, header_value_from_bytes [])])) j =
      (if j = k then [[]] else [])" for j
    unfolding into_headers_values [OF assms(1)] using assms(3)
    by (auto simp: entry_values_def encode_entry_def header_value_from_bytes_def string_of_def)
  then have "\<forall>(j, s) \<in> set (http_iter H (into_headers E H [(k, header_value_from_bytes [])])). j = k \<and> s = []"
    by (auto simp: entry_values_mem split: if_splits)
  moreover have "\<forall>(j, s) \<in> set L. j = k \<and> s = [] \<Longrightarrow> from_header_entries E L [] = Inr []" for L
    using assms(3) by (induction L) (auto simp: bytes_of_def trim_ascii_def)
  ultimately have "from_header_entries E (http_iter H (into_headers E H [(k, header_value_from_bytes [])])) [] = Inr []"
    by blast
  then show ?thesis by (simp add: from_headers_def md_append_def trim_ascii_def is_valid_value_def)
qed

theorem empty_value_lost_witness:
  "from_headers list_ext list_http (into_headers list_ext list_http (md_append ''x-a'' (header_value_from_bytes []) [])) = Inr []"
proof -
  have "ve_is_valid_key Ascii ''x-a''" by code_simp
  from empty_value_lost [OF list_http_laws list_ext_base64 this] show ?thesis by blast
qed

end
