(* ===== verification/Xds_Matching.thy ===== *)
theory Xds_Matching
  imports Grpc_Metadata "HOL-Library.Sublist" "HOL-Library.Product_Lexorder"
begin

text \<open>
  Matching of RPCs against xDS routes in the \<open>grpc-xds\<close> crate: string matchers
  (\<open>resource/string_matcher.rs\<close>, \<open>resource/safe_regex.rs\<close>), route and header matching (\<open>routing/route.rs\<close>), domain
  patterns (\<open>resource/route.rs\<close>) and the choice of a virtual host (\<open>routing/virtual_host.rs\<close>). The regex crate is
  the parameter \<open>'r regex_lib\<close>: how a pattern compiles and what a compiled pattern matches. A text is a string of
  bytes; a validation error is its message; an outer \<open>None\<close> is a panic. The values of a protobuf message, whose
  accessors are generated code, are records of what the accessors return, with strings that may not be UTF-8.
\<close>

section \<open>Texts\<close>

definition starts_with :: "string \<Rightarrow> string \<Rightarrow> bool" where
  "starts_with s p \<longleftrightarrow> take (length p) s = p"

fun str_contains :: "string \<Rightarrow> string \<Rightarrow> bool" where
  "str_contains [] t \<longleftrightarrow> t = []"
| "str_contains (c # s) t \<longleftrightarrow> starts_with (c # s) t \<or> str_contains s t"

definition starts_with_ignore_ascii_case :: "string \<Rightarrow> string \<Rightarrow> bool" where
  "starts_with_ignore_ascii_case input pre \<longleftrightarrow>
     length pre \<le> length input \<and> eq_ignore_ascii_case (take (length pre) input) pre"

definition ends_with_ignore_ascii_case :: "string \<Rightarrow> string \<Rightarrow> bool" where
  "ends_with_ignore_ascii_case input suf \<longleftrightarrow>
     length suf \<le> length input \<and> eq_ignore_ascii_case (drop (length input - length suf) input) suf"

text \<open>\<open>i64::from_str\<close>: an optional sign, then decimal digits, within the range of the type.\<close>

definition parse_i64 :: "string \<Rightarrow> int option" where
  "parse_i64 s =
     (case s of [] \<Rightarrow> None
      | c # cs \<Rightarrow>
          (let neg = (c = CHR ''-''); ds = (if c = CHR ''+'' \<or> neg then cs else s)
           in if ds = [] then None
              else (case parse_digits 0 ds of
                      None \<Rightarrow> None
                    | Some n \<Rightarrow>
                        (let v = (if neg then - int n else int n)
                         in if - (2 ^ 63) \<le> v \<and> v < 2 ^ 63 then Some v else None))))"

text \<open>\<open>ProtoStr::to_str\<close> with \<open>unwrap_or_default\<close>, and with \<open>expect\<close>.\<close>

definition proto_str_valid :: "string \<Rightarrow> bool" where
  "proto_str_valid s \<longleftrightarrow> valid_utf8 (map of_char s)"

definition to_str_or_default :: "string \<Rightarrow> string" where
  "to_str_or_default s = (if proto_str_valid s then s else [])"

definition to_str_expect :: "string \<Rightarrow> string option" where
  "to_str_expect s = (if proto_str_valid s then Some s else None)"

definition quoted :: "string \<Rightarrow> string" where
  "quoted s = [CHR 0x27] @ s @ [CHR 0x27]"

section \<open>String matchers\<close>

record 'r regex_lib =
  regex_new :: "string \<Rightarrow> string + 'r"
  regex_is_match :: "'r \<Rightarrow> string \<Rightarrow> bool"

definition ANCHOR_PREFIX :: string where "ANCHOR_PREFIX = [CHR 0x5C] @ ''A(?:''"
definition ANCHOR_SUFFIX :: string where "ANCHOR_SUFFIX = '')'' @ [CHR 0x5C] @ ''z''"

definition safe_regex_from_str :: "'r regex_lib \<Rightarrow> string \<Rightarrow> string + 'r" where
  "safe_regex_from_str X pattern =
     (if pattern = [] then Inl ''empty regex is not allowed''
      else case regex_new X pattern of
             Inl e \<Rightarrow> Inl e
           | Inr _ \<Rightarrow> regex_new X (ANCHOR_PREFIX @ pattern @ ANCHOR_SUFFIX))"

datatype 'r StringMatcher =
    SmExact string bool
  | SmPrefix string bool
  | SmSuffix string bool
  | SmContains string bool
  | SmSafeRegex 'r

definition fold_case :: "string \<Rightarrow> bool \<Rightarrow> string" where
  "fold_case val ignore_case = (if ignore_case then to_ascii_lowercase val else val)"

definition non_empty_match_value :: "string \<Rightarrow> string \<Rightarrow> string + string" where
  "non_empty_match_value val what =
     (if val = [] then Inl (''empty '' @ what @ '' match is not allowed'') else Inr val)"

definition sm_exact :: "string \<Rightarrow> bool \<Rightarrow> 'r StringMatcher" where
  "sm_exact val ignore_case = SmExact (fold_case val ignore_case) ignore_case"

definition sm_prefix :: "string \<Rightarrow> bool \<Rightarrow> string + 'r StringMatcher" where
  "sm_prefix val ignore_case =
     map_sum id (\<lambda>val. SmPrefix (fold_case val ignore_case) ignore_case) (non_empty_match_value val ''prefix'')"

definition sm_suffix :: "string \<Rightarrow> bool \<Rightarrow> string + 'r StringMatcher" where
  "sm_suffix val ignore_case =
     map_sum id (\<lambda>val. SmSuffix (fold_case val ignore_case) ignore_case) (non_empty_match_value val ''suffix'')"

definition sm_contains :: "string \<Rightarrow> bool \<Rightarrow> string + 'r StringMatcher" where
  "sm_contains val ignore_case =
     map_sum id (\<lambda>val. SmContains (fold_case val ignore_case) ignore_case) (non_empty_match_value val ''contains'')"

definition sm_safe_regex :: "'r \<Rightarrow> 'r StringMatcher" where
  "sm_safe_regex regex = SmSafeRegex regex"

datatype MatchPatternOneof =
    PatExact string | PatPrefix string | PatSuffix string | PatContains string | PatSafeRegex string
  | PatNotSet | PatUnsupported

record StringMatcherView =
  match_pattern :: MatchPatternOneof
  ignore_case :: bool

definition sm_from_proto :: "'r regex_lib \<Rightarrow> StringMatcherView \<Rightarrow> (string + 'r StringMatcher) option" where
  "sm_from_proto X p =
     (case match_pattern p of
        PatExact val \<Rightarrow> map_option (\<lambda>val. Inr (sm_exact val (ignore_case p))) (to_str_expect val)
      | PatPrefix val \<Rightarrow> map_option (\<lambda>val. sm_prefix val (ignore_case p)) (to_str_expect val)
      | PatSuffix val \<Rightarrow> map_option (\<lambda>val. sm_suffix val (ignore_case p)) (to_str_expect val)
      | PatContains val \<Rightarrow> map_option (\<lambda>val. sm_contains val (ignore_case p)) (to_str_expect val)
      | PatSafeRegex pattern \<Rightarrow>
          map_option (\<lambda>pattern. map_sum (\<lambda>e. ''invalid string matcher regex '' @ quoted pattern @ '': '' @ e)
                                        sm_safe_regex (safe_regex_from_str X pattern)) (to_str_expect pattern)
      | PatNotSet \<Rightarrow> Some (Inl ''StringMatcher has no match_pattern set'')
      | PatUnsupported \<Rightarrow> Some (Inl ''unsupported StringMatcher pattern''))"

fun sm_is_match :: "'r regex_lib \<Rightarrow> 'r StringMatcher \<Rightarrow> string \<Rightarrow> bool" where
  "sm_is_match X (SmExact val ignore) input = (if ignore then eq_ignore_ascii_case input val else input = val)"
| "sm_is_match X (SmPrefix val ignore) input =
     (if ignore then starts_with_ignore_ascii_case input val else starts_with input val)"
| "sm_is_match X (SmSuffix val ignore) input =
     (if ignore then ends_with_ignore_ascii_case input val else ends_with input val)"
| "sm_is_match X (SmContains val ignore) input =
     (if ignore then str_contains (to_ascii_lowercase input) val else str_contains input val)"
| "sm_is_match X (SmSafeRegex regex) input = regex_is_match X regex input"

section \<open>Routes\<close>

datatype 'r PathSpecifier = PathPrefix string | PathExact string | PathRegex 'r

datatype 'r HeaderMatchSpecifier =
    HeaderString "'r StringMatcher"
  | HeaderPresent
  | HeaderAbsent
  | HeaderRange int int

record 'r HeaderMatcher =
  hm_name :: string
  match_specifier :: "'r HeaderMatchSpecifier"
  invert_match :: bool

record 'r RouteMatch =
  path_specifier :: "'r PathSpecifier"
  route_headers :: "'r HeaderMatcher list"
  case_sensitive :: bool
  match_fraction :: "nat option"

definition path_matches :: "'r regex_lib \<Rightarrow> 'r RouteMatch \<Rightarrow> string \<Rightarrow> bool" where
  "path_matches X rm path =
     (case path_specifier rm of
        PathPrefix pre \<Rightarrow>
          if case_sensitive rm then starts_with path pre else starts_with_ignore_ascii_case path pre
      | PathExact exact \<Rightarrow> if case_sensitive rm then path = exact else eq_ignore_ascii_case path exact
      | PathRegex regex \<Rightarrow> regex_is_match X regex path)"

text \<open>
  The value a header matcher sees. The length that the code computes up front is compared with the joined text
  by a \<open>debug_assert\<close>, here a panic like that of \<open>get_all\<close>.
\<close>

definition md_to_str :: "UnencodedHeaderValue \<Rightarrow> string" where
  "md_to_str v = string_of (data v)"

definition header_value :: "'h ext \<Rightarrow> MetadataMap \<Rightarrow> string \<Rightarrow> string option option" where
  "header_value E metadata name =
     (if ends_with name ''-bin'' then Some None
      else if name = ''content-type'' then Some (Some ''application/grpc'')
      else case md_get_all_str E Ascii metadata name of
             None \<Rightarrow> None
           | Some vs \<Rightarrow>
               (case map md_to_str vs of
                  [] \<Rightarrow> Some None
                | [first] \<Rightarrow> Some (Some first)
                | first # second # rest \<Rightarrow>
                    (let len = foldl (\<lambda>len val. len + 1 + length val) (length first + 1 + length second) rest;
                         joined = foldl (\<lambda>joined val. joined @ '','' @ val) first (second # rest)
                     in if length joined = len then Some (Some joined) else None)))"

definition header_is_match :: "'h ext \<Rightarrow> 'r regex_lib \<Rightarrow> 'r HeaderMatcher \<Rightarrow> MetadataMap \<Rightarrow> bool option" where
  "header_is_match E X hm metadata =
     (case header_value E metadata (hm_name hm) of
        None \<Rightarrow> None
      | Some val \<Rightarrow>
          (case (match_specifier hm, val) of
             (HeaderPresent, _) \<Rightarrow> Some ((val \<noteq> None) \<noteq> invert_match hm)
           | (HeaderAbsent, _) \<Rightarrow> Some ((val = None) \<noteq> invert_match hm)
           | (_, None) \<Rightarrow> Some False
           | (HeaderRange start end', Some v) \<Rightarrow>
               Some ((case parse_i64 v of Some n \<Rightarrow> start \<le> n \<and> n < end' | None \<Rightarrow> False) \<noteq> invert_match hm)
           | (HeaderString matcher, Some v) \<Rightarrow> Some (sm_is_match X matcher v \<noteq> invert_match hm)))"

text \<open>\<open>all\<close> over the header matchers stops at the first that does not match.\<close>

fun headers_match :: "'h ext \<Rightarrow> 'r regex_lib \<Rightarrow> 'r HeaderMatcher list \<Rightarrow> MetadataMap \<Rightarrow> bool option" where
  "headers_match E X [] metadata = Some True"
| "headers_match E X (h # hs) metadata =
     (case header_is_match E X h metadata of
        None \<Rightarrow> None | Some False \<Rightarrow> Some False | Some True \<Rightarrow> headers_match E X hs metadata)"

text \<open>\<open>RouteMatch::is_match\<close>; \<open>random\<close> is the number that \<open>random_range(0..1_000_000)\<close> returns if it is called.\<close>

definition route_is_match ::
  "'h ext \<Rightarrow> 'r regex_lib \<Rightarrow> nat \<Rightarrow> 'r RouteMatch \<Rightarrow> string \<Rightarrow> MetadataMap \<Rightarrow> bool option" where
  "route_is_match E X random rm path metadata =
     (if \<not> path_matches X rm path then Some False
      else case headers_match E X (route_headers rm) metadata of
             Some True \<Rightarrow> Some (case match_fraction rm of None \<Rightarrow> True | Some fraction \<Rightarrow> random < fraction)
           | r \<Rightarrow> r)"

section \<open>Virtual hosts\<close>

datatype DomainMatcher = DmExact string | DmSuffix string | DmPrefix string | DmUniversal

datatype InvalidDomainPattern = InvalidDomainPattern

fun find_char :: "char \<Rightarrow> string \<Rightarrow> nat option" where
  "find_char x [] = None"
| "find_char x (c # s) = (if c = x then Some 0 else map_option Suc (find_char x s))"

definition domain_try_from :: "string \<Rightarrow> InvalidDomainPattern + DomainMatcher" where
  "domain_try_from domain =
     (if domain = [] then Inl InvalidDomainPattern
      else let domain = to_ascii_lowercase domain
           in case find_char (CHR ''*'') domain of
                None \<Rightarrow> Inr (DmExact domain)
              | Some index \<Rightarrow>
                  if index = 0 \<and> length domain = 1 then Inr DmUniversal
                  else if index = 0 \<and> CHR ''*'' \<notin> set (drop 1 domain) then Inr (DmSuffix (drop 1 domain))
                  else if index = length domain - 1 then Inr (DmPrefix (take index domain))
                  else Inl InvalidDomainPattern)"

datatype DomainMatchScore = ScoreExact | ScoreSuffix nat | ScorePrefix nat | ScoreUniversal

fun score_key :: "DomainMatchScore \<Rightarrow> nat \<times> int" where
  "score_key ScoreExact = (0, 0)"
| "score_key (ScoreSuffix n) = (1, - int n)"
| "score_key (ScorePrefix n) = (2, - int n)"
| "score_key ScoreUniversal = (3, 0)"

lemma score_key_inj: "score_key a = score_key b \<longleftrightarrow> a = b"
  by (cases a; cases b) auto

text \<open>The derived order of \<open>DomainMatchScore\<close>, with the lengths under \<open>Reverse\<close>.\<close>

instantiation DomainMatchScore :: linorder
begin

definition less_eq_DomainMatchScore :: "DomainMatchScore \<Rightarrow> DomainMatchScore \<Rightarrow> bool" where
  "less_eq_DomainMatchScore a b \<longleftrightarrow> score_key a \<le> score_key b"

definition less_DomainMatchScore :: "DomainMatchScore \<Rightarrow> DomainMatchScore \<Rightarrow> bool" where
  "less_DomainMatchScore a b \<longleftrightarrow> score_key a < score_key b"

instance
proof standard
  fix x y :: DomainMatchScore
  show "x < y \<longleftrightarrow> x \<le> y \<and> \<not> y \<le> x"
    by (simp add: less_eq_DomainMatchScore_def less_DomainMatchScore_def less_le_not_le)
qed (auto simp: less_eq_DomainMatchScore_def score_key_inj [symmetric])

end

definition match_authority :: "DomainMatcher \<Rightarrow> string \<Rightarrow> DomainMatchScore option" where
  "match_authority d authority =
     (case (case d of
              DmExact domain \<Rightarrow> (authority = domain, ScoreExact)
            | DmSuffix suf \<Rightarrow> (length suf < length authority \<and> ends_with authority suf, ScoreSuffix (length suf))
            | DmPrefix pre \<Rightarrow> (length pre < length authority \<and> starts_with authority pre, ScorePrefix (length pre))
            | DmUniversal \<Rightarrow> (authority \<noteq> [], ScoreUniversal)) of
        (matches, score) \<Rightarrow> if matches then Some score else None)"

text \<open>\<open>Iterator::min\<close>.\<close>

fun iter_min :: "'a::linorder list \<Rightarrow> 'a option" where
  "iter_min [] = None"
| "iter_min (x # xs) = Some (fold (\<lambda>y m. if y < m then y else m) xs x)"

definition host_score :: "string \<Rightarrow> DomainMatcher list \<Rightarrow> DomainMatchScore option" where
  "host_score authority domains = iter_min (List.map_filter (\<lambda>d. match_authority d authority) domains)"

record WeightedCluster =
  wc_name :: string
  wc_weight :: nat

datatype RouteAction = ActionCluster string | ActionWeighted "WeightedCluster list"

record 'r Route =
  route_match :: "'r RouteMatch"
  route_action :: RouteAction

record 'r VirtualHost =
  vh_name :: string
  domains :: "DomainMatcher list"
  routes :: "'r Route list"

definition find_virtual_host_index :: "string \<Rightarrow> 'r VirtualHost list \<Rightarrow> nat option" where
  "find_virtual_host_index authority hosts =
     (let authority = to_ascii_lowercase authority
      in map_option snd
           (iter_min (List.map_filter
              (\<lambda>(index, host). map_option (\<lambda>score. (score, index)) (host_score authority (domains host)))
              (List.enumerate 0 hosts))))"

section \<open>What the string tests mean\<close>

lemma starts_with_iff: "starts_with s p \<longleftrightarrow> prefix p s"
  unfolding starts_with_def by (metis append_eq_conv_conj prefixE prefixI take_is_prefix)

lemma ends_with_iff: "ends_with s t \<longleftrightarrow> suffix t s"
proof
  assume "ends_with s t"
  then show "suffix t s" unfolding ends_with_def by (metis suffix_drop)
next
  assume "suffix t s"
  then obtain u where "s = u @ t" by (auto simp: suffix_def)
  then show "ends_with s t" by (simp add: ends_with_def)
qed

lemma str_contains_iff: "str_contains s t \<longleftrightarrow> sublist t s"
proof (induction s)
  case Nil
  then show ?case by simp
next
  case (Cons c s)
  then show ?case by (simp add: starts_with_iff sublist_Cons_right)
qed

lemma starts_with_ignore_iff:
  "starts_with_ignore_ascii_case s p \<longleftrightarrow> prefix (to_ascii_lowercase p) (to_ascii_lowercase s)"
proof -
  have "length p \<le> length s \<and> take (length p) (to_ascii_lowercase s) = to_ascii_lowercase p \<longleftrightarrow>
    starts_with (to_ascii_lowercase s) (to_ascii_lowercase p)"
    by (auto simp: starts_with_def) (metis length_take length_to_ascii_lowercase min.cobounded1)
  then show ?thesis
    unfolding starts_with_ignore_ascii_case_def eq_ignore_ascii_case_iff starts_with_iff [symmetric]
    by (simp add: to_ascii_lowercase_def take_map)
qed

lemma ends_with_ignore_iff:
  "ends_with_ignore_ascii_case s p \<longleftrightarrow> suffix (to_ascii_lowercase p) (to_ascii_lowercase s)"
  unfolding ends_with_ignore_ascii_case_def eq_ignore_ascii_case_iff ends_with_iff [symmetric] ends_with_def
  by (simp add: to_ascii_lowercase_def drop_map)

text \<open>
  What an Envoy string matcher means: the literal patterns compare the folded texts, where folding lowers
  ASCII letters if case is ignored; a regex is matched as it is.
\<close>

definition pattern_means :: "'r regex_lib \<Rightarrow> StringMatcherView \<Rightarrow> string \<Rightarrow> bool" where
  "pattern_means X p input =
     (let f = (\<lambda>s. fold_case s (ignore_case p))
      in case match_pattern p of
           PatExact v \<Rightarrow> f input = f v
         | PatPrefix v \<Rightarrow> prefix (f v) (f input)
         | PatSuffix v \<Rightarrow> suffix (f v) (f input)
         | PatContains v \<Rightarrow> sublist (f v) (f input)
         | PatSafeRegex r \<Rightarrow> (case safe_regex_from_str X r of Inr x \<Rightarrow> regex_is_match X x input | Inl _ \<Rightarrow> False)
         | _ \<Rightarrow> False)"

fun pattern_text :: "MatchPatternOneof \<Rightarrow> string option" where
  "pattern_text (PatExact v) = Some v"
| "pattern_text (PatPrefix v) = Some v"
| "pattern_text (PatSuffix v) = Some v"
| "pattern_text (PatContains v) = Some v"
| "pattern_text (PatSafeRegex v) = Some v"
| "pattern_text _ = None"

lemma fold_case_idem [simp]: "fold_case (fold_case s b) b = fold_case s b"
  by (simp add: fold_case_def)

lemma sm_from_proto_means:
  "sm_from_proto X p = Some (Inr m) \<Longrightarrow> sm_is_match X m input \<longleftrightarrow> pattern_means X p input"
  by (cases "ignore_case p")
    (auto simp: sm_from_proto_def pattern_means_def sm_exact_def sm_prefix_def sm_suffix_def sm_contains_def
      sm_safe_regex_def non_empty_match_value_def to_str_expect_def fold_case_def eq_ignore_ascii_case_iff
      starts_with_ignore_iff ends_with_ignore_iff starts_with_iff ends_with_iff str_contains_iff
      split: MatchPatternOneof.splits if_splits sum.splits)

text \<open>
  Property C33. A string matcher parsed from its protobuf form matches exactly the texts its pattern means, with case
  folded on both sides or on neither. Parsing panics exactly if the pattern is not UTF-8, and reports an error
  exactly if there is no supported pattern, a prefix, suffix or contains pattern is empty, or a regex does not
  compile.
\<close>

theorem string_matcher_correct:
  "(\<forall>m. sm_from_proto X p = Some (Inr m) \<longrightarrow> (sm_is_match X m input \<longleftrightarrow> pattern_means X p input)) \<and>
   (sm_from_proto X p = None \<longleftrightarrow> (\<exists>v. pattern_text (match_pattern p) = Some v \<and> \<not> proto_str_valid v)) \<and>
   ((\<exists>e. sm_from_proto X p = Some (Inl e)) \<longleftrightarrow>
      (case match_pattern p of
         PatExact v \<Rightarrow> False
       | PatSafeRegex v \<Rightarrow> proto_str_valid v \<and> (\<exists>e. safe_regex_from_str X v = Inl e)
       | PatNotSet \<Rightarrow> True
       | PatUnsupported \<Rightarrow> True
       | _ \<Rightarrow> pattern_text (match_pattern p) = Some []))"
proof (intro conjI)
  show "\<forall>m. sm_from_proto X p = Some (Inr m) \<longrightarrow> (sm_is_match X m input \<longleftrightarrow> pattern_means X p input)"
    using sm_from_proto_means by blast
  show "sm_from_proto X p = None \<longleftrightarrow> (\<exists>v. pattern_text (match_pattern p) = Some v \<and> \<not> proto_str_valid v)"
    by (cases "match_pattern p") (auto simp: sm_from_proto_def to_str_expect_def)
  have nil: "proto_str_valid []" by (simp add: proto_str_valid_def)
  show "(\<exists>e. sm_from_proto X p = Some (Inl e)) \<longleftrightarrow>
      (case match_pattern p of
         PatExact v \<Rightarrow> False
       | PatSafeRegex v \<Rightarrow> proto_str_valid v \<and> (\<exists>e. safe_regex_from_str X v = Inl e)
       | PatNotSet \<Rightarrow> True
       | PatUnsupported \<Rightarrow> True
       | _ \<Rightarrow> pattern_text (match_pattern p) = Some [])"
    using nil
    by (cases "match_pattern p")
      (auto simp: sm_from_proto_def to_str_expect_def sm_prefix_def sm_suffix_def sm_contains_def
        non_empty_match_value_def map_sum_def split: sum.splits if_splits)
qed

text \<open>For the witnesses, the regexes of a library that knows only literal texts.\<close>

definition literal_regex :: "string regex_lib" where
  "literal_regex = \<lparr>regex_new = Inr, regex_is_match = (\<lambda>r s. r = ANCHOR_PREFIX @ s @ ANCHOR_SUFFIX)\<rparr>"

theorem string_matcher_correct_witness:
  "sm_is_match literal_regex (SmContains ''b.c'' True) ''aB.Cd'' \<and>
   pattern_means literal_regex \<lparr>match_pattern = PatContains ''B.c'', ignore_case = True\<rparr> ''aB.Cd''"
proof -
  have "sm_from_proto literal_regex \<lparr>match_pattern = PatContains ''B.c'', ignore_case = True\<rparr> =
      Some (Inr (SmContains ''b.c'' True))" by code_simp
  moreover have "sm_is_match literal_regex (SmContains ''b.c'' True) ''aB.Cd''" by code_simp
  ultimately show ?thesis using string_matcher_correct by blast
qed

section \<open>Header values\<close>

text \<open>The value of a header as gRFC A28 has it: the values of the key joined by commas.\<close>

definition header_value_spec :: "MetadataMap \<Rightarrow> string \<Rightarrow> string option" where
  "header_value_spec metadata name =
     (if ends_with name ''-bin'' then None
      else if name = ''content-type'' then Some ''application/grpc''
      else if \<not> md_contains_key metadata name \<or> \<not> is_valid_key name then None
      else Some (join_strings '','' (map md_to_str (values_of metadata name))))"

text \<open>\<open>HeaderName::from_bytes\<close> accepts every valid key of less than 64 KiB as it is.\<close>

definition header_name_laws :: "'h ext \<Rightarrow> bool" where
  "header_name_laws E \<longleftrightarrow> (\<forall>k. is_valid_key k \<longrightarrow> length k < 65536 \<longrightarrow> hn_parse E k = Inr k)"

lemma list_ext_header_name: "header_name_laws list_ext"
  by (simp add: header_name_laws_def list_ext_def)

lemma joined_foldl:
  "foldl (\<lambda>joined val. joined @ '','' @ val) first rest = first @ concat (map (\<lambda>val. '','' @ val) rest)"
  by (induction rest arbitrary: first) simp_all

lemma length_foldl: "foldl (\<lambda>len val. len + 1 + length val) n rest = n + length (concat (map (\<lambda>val. '','' @ val) rest))"
  by (induction rest arbitrary: n) simp_all

lemma join_strings_comma:
  "join_strings '','' (first # rest) = first @ concat (map (\<lambda>val. '','' @ val) rest)"
  by (induction rest arbitrary: first) simp_all

lemma values_of_Nil_iff: "values_of m k = [] \<longleftrightarrow> \<not> md_contains_key m k"
  by (auto simp: values_of_eq md_contains_key_def list_ex_iff filter_empty_conv)

lemma header_value_correct:
  assumes "header_name_laws E" "length name < 65536"
  shows "header_value E metadata name = Some (header_value_spec metadata name)"
proof (cases "ends_with name ''-bin'' \<or> name = ''content-type''")
  case False
  show ?thesis
  proof (cases "is_valid_key name")
    case True
    then have "md_get_all_str E Ascii metadata name = Some (values_of metadata name)"
      using assms False by (simp add: md_get_all_str_def header_name_laws_def)
    moreover have "length (foldl (\<lambda>joined val. joined @ '','' @ val) a (b # vs)) =
        foldl (\<lambda>len val. len + 1 + length val) (length a + 1 + length b) vs" for a b :: string and vs
      unfolding joined_foldl length_foldl by simp
    ultimately show ?thesis using False True
      by (cases "values_of metadata name" rule: remdups_adj.cases)
        (auto simp: header_value_def header_value_spec_def values_of_Nil_iff [symmetric] Let_def joined_foldl [simplified]
          join_strings_comma simp del: foldl_Cons)
  next
    case invalid: False
    then show ?thesis using False by (simp add: header_value_def header_value_spec_def md_get_all_str_def md_get_all_def)
  qed
qed (auto simp: header_value_def header_value_spec_def)

text \<open>What a header matcher says of a value, or of a missing header.\<close>

definition header_means :: "'r regex_lib \<Rightarrow> 'r HeaderMatcher \<Rightarrow> string option \<Rightarrow> bool" where
  "header_means X h val =
     (case match_specifier h of
        HeaderPresent \<Rightarrow> (val \<noteq> None) \<noteq> invert_match h
      | HeaderAbsent \<Rightarrow> (val = None) \<noteq> invert_match h
      | HeaderRange a b \<Rightarrow> (\<exists>v. val = Some v \<and> (\<exists>n. parse_i64 v = Some n \<and> a \<le> n \<and> n < b) \<noteq> invert_match h)
      | HeaderString m \<Rightarrow> (\<exists>v. val = Some v \<and> sm_is_match X m v \<noteq> invert_match h))"

lemma header_is_match_eq:
  assumes "header_name_laws E" "length (hm_name h) < 65536"
  shows "header_is_match E X h metadata = Some (header_means X h (header_value_spec metadata (hm_name h)))"
  using header_value_correct [OF assms, of metadata]
  by (auto simp: header_is_match_def header_means_def split: HeaderMatchSpecifier.split option.split)

lemma headers_match_eq:
  assumes "header_name_laws E" "\<forall>h \<in> set hs. length (hm_name h) < 65536"
  shows "headers_match E X hs metadata =
    Some (\<forall>h \<in> set hs. header_means X h (header_value_spec metadata (hm_name h)))"
  using assms(2)
proof (induction hs)
  case (Cons h hs)
  have "header_is_match E X h metadata = Some (header_means X h (header_value_spec metadata (hm_name h)))"
    using Cons.prems by (intro header_is_match_eq [OF assms(1)]) simp
  then show ?case using Cons by (auto split: bool.split)
qed simp

text \<open>
  Property C27. Route matching: with header names of less than 64 KiB it never panics (neither the lookup nor the length
  check of the joined value), and a route matches exactly if its path specifier, all its header matchers and
  its fraction do, a header being the comma-joined values of its key, \<open>application/grpc\<close> for \<open>content-type\<close> and
  absent for a binary key. Of the million numbers the random draw can give, exactly the fraction's numerator
  lets the route match.
\<close>

theorem route_match_correct:
  assumes "header_name_laws E" "\<forall>h \<in> set (route_headers rm). length (hm_name h) < 65536"
  shows "(\<forall>random. route_is_match E X random rm path metadata =
      Some (path_matches X rm path \<and>
            (\<forall>h \<in> set (route_headers rm). header_means X h (header_value_spec metadata (hm_name h))) \<and>
            (\<forall>f. match_fraction rm = Some f \<longrightarrow> random < f))) \<and>
    (route_is_match E X 0 rm path metadata = Some True \<longrightarrow>
     card {random. random < 1000000 \<and> route_is_match E X random rm path metadata = Some True} =
       (case match_fraction rm of None \<Rightarrow> 1000000 | Some f \<Rightarrow> min f 1000000))"
proof -
  have eq: "route_is_match E X random rm path metadata =
      Some (path_matches X rm path \<and>
            (\<forall>h \<in> set (route_headers rm). header_means X h (header_value_spec metadata (hm_name h))) \<and>
            (\<forall>f. match_fraction rm = Some f \<longrightarrow> random < f))" for random
    using headers_match_eq [OF assms, of X metadata]
    by (auto simp: route_is_match_def split: option.split bool.split)
  have "{random. random < 1000000 \<and> route_is_match E X random rm path metadata = Some True} =
      {..<case match_fraction rm of None \<Rightarrow> 1000000 | Some f \<Rightarrow> min f 1000000}"
    if "route_is_match E X 0 rm path metadata = Some True"
    using that unfolding eq by (auto split: option.splits)
  then show ?thesis using eq by simp
qed

theorem route_match_correct_witness:
  "route_is_match list_ext literal_regex 3 \<lparr>path_specifier = PathPrefix ''/pkg.'',
      route_headers = [\<lparr>hm_name = ''x-n'', match_specifier = HeaderRange (- 5) 10, invert_match = False\<rparr>,
                       \<lparr>hm_name = ''x-bin'', match_specifier = HeaderAbsent, invert_match = False\<rparr>],
      case_sensitive = False, match_fraction = Some 5\<rparr> ''/PKG.Service/M'' [(''x-n'', header_value_from_bytes [45, 53])] =
     Some True"
proof -
  let ?rm = "\<lparr>path_specifier = PathPrefix ''/pkg.'',
      route_headers = [\<lparr>hm_name = ''x-n'', match_specifier = HeaderRange (- 5) 10, invert_match = False\<rparr>,
                       \<lparr>hm_name = ''x-bin'', match_specifier = HeaderAbsent, invert_match = False\<rparr>],
      case_sensitive = False, match_fraction = Some 5\<rparr> :: string RouteMatch"
  let ?md = "[(''x-n'', header_value_from_bytes [45, 53])]"
  have len: "\<forall>h \<in> set (route_headers ?rm). length (hm_name h) < 65536" by simp
  have path: "path_matches literal_regex ?rm ''/PKG.Service/M''" by code_simp
  have vals: "header_value_spec ?md ''x-n'' = Some ''-5''" "header_value_spec ?md ''x-bin'' = None" by code_simp+
  have "parse_i64 ''-5'' = Some (- 5)" by code_simp
  then have "\<forall>h \<in> set (route_headers ?rm). header_means literal_regex h (header_value_spec ?md (hm_name h))"
    by (simp add: vals header_means_def)
  then show ?thesis
    using route_match_correct [OF list_ext_header_name len, of literal_regex "''/PKG.Service/M''" ?md] path by simp
qed

section \<open>Domain patterns and virtual hosts\<close>

lemma find_char_None: "find_char x s = None \<longleftrightarrow> x \<notin> set s"
  by (induction s) auto

lemma find_char_Some:
  "find_char x s = Some i \<longleftrightarrow> i < length s \<and> s ! i = x \<and> x \<notin> set (take i s)"
proof (induction s arbitrary: i)
  case (Cons c s)
  then show ?case by (cases i) (auto simp: nth_Cons')
qed simp

lemma find_char_split:
  assumes "find_char x s = Some i"
  shows "s = take i s @ [x] @ drop (Suc i) s" "x \<notin> set (take i s)"
  using assms id_take_nth_drop [of i s] unfolding find_char_Some by auto

text \<open>What a domain pattern means: without a star the authority itself, otherwise the star stands for some text that is not empty.\<close>

definition domain_means :: "string \<Rightarrow> string \<Rightarrow> bool" where
  "domain_means domain authority \<longleftrightarrow>
     (CHR ''*'' \<notin> set domain \<and> authority = domain) \<or>
     (\<exists>pre w post. domain = pre @ ''*'' @ post \<and> w \<noteq> [] \<and> authority = pre @ w @ post)"

text \<open>A pattern is valid if it has at most one star, at its beginning or its end.\<close>

definition domain_valid :: "string \<Rightarrow> bool" where
  "domain_valid domain \<longleftrightarrow> domain \<noteq> [] \<and>
     (CHR ''*'' \<notin> set domain \<or>
      (\<exists>s. CHR ''*'' \<notin> set s \<and> (domain = ''*'' @ s \<or> domain = s @ ''*'')))"

lemma means_star:
  assumes "CHR ''*'' \<notin> set pre" "CHR ''*'' \<notin> set post"
  shows "domain_means (pre @ ''*'' @ post) authority \<longleftrightarrow> (\<exists>w. w \<noteq> [] \<and> authority = pre @ w @ post)"
  using append_Cons_eq_iff [OF assms] unfolding domain_means_def by auto

lemma longer_suffix: "length s < length a \<and> ends_with a s \<longleftrightarrow> (\<exists>w. w \<noteq> [] \<and> a = w @ s)"
  by (auto simp: ends_with_iff suffix_def)

lemma longer_prefix: "length s < length a \<and> starts_with a s \<longleftrightarrow> (\<exists>w. w \<noteq> [] \<and> a = s @ w)"
  by (auto simp: starts_with_iff prefix_def)

lemma match_authority_simps:
  "(match_authority (DmExact d) a \<noteq> None) = (a = d)"
  "(match_authority (DmSuffix d) a \<noteq> None) = (\<exists>w. w \<noteq> [] \<and> a = w @ d)"
  "(match_authority (DmPrefix d) a \<noteq> None) = (\<exists>w. w \<noteq> [] \<and> a = d @ w)"
  "(match_authority DmUniversal a \<noteq> None) = (a \<noteq> [])"
  unfolding match_authority_def longer_suffix [symmetric] longer_prefix [symmetric] by auto

text \<open>A pattern in lower case, by the position of its first star.\<close>

lemma domain_split:
  assumes "d = pre @ ''*'' @ post" "CHR ''*'' \<notin> set pre" "to_ascii_lowercase domain = d"
  shows "domain_try_from domain =
    (if pre = [] \<and> post = [] then Inr DmUniversal
     else if pre = [] \<and> CHR ''*'' \<notin> set post then Inr (DmSuffix post)
     else if post = [] then Inr (DmPrefix pre)
     else Inl InvalidDomainPattern)"
proof -
  have "find_char (CHR ''*'') d = Some (length pre)" using assms(1,2) by (simp add: find_char_Some nth_append)
  moreover have "domain \<noteq> []" using assms(1,3) by (auto simp: to_ascii_lowercase_def)
  ultimately show ?thesis using assms(1,3) by (auto simp: domain_try_from_def Let_def)
qed

lemma domain_valid_split:
  assumes "CHR ''*'' \<notin> set pre"
  shows "domain_valid (pre @ ''*'' @ post) \<longleftrightarrow> CHR ''*'' \<notin> set post \<and> (pre = [] \<or> post = [])"
proof
  assume "domain_valid (pre @ ''*'' @ post)"
  then obtain s where s: "CHR ''*'' \<notin> set s" "pre @ ''*'' @ post = ''*'' @ s \<or> pre @ ''*'' @ post = s @ ''*''"
    by (auto simp: domain_valid_def)
  then show "CHR ''*'' \<notin> set post \<and> (pre = [] \<or> post = [])"
    using append_Cons_eq_iff [of "CHR ''*''" "[]" s pre post] append_Cons_eq_iff [of "CHR ''*''" s "[]" pre post]
    by auto
qed (use assms in \<open>auto simp: domain_valid_def\<close>)

text \<open>
  Domain patterns: a pattern is accepted exactly if it is not empty and has at most one star, at its
  beginning or its end; an accepted pattern matches exactly the authorities it means, ASCII case ignored, the
  star standing for at least one character.
\<close>

theorem domain_pattern_correct:
  "(\<forall>m. domain_try_from domain = Inr m \<longrightarrow>
      ((match_authority m (to_ascii_lowercase authority) \<noteq> None) =
       domain_means (to_ascii_lowercase domain) (to_ascii_lowercase authority))) \<and>
   ((\<exists>m. domain_try_from domain = Inr m) \<longleftrightarrow> domain_valid (to_ascii_lowercase domain))"
proof (cases "CHR ''*'' \<in> set (to_ascii_lowercase domain)")
  case False
  then have "find_char (CHR ''*'') (to_ascii_lowercase domain) = None" by (simp add: find_char_None)
  then have "domain \<noteq> [] \<Longrightarrow> domain_try_from domain = Inr (DmExact (to_ascii_lowercase domain))"
    by (simp add: domain_try_from_def Let_def)
  moreover have "domain = [] \<Longrightarrow> domain_try_from domain = Inl InvalidDomainPattern" by (simp add: domain_try_from_def)
  moreover have "to_ascii_lowercase domain = [] \<longleftrightarrow> domain = []" by (simp add: to_ascii_lowercase_def)
  ultimately show ?thesis using False match_authority_simps(1)
    by (cases "domain = []") (auto simp: domain_means_def domain_valid_def)
next
  case True
  then obtain pre post where d: "to_ascii_lowercase domain = pre @ ''*'' @ post" "CHR ''*'' \<notin> set pre"
    using split_list_first [OF True] by auto
  have means: "CHR ''*'' \<notin> set post \<Longrightarrow> domain_means (pre @ ''*'' @ post) a \<longleftrightarrow> (\<exists>w. w \<noteq> [] \<and> a = pre @ w @ post)" for a
    by (rule means_star [OF d(2)])
  note eqs = domain_split [OF refl d(2,1)] d(1) domain_valid_split [OF d(2)]
  consider "pre = []" "post = []" | "pre = []" "post \<noteq> []" "CHR ''*'' \<notin> set post" | "pre \<noteq> []" "post = []"
    | "pre \<noteq> [] \<and> post \<noteq> [] \<or> CHR ''*'' \<in> set post" by blast
  then show ?thesis
  proof cases
    case 1
    then show ?thesis unfolding eqs using means by (simp add: match_authority_simps del: not_None_eq)
  next
    case 2
    then show ?thesis unfolding eqs using means by (simp add: match_authority_simps del: not_None_eq)
  next
    case 3
    then show ?thesis unfolding eqs using means by (simp add: match_authority_simps del: not_None_eq)
  next
    case 4
    then show ?thesis unfolding eqs by auto
  qed
qed

theorem domain_pattern_correct_witness:
  "match_authority (DmSuffix ''.example.com'') ''api.example.com'' \<noteq> None \<and>
   domain_means ''*.example.com'' ''api.example.com''"
proof -
  have "domain_try_from ''*.Example.com'' = Inr (DmSuffix ''.example.com'')"
    "to_ascii_lowercase ''API.example.com'' = ''api.example.com''"
    "to_ascii_lowercase ''*.Example.com'' = ''*.example.com''"
    "\<not> Option.is_none (match_authority (DmSuffix ''.example.com'') ''api.example.com'')"
    by code_simp+
  then show ?thesis
    using domain_pattern_correct [of "''*.Example.com''" "''API.example.com''"] by (auto simp: Option.is_none_def)
qed

lemma fold_min:
  fixes x :: "'a::linorder"
  shows "fold (\<lambda>y m. if y < m then y else m) xs x \<in> insert x (set xs)"
    and "\<forall>y \<in> insert x (set xs). fold (\<lambda>y m. if y < m then y else m) xs x \<le> y"
proof (induction xs arbitrary: x)
  case (Cons z xs)
  { case 1 show ?case using Cons.IH(1) [of "if z < x then z else x"] by auto }
  { case 2 show ?case using Cons.IH(2) [of "if z < x then z else x"] by auto }
qed simp_all

lemma iter_min_None [simp]: "iter_min xs = None \<longleftrightarrow> xs = []"
  by (cases xs) auto

lemma iter_min_Some: "iter_min xs = Some m \<longleftrightarrow> m \<in> set xs \<and> (\<forall>x \<in> set xs. m \<le> x)"
proof
  assume "iter_min xs = Some m"
  then show "m \<in> set xs \<and> (\<forall>x \<in> set xs. m \<le> x)" using fold_min by (cases xs) auto
next
  assume m: "m \<in> set xs \<and> (\<forall>x \<in> set xs. m \<le> x)"
  then obtain n where n: "iter_min xs = Some n" by (cases xs) auto
  then have "n \<in> set xs \<and> (\<forall>x \<in> set xs. n \<le> x)" using fold_min by (cases xs) auto
  then show "iter_min xs = Some m" using m n by (simp add: order.antisym)
qed

lemma host_score_Some:
  "host_score a ds = Some s \<longleftrightarrow>
     (\<exists>d \<in> set ds. match_authority d a = Some s) \<and> (\<forall>d \<in> set ds. \<forall>t. match_authority d a = Some t \<longrightarrow> s \<le> t)"
  by (auto simp: host_score_def iter_min_Some set_map_filter)

lemma map_filter_Nil: "List.map_filter f xs = [] \<longleftrightarrow> (\<forall>x \<in> set xs. f x = None)"
  by (induction xs) (auto simp: List.map_filter_simps split: option.split)

lemma pairs_Nil: "xs = [] \<longleftrightarrow> (\<forall>s i. (s, i) \<notin> set xs)"
  by (cases xs) auto

lemma host_score_None: "host_score a ds = None \<longleftrightarrow> (\<forall>d \<in> set ds. match_authority d a = None)"
  by (simp add: host_score_def map_filter_Nil)

lemma candidates:
  "(s, i) \<in> set (List.map_filter (\<lambda>(index, host). map_option (\<lambda>score. (score, index)) (host_score a (domains host)))
      (List.enumerate 0 hosts)) \<longleftrightarrow>
   i < length hosts \<and> host_score a (domains (hosts ! i)) = Some s"
  by (auto simp: set_map_filter in_set_enumerate_eq intro!: bexI [of _ "(i, hosts ! i)"])

lemma find_virtual_host_index_bound:
  assumes "find_virtual_host_index authority hosts = Some i"
  shows "i < length hosts"
proof -
  obtain s where "iter_min (List.map_filter (\<lambda>(index, host). map_option (\<lambda>score. (score, index))
      (host_score (to_ascii_lowercase authority) (domains host))) (List.enumerate 0 hosts)) = Some (s, i)"
    using assms by (auto simp: find_virtual_host_index_def Let_def)
  then show ?thesis using candidates unfolding iter_min_Some by blast
qed

text \<open>
  Property C26. The virtual host for an authority: the chosen host has a domain that matches the authority with the
  best score of all domains of all hosts (exact before suffix before prefix before universal, longer domains
  first), and no earlier host has as good a domain; no host is chosen exactly if no domain matches.
\<close>

theorem virtual_host_selection:
  "(\<forall>i. find_virtual_host_index authority hosts = Some i \<longrightarrow>
     i < length hosts \<and>
     (\<exists>d \<in> set (domains (hosts ! i)). \<exists>s. match_authority d (to_ascii_lowercase authority) = Some s \<and>
        (\<forall>j < length hosts. \<forall>e \<in> set (domains (hosts ! j)). \<forall>t. match_authority e (to_ascii_lowercase authority) = Some t \<longrightarrow>
           s < t \<or> (s = t \<and> i \<le> j)))) \<and>
   (find_virtual_host_index authority hosts = None \<longleftrightarrow>
     (\<forall>host \<in> set hosts. \<forall>d \<in> set (domains host). match_authority d (to_ascii_lowercase authority) = None))"
proof -
  let ?a = "to_ascii_lowercase authority"
  let ?c = "List.map_filter (\<lambda>(index, host). map_option (\<lambda>score. (score, index)) (host_score ?a (domains host)))
      (List.enumerate 0 hosts)"
  have find: "find_virtual_host_index authority hosts = map_option snd (iter_min ?c)"
    by (simp add: find_virtual_host_index_def Let_def)
  have "i < length hosts \<and> (\<exists>d \<in> set (domains (hosts ! i)). \<exists>s. match_authority d (to_ascii_lowercase authority) = Some s \<and>
        (\<forall>j < length hosts. \<forall>e \<in> set (domains (hosts ! j)). \<forall>t. match_authority e (to_ascii_lowercase authority) = Some t \<longrightarrow>
           s < t \<or> (s = t \<and> i \<le> j)))"
    if sel: "find_virtual_host_index authority hosts = Some i" for i
  proof -
    obtain s where m: "iter_min ?c = Some (s, i)" using sel unfolding find by (auto simp: map_option_eq_Some)
    then have i: "i < length hosts" "host_score ?a (domains (hosts ! i)) = Some s" and
      min: "\<And>t j. (t, j) \<in> set ?c \<Longrightarrow> (s, i) \<le> (t, j)"
      using candidates [of s i ?a hosts] unfolding iter_min_Some by blast+
    have best: "s < t \<or> (s = t \<and> i \<le> j)" if j: "j < length hosts" "e \<in> set (domains (hosts ! j))" "match_authority e ?a = Some t"
      for j e t
    proof -
      obtain u where u: "host_score ?a (domains (hosts ! j)) = Some u" using j(2,3) host_score_None [of ?a "domains (hosts ! j)"] by fastforce
      then have "u \<le> t" using j(2,3) host_score_Some by blast
      have "(s, i) \<le> (u, j)" using min [of u j] j(1) u unfolding candidates by simp
      then have "s < u \<or> s \<le> u \<and> i \<le> j" by (simp only: less_eq_prod_simp)
      then show ?thesis using \<open>u \<le> t\<close> by (metis order.strict_trans2 order.trans order.order_iff_strict)
    qed
    moreover obtain d where "d \<in> set (domains (hosts ! i))" "match_authority d ?a = Some s"
      using i(2) unfolding host_score_Some by blast
    ultimately show ?thesis using i(1) by blast
  qed
  moreover have "find_virtual_host_index authority hosts = None \<longleftrightarrow>
     (\<forall>host \<in> set hosts. \<forall>d \<in> set (domains host). match_authority d (to_ascii_lowercase authority) = None)"
  proof -
    have "?c = [] \<longleftrightarrow> (\<forall>i < length hosts. host_score ?a (domains (hosts ! i)) = None)"
      unfolding pairs_Nil [of ?c] candidates by (metis not_None_eq)
    then show ?thesis by (simp add: find host_score_None all_set_conv_all_nth)
  qed
  ultimately show ?thesis by blast
qed

theorem virtual_host_selection_witness:
  "\<exists>d \<in> set [DmUniversal, DmExact ''api.example.com'']. \<exists>s. match_authority d ''api.example.com'' = Some s"
proof -
  let ?hosts = "[\<lparr>vh_name = ''a'', domains = [DmSuffix ''.example.com''], routes = []\<rparr>,
                 \<lparr>vh_name = ''b'', domains = [DmUniversal, DmExact ''api.example.com''], routes = []\<rparr>] :: string VirtualHost list"
  have "find_virtual_host_index ''API.example.com'' ?hosts = Some 1"
    "to_ascii_lowercase ''API.example.com'' = ''api.example.com''" by code_simp+
  then show ?thesis using virtual_host_selection [of "''API.example.com''" ?hosts] by force
qed

end
