(* ===== verification/Cluster_Graph.thy ===== *)
theory Cluster_Graph
  imports Prelude "HOL-Library.List_Lexorder" "HOL-Library.Char_ord"
begin

text \<open>
  The cluster graph walk of the xDS dependency manager
  (\<open>grpc-xds/src/dependency_manager/cluster_graph.rs\<close>), the watch states it reads (\<open>state.rs\<close>) and the
  configuration it produces (\<open>xds_config.rs\<close>). The walk is a depth-first search that marks the clusters on
  the current path, reuses the result of a finished cluster and limits the depth of aggregate clusters. The
  endpoints of an EDS cluster and the addresses of a DNS target are only passed on by the walk, so they are
  the type parameters \<open>'e\<close> and \<open>'d\<close>. Hash maps are maps, hash sets are sets, and \<open>Rc\<close> and \<open>Arc\<close> are the
  values they hold. What a walker only reads (\<open>cache\<close>, \<open>base_notes\<close>, \<open>node_id_note\<close>) is the record
  \<open>walk_env\<close>; what it changes is the record \<open>GraphWalker\<close>.
\<close>

section \<open>Watch states\<close>

datatype 'a WatchState =
    WatchPending
  | WatchReady 'a "string option"
  | WatchFailed string

fun on_changed :: "string + 'a \<Rightarrow> 'a WatchState \<Rightarrow> 'a WatchState" where
  "on_changed (Inr value) s = WatchReady value None"
| "on_changed (Inl reason) s = WatchFailed reason"

fun on_ambient_error :: "string \<Rightarrow> 'a WatchState \<Rightarrow> 'a WatchState" where
  "on_ambient_error reason (WatchReady value _) = WatchReady value (Some reason)"
| "on_ambient_error reason s = s"

datatype 'a WatchEvent = ResourceChanged "string + 'a" | AmbientError string

fun watch_event :: "'a WatchEvent \<Rightarrow> 'a WatchState \<Rightarrow> 'a WatchState" where
  "watch_event (ResourceChanged r) s = on_changed r s"
| "watch_event (AmbientError reason) s = on_ambient_error reason s"

section \<open>Resources and results\<close>

datatype ClusterDiscovery =
    Eds string
  | LogicalDns string "16 word"
  | Aggregate "string list"

record ClusterResource =
  cluster_name :: string
  discovery :: ClusterDiscovery

record DnsTarget =
  dns_host :: string
  dns_port :: "16 word"

record ('e, 'd) CachedResources =
  cds :: "string \<Rightarrow> ClusterResource WatchState option"
  eds :: "string \<Rightarrow> 'e WatchState option"
  dns :: "DnsTarget \<Rightarrow> 'd WatchState option"

datatype ('e, 'd) LeafEndpointSource = EdsSource 'e | LogicalDnsSource 'd

record ('e, 'd) LeafEndpoints =
  leaf_source :: "('e, 'd) LeafEndpointSource option"
  leaf_resolution_note :: "string option"

record AggregateClusters =
  leaf_clusters :: "string list"
  aggregate_resolution_note :: "string option"

datatype ('e, 'd) ClusterChildren =
    LeafChildren "('e, 'd) LeafEndpoints"
  | AggregateChildren AggregateClusters

record ('e, 'd) ClusterConfig =
  config_cluster :: ClusterResource
  children :: "('e, 'd) ClusterChildren"

type_synonym ClusterResolutionError = string
type_synonym ('e, 'd) ClusterResult = "ClusterResolutionError + ('e, 'd) ClusterConfig"

record RequiredWatches =
  watch_clusters :: "string set"
  watch_eds_services :: "string set"
  watch_dns_targets :: "DnsTarget set"

record ('e, 'd) ClusterGraph =
  cluster_configs :: "string \<Rightarrow> ('e, 'd) ClusterResult option"
  required_watches :: RequiredWatches

definition empty_graph :: "('e, 'd) ClusterGraph" where
  "empty_graph = \<lparr>cluster_configs = Map.empty,
     required_watches = \<lparr>watch_clusters = {}, watch_eds_services = {}, watch_dns_targets = {}\<rparr>\<rparr>"

section \<open>The walk\<close>

definition MAX_AGGREGATE_DEPTH :: nat where
  "MAX_AGGREGATE_DEPTH = 16"

datatype LeafClusters = LeavesPending | LeavesResolved "string list" "string list"

datatype DepthExceeded = DepthExceeded

definition depth_exceeded_error :: ClusterResolutionError where
  "depth_exceeded_error = ''aggregate cluster graph exceeds max depth''"

record Visited =
  leaves :: LeafClusters
  height :: nat

definition PENDING :: Visited where
  "PENDING = \<lparr>leaves = LeavesPending, height = 0\<rparr>"

definition visited_leaf :: "string \<Rightarrow> Visited" where
  "visited_leaf name = \<lparr>leaves = LeavesResolved [name] [], height = 0\<rparr>"

definition no_leaves :: "string \<Rightarrow> Visited" where
  "no_leaves reason = \<lparr>leaves = LeavesResolved [] [reason], height = 0\<rparr>"

datatype Mark = OnPath | Done Visited

record ('e, 'd) walk_env =
  cache :: "('e, 'd) CachedResources"
  base_notes :: "string list"
  node_id_note :: "string option"

record ('e, 'd) GraphWalker =
  marks :: "string \<Rightarrow> Mark option"
  graph :: "('e, 'd) ClusterGraph"

definition set_mark :: "string \<Rightarrow> Mark option \<Rightarrow> ('e, 'd) GraphWalker \<Rightarrow> ('e, 'd) GraphWalker" where
  "set_mark name m w = w\<lparr>marks := (marks w)(name := m)\<rparr>"

definition set_config ::
  "string \<Rightarrow> ('e, 'd) ClusterResult option \<Rightarrow> ('e, 'd) GraphWalker \<Rightarrow> ('e, 'd) GraphWalker" where
  "set_config name r w =
     w\<lparr>graph := (graph w)\<lparr>cluster_configs := (cluster_configs (graph w))(name := r)\<rparr>\<rparr>"

definition need_watch ::
  "(RequiredWatches \<Rightarrow> RequiredWatches) \<Rightarrow> ('e, 'd) GraphWalker \<Rightarrow> ('e, 'd) GraphWalker" where
  "need_watch f w = w\<lparr>graph := (graph w)\<lparr>required_watches := f (required_watches (graph w))\<rparr>\<rparr>"

definition join_notes :: "string list \<Rightarrow> string option" where
  "join_notes notes =
     (let notes = filter (\<lambda>note. note \<noteq> []) notes
      in if notes \<noteq> [] then Some (join_strings ''; '' notes) else None)"

definition leaf_note ::
  "('e, 'd) walk_env \<Rightarrow> string option \<Rightarrow> string option \<Rightarrow> string option" where
  "leaf_note env cds_note endpoints_note =
     (case join_notes (base_notes env @ case_option [] (\<lambda>n. [n]) cds_note
                         @ case_option [] (\<lambda>n. [n]) endpoints_note) of
        Some note \<Rightarrow> Some note
      | None \<Rightarrow> node_id_note env)"

text \<open>The part of \<open>leaf\<close> after its early return: the endpoints that were resolved and the note about them.\<close>

definition record_leaf ::
  "('e, 'd) walk_env \<Rightarrow> string \<Rightarrow> ClusterResource \<Rightarrow> string option \<Rightarrow> 'v option \<Rightarrow> string option \<Rightarrow>
   ('v \<Rightarrow> ('e, 'd) LeafEndpointSource) \<Rightarrow> ('e, 'd) GraphWalker \<Rightarrow> Visited \<times> ('e, 'd) GraphWalker" where
  "record_leaf env name cluster cds_note endpoints endpoints_note to_source w =
     (let config = \<lparr>config_cluster = cluster,
                    children = LeafChildren \<lparr>leaf_source = map_option to_source endpoints,
                                             leaf_resolution_note = leaf_note env cds_note endpoints_note\<rparr>\<rparr>
      in (visited_leaf name, set_config name (Some (Inr config)) w))"

definition leaf ::
  "('e, 'd) walk_env \<Rightarrow> string \<Rightarrow> ClusterResource \<Rightarrow> string option \<Rightarrow> 'v WatchState option \<Rightarrow>
   ('v \<Rightarrow> ('e, 'd) LeafEndpointSource) \<Rightarrow> ('e, 'd) GraphWalker \<Rightarrow> Visited \<times> ('e, 'd) GraphWalker" where
  "leaf env name cluster cds_note endpoints to_source w =
     (case endpoints of
        None \<Rightarrow> (PENDING, w)
      | Some WatchPending \<Rightarrow> (PENDING, w)
      | Some (WatchReady value note') \<Rightarrow>
          record_leaf env name cluster cds_note (Some value) note' to_source w
      | Some (WatchFailed reason) \<Rightarrow>
          record_leaf env name cluster cds_note None (Some reason) to_source w)"

text \<open>
  The local variables of \<open>aggregate\<close>, its loop body on one child's result (\<open>extend_unseen\<close> is the filter
  that inserts into a hash set as it goes) and the code after the loop.
\<close>

record aggregate_locals =
  agg_leaves :: "string list"
  seen_leaves :: "string set"
  agg_notes :: "string list"
  seen_notes :: "string set"
  agg_pending :: bool
  agg_height :: nat

fun extend_unseen :: "'a list \<Rightarrow> 'a list \<Rightarrow> 'a set \<Rightarrow> 'a list \<times> 'a set" where
  "extend_unseen acc [] seen = (acc, seen)"
| "extend_unseen acc (x # xs) seen =
     (if x \<in> seen then extend_unseen acc xs seen else extend_unseen (acc @ [x]) xs (insert x seen))"

definition aggregate_init :: "string option \<Rightarrow> aggregate_locals" where
  "aggregate_init cds_note =
     (let notes = case_option [] (\<lambda>n. [n]) cds_note
      in \<lparr>agg_leaves = [], seen_leaves = {}, agg_notes = notes, seen_notes = set notes,
          agg_pending = False, agg_height = 0\<rparr>)"

definition aggregate_child :: "Visited \<Rightarrow> aggregate_locals \<Rightarrow> aggregate_locals" where
  "aggregate_child visited l =
     (let l = l\<lparr>agg_height := max (agg_height l) (height visited + 1)\<rparr>
      in case leaves visited of
           LeavesPending \<Rightarrow> l\<lparr>agg_pending := True\<rparr>
         | LeavesResolved names child_notes \<Rightarrow>
             (let (leaves', seen') = extend_unseen (agg_leaves l) names (seen_leaves l);
                  (notes', seen_n') = extend_unseen (agg_notes l) child_notes (seen_notes l)
              in l\<lparr>agg_leaves := leaves', seen_leaves := seen', agg_notes := notes', seen_notes := seen_n'\<rparr>))"

definition aggregate_result ::
  "string \<Rightarrow> ClusterResource \<Rightarrow> aggregate_locals \<Rightarrow> ('e, 'd) ClusterResult" where
  "aggregate_result name cluster l =
     (let note' = join_notes (agg_notes l)
      in if agg_leaves l = [] then
           Inl (''aggregate cluster dependency graph for '' @ name @ '' has no leaf clusters'' @
                case_option [] (\<lambda>n. '': '' @ n) note')
         else Inr \<lparr>config_cluster = cluster,
                   children = AggregateChildren \<lparr>leaf_clusters = agg_leaves l, aggregate_resolution_note = note'\<rparr>\<rparr>)"

definition aggregate_finish ::
  "string \<Rightarrow> ClusterResource \<Rightarrow> aggregate_locals \<Rightarrow> ('e, 'd) GraphWalker \<Rightarrow> Visited \<times> ('e, 'd) GraphWalker" where
  "aggregate_finish name cluster l w =
     (if agg_pending l then (\<lparr>leaves = LeavesPending, height = agg_height l\<rparr>, w)
      else (\<lparr>leaves = LeavesResolved (agg_leaves l) (agg_notes l), height = agg_height l\<rparr>,
            set_config name (Some (aggregate_result name cluster l)) w))"

function (sequential)
  visit :: "('e, 'd) walk_env \<Rightarrow> string \<Rightarrow> nat \<Rightarrow> ('e, 'd) GraphWalker \<Rightarrow>
            (DepthExceeded + Visited) \<times> ('e, 'd) GraphWalker" and
  visit_uncached :: "('e, 'd) walk_env \<Rightarrow> string \<Rightarrow> nat \<Rightarrow> ('e, 'd) GraphWalker \<Rightarrow>
            (DepthExceeded + Visited) \<times> ('e, 'd) GraphWalker" and
  aggregate :: "('e, 'd) walk_env \<Rightarrow> string \<Rightarrow> ClusterResource \<Rightarrow> string list \<Rightarrow> nat \<Rightarrow> aggregate_locals \<Rightarrow>
            ('e, 'd) GraphWalker \<Rightarrow> (DepthExceeded + Visited) \<times> ('e, 'd) GraphWalker" where
  "visit env name depth w =
     (if depth \<ge> MAX_AGGREGATE_DEPTH then (Inl DepthExceeded, w)
      else case marks w name of
        Some OnPath \<Rightarrow>
          (Inr (no_leaves (''aggregate cluster '' @ name @ '' is part of a cycle'')), w)
      | Some (Done visited) \<Rightarrow>
          (if depth + height visited \<ge> MAX_AGGREGATE_DEPTH then (Inl DepthExceeded, w) else (Inr visited, w))
      | None \<Rightarrow>
          (case visit_uncached env name depth (set_mark name (Some OnPath) (set_config name None w)) of
             (Inr visited, w) \<Rightarrow> (Inr visited, set_mark name (Some (Done visited)) w)
           | (Inl DepthExceeded, w) \<Rightarrow> (Inl DepthExceeded, set_mark name None w)))"
| "visit_uncached env name depth w =
     (let w = need_watch (\<lambda>r. r\<lparr>watch_clusters := insert name (watch_clusters r)\<rparr>) w
      in case cds (cache env) name of
           None \<Rightarrow> (Inr PENDING, w)
         | Some WatchPending \<Rightarrow> (Inr PENDING, w)
         | Some (WatchFailed reason) \<Rightarrow> (Inr (no_leaves reason), set_config name (Some (Inl reason)) w)
         | Some (WatchReady cluster cds_note) \<Rightarrow>
             (case discovery cluster of
                Eds eds_service_name \<Rightarrow>
                  apfst Inr (leaf env name cluster cds_note (eds (cache env) eds_service_name) EdsSource
                    (need_watch (\<lambda>r. r\<lparr>watch_eds_services := insert eds_service_name (watch_eds_services r)\<rparr>) w))
              | LogicalDns hostname port \<Rightarrow>
                  (let target = \<lparr>dns_host = hostname, dns_port = port\<rparr>
                   in apfst Inr (leaf env name cluster cds_note (dns (cache env) target) LogicalDnsSource
                        (need_watch (\<lambda>r. r\<lparr>watch_dns_targets := insert target (watch_dns_targets r)\<rparr>) w)))
              | Aggregate cs \<Rightarrow> aggregate env name cluster cs depth (aggregate_init cds_note) w))"
| "aggregate env name cluster [] depth l w = apfst Inr (aggregate_finish name cluster l w)"
| "aggregate env name cluster (child # cs) depth l w =
     (case visit env child (depth + 1) w of
        (Inl DepthExceeded, w) \<Rightarrow>
          (Inl DepthExceeded, set_config name (Some (Inl depth_exceeded_error)) w)
      | (Inr visited, w) \<Rightarrow> aggregate env name cluster cs depth (aggregate_child visited l) w)"
  by pat_completeness auto

text \<open>
  The recursion ends although the graph may have cycles: a level of aggregates is one step of depth, and
  within a level the list of children gets shorter.
\<close>

termination
  by (relation "measures [\<lambda>x. case x of
        Inl (env, name, depth, w) \<Rightarrow> 3 * (MAX_AGGREGATE_DEPTH - depth)
      | Inr (Inl (env, name, depth, w)) \<Rightarrow> 3 * (MAX_AGGREGATE_DEPTH - depth) - 1
      | Inr (Inr (env, name, cluster, cs, depth, l, w)) \<Rightarrow> 3 * (MAX_AGGREGATE_DEPTH - depth) - 2,
     \<lambda>x. case x of
        Inl (env, name, depth, w) \<Rightarrow> 0
      | Inr (Inl (env, name, depth, w)) \<Rightarrow> (case cds (cache env) name of
            Some (WatchReady cluster _) \<Rightarrow> (case discovery cluster of Aggregate cs \<Rightarrow> Suc (length cs) | _ \<Rightarrow> 0)
          | _ \<Rightarrow> 0)
      | Inr (Inr (env, name, cluster, cs, depth, l, w)) \<Rightarrow> length cs]") auto

definition walker_env :: "('e, 'd) CachedResources \<Rightarrow> string list \<Rightarrow> string option \<Rightarrow> ('e, 'd) walk_env" where
  "walker_env c notes node_id =
     \<lparr>cache = c, base_notes = notes, node_id_note = map_option (\<lambda>i. ''xDS node ID:'' @ i) node_id\<rparr>"

definition walk ::
  "('e, 'd) CachedResources \<Rightarrow> string list \<Rightarrow> string list \<Rightarrow> string option \<Rightarrow> ('e, 'd) ClusterGraph" where
  "walk c roots notes node_id =
     graph (fold (\<lambda>root w. snd (visit (walker_env c notes node_id) root 0 w)) (sorted_list_of_set (set roots))
              \<lparr>marks = Map.empty, graph = empty_graph\<rparr>)"

declare visit.simps [simp del] visit_uncached.simps [simp del] aggregate.simps [simp del]

section \<open>What a visit keeps\<close>

abbreviation configs :: "('e, 'd) GraphWalker \<Rightarrow> string \<Rightarrow> ('e, 'd) ClusterResult option" where
  "configs w \<equiv> cluster_configs (graph w)"

abbreviation watches :: "('e, 'd) GraphWalker \<Rightarrow> RequiredWatches" where
  "watches w \<equiv> required_watches (graph w)"

lemma walker_fields [simp]:
  "marks (set_mark n m w) = (marks w)(n := m)" "graph (set_mark n m w) = graph w"
  "marks (set_config n r w) = marks w" "configs (set_config n r w) = (configs w)(n := r)"
  "watches (set_config n r w) = watches w" "marks (need_watch f w) = marks w"
  "configs (need_watch f w) = configs w" "watches (need_watch f w) = f (watches w)"
  by (simp_all add: set_mark_def set_config_def need_watch_def)

text \<open>
  A visit keeps the mark and the configuration of every cluster that is marked, and leaves no new cluster
  on the path; the handling of a cluster on the path also changes that cluster's own configuration.
\<close>

definition keeps_but :: "string set \<Rightarrow> ('e, 'd) GraphWalker \<Rightarrow> ('e, 'd) GraphWalker \<Rightarrow> bool" where
  "keeps_but X w w' \<longleftrightarrow>
     (\<forall>n m. marks w n = Some m \<longrightarrow> marks w' n = Some m \<and> (n \<notin> X \<longrightarrow> configs w' n = configs w n)) \<and>
     (\<forall>n. marks w' n = Some OnPath \<longrightarrow> marks w n = Some OnPath)"

lemma keeps_but_mark: "keeps_but X w w' \<Longrightarrow> marks w n = Some m \<Longrightarrow> marks w' n = Some m"
  unfolding keeps_but_def by blast

lemma keeps_but_config:
  "keeps_but X w w' \<Longrightarrow> marks w n = Some m \<Longrightarrow> n \<notin> X \<Longrightarrow> configs w' n = configs w n"
  unfolding keeps_but_def by blast

lemma keeps_but_path: "keeps_but X w w' \<Longrightarrow> marks w' n = Some OnPath \<Longrightarrow> marks w n = Some OnPath"
  unfolding keeps_but_def by blast

lemma keeps_but_refl [simp]: "keeps_but X w w"
  by (simp add: keeps_but_def)

lemma keeps_but_trans: "keeps_but X w w' \<Longrightarrow> keeps_but X w' w'' \<Longrightarrow> keeps_but X w w''"
  unfolding keeps_but_def by metis

lemma keeps_but_mono: "keeps_but X w w' \<Longrightarrow> X \<subseteq> Y \<Longrightarrow> keeps_but Y w w'"
  unfolding keeps_but_def by blast

lemma keeps_but_set_config [simp]: "n \<in> X \<Longrightarrow> keeps_but X w (set_config n r w') \<longleftrightarrow> keeps_but X w w'"
  unfolding keeps_but_def by auto

lemma keeps_but_need_watch [simp]: "keeps_but X w (need_watch f w') \<longleftrightarrow> keeps_but X w w'"
  unfolding keeps_but_def by auto

lemma keeps_but_need_watch_left [simp]: "keeps_but X (need_watch f w) w' \<longleftrightarrow> keeps_but X w w'"
  unfolding keeps_but_def by auto

lemma keeps_leaf [simp]:
  "keeps_but {name} w (snd (leaf env name cluster note' eps src w')) \<longleftrightarrow> keeps_but {name} w w'"
  by (auto simp: leaf_def record_leaf_def Let_def split: option.splits WatchState.splits)

lemma keeps_finish [simp]:
  "keeps_but {name} w (snd (aggregate_finish name cluster l w')) \<longleftrightarrow> keeps_but {name} w w'"
  by (auto simp: aggregate_finish_def)

lemma keeps_visit_step:
  assumes unmarked: "marks w name = None"
    and keeps: "keeps_but {name} (set_mark name (Some OnPath) (set_config name None w)) w'"
    and m: "m \<noteq> Some OnPath"
  shows "keeps_but {} w (set_mark name m w')"
  unfolding keeps_but_def
proof (intro conjI allI impI)
  fix n k
  assume n: "marks w n = Some k"
  then have ne: "n \<noteq> name" using unmarked by auto
  then show "marks (set_mark name m w') n = Some k" using keeps_but_mark [OF keeps, of n k] n by simp
  show "configs (set_mark name m w') n = configs w n" using keeps_but_config [OF keeps, of n k] n ne by simp
next
  fix n
  assume n: "marks (set_mark name m w') n = Some OnPath"
  then have "n \<noteq> name" using m by auto
  then show "marks w n = Some OnPath" using keeps_but_path [OF keeps, of n] n by simp
qed

lemma visit_keeps:
  shows "keeps_but {} w (snd (visit env name depth w))"
    and "marks w name = Some OnPath \<Longrightarrow> keeps_but {name} w (snd (visit_uncached env name depth w))"
    and "marks w name = Some OnPath \<Longrightarrow> keeps_but {name} w (snd (aggregate env name cluster cs depth l w))"
proof (induction env name depth w and env name depth w and env name cluster cs depth l w
       rule: visit_visit_uncached_aggregate.induct)
  case (1 env name depth w)
  show ?case
  proof (cases "depth \<ge> MAX_AGGREGATE_DEPTH \<or> marks w name \<noteq> None")
    case True
    then show ?thesis by (auto simp: visit.simps [of env name] split: option.splits Mark.splits)
  next
    case False
    have "keeps_but {name} (set_mark name (Some OnPath) (set_config name None w))
            (snd (visit_uncached env name depth (set_mark name (Some OnPath) (set_config name None w))))"
      using False by (intro 1) auto
    then show ?thesis using False
      by (auto simp: visit.simps [of env name] keeps_visit_step split: prod.splits sum.splits DepthExceeded.splits)
  qed
next
  case (2 env name depth w)
  then show ?case
    by (auto simp: visit_uncached.simps [of env name] Let_def
             split: option.splits WatchState.splits ClusterDiscovery.splits)
next
  case (3 env name cluster depth l w)
  then show ?case by (simp add: aggregate.simps)
next
  case (4 env name cluster child cs depth l w)
  obtain r w' where v: "visit env child (depth + 1) w = (r, w')" by force
  then have k0: "keeps_but {} w w'" using 4(1) by simp
  then have k: "keeps_but {name} w w'" by (rule keeps_but_mono) simp
  show ?case
  proof (cases r)
    case (Inl d)
    then show ?thesis using k v by (cases d) (simp add: aggregate.simps)
  next
    case (Inr visited)
    have "keeps_but {name} w' (snd (aggregate env name cluster cs depth (aggregate_child visited l) w'))"
      using 4(2) [OF v [symmetric] Inr keeps_but_mark [OF k0 4(3)]] .
    then show ?thesis using keeps_but_trans [OF k] v Inr by (simp add: aggregate.simps)
  qed
qed

section \<open>Reachable clusters and the watches they need\<close>

definition children_of :: "('e, 'd) walk_env \<Rightarrow> string \<Rightarrow> string list" where
  "children_of env n =
     (case cds (cache env) n of
        Some (WatchReady cluster _) \<Rightarrow> (case discovery cluster of Aggregate cs \<Rightarrow> cs | _ \<Rightarrow> [])
      | _ \<Rightarrow> [])"

inductive below :: "('e, 'd) walk_env \<Rightarrow> string \<Rightarrow> string \<Rightarrow> bool" for env where
  below_refl: "below env n n"
| below_step: "below env n m \<Longrightarrow> c \<in> set (children_of env m) \<Longrightarrow> below env n c"

lemma below_trans: "below env m k \<Longrightarrow> below env n m \<Longrightarrow> below env n k"
  by (induction rule: below.induct) (auto intro: below_step)

lemma below_child: "c \<in> set (children_of env n) \<Longrightarrow> below env c m \<Longrightarrow> below env n m"
  by (rule below_trans, assumption, rule below_step [OF below_refl])

text \<open>
  The EDS and DNS watches of a cluster, and whether something the cluster itself needs has not arrived.
\<close>

definition eds_of :: "('e, 'd) walk_env \<Rightarrow> string \<Rightarrow> string set" where
  "eds_of env n =
     (case cds (cache env) n of
        Some (WatchReady cluster _) \<Rightarrow> (case discovery cluster of Eds svc \<Rightarrow> {svc} | _ \<Rightarrow> {})
      | _ \<Rightarrow> {})"

definition dns_of :: "('e, 'd) walk_env \<Rightarrow> string \<Rightarrow> DnsTarget set" where
  "dns_of env n =
     (case cds (cache env) n of
        Some (WatchReady cluster _) \<Rightarrow>
          (case discovery cluster of LogicalDns h p \<Rightarrow> {\<lparr>dns_host = h, dns_port = p\<rparr>} | _ \<Rightarrow> {})
      | _ \<Rightarrow> {})"

definition arrived :: "'v WatchState option \<Rightarrow> bool" where
  "arrived s \<longleftrightarrow> s \<noteq> None \<and> s \<noteq> Some WatchPending"

definition unresolved :: "('e, 'd) walk_env \<Rightarrow> string \<Rightarrow> bool" where
  "unresolved env n \<longleftrightarrow>
     \<not> arrived (cds (cache env) n) \<or> (\<exists>svc \<in> eds_of env n. \<not> arrived (eds (cache env) svc)) \<or>
     (\<exists>t \<in> dns_of env n. \<not> arrived (dns (cache env) t))"

lemma of_ready:
  assumes "cds (cache env) n = Some (WatchReady cluster note')"
  shows "discovery cluster = Eds svc \<Longrightarrow> children_of env n = [] \<and> eds_of env n = {svc} \<and> dns_of env n = {}"
    and "discovery cluster = LogicalDns h p \<Longrightarrow>
           children_of env n = [] \<and> eds_of env n = {} \<and> dns_of env n = {\<lparr>dns_host = h, dns_port = p\<rparr>}"
    and "discovery cluster = Aggregate cs \<Longrightarrow> children_of env n = cs \<and> eds_of env n = {} \<and> dns_of env n = {}"
  using assms by (simp_all add: children_of_def eds_of_def dns_of_def)

lemma of_not_ready:
  assumes "\<And>cluster note'. cds (cache env) n \<noteq> Some (WatchReady cluster note')"
  shows "children_of env n = [] \<and> eds_of env n = {} \<and> dns_of env n = {}"
  using assms by (auto simp: children_of_def eds_of_def dns_of_def split: option.splits WatchState.splits)

definition watched :: "('e, 'd) walk_env \<Rightarrow> RequiredWatches \<Rightarrow> string \<Rightarrow> bool" where
  "watched env r n \<longleftrightarrow>
     n \<in> watch_clusters r \<and> eds_of env n \<subseteq> watch_eds_services r \<and> dns_of env n \<subseteq> watch_dns_targets r"

definition watches_le :: "RequiredWatches \<Rightarrow> RequiredWatches \<Rightarrow> bool" where
  "watches_le r r' \<longleftrightarrow> watch_clusters r \<subseteq> watch_clusters r' \<and>
     watch_eds_services r \<subseteq> watch_eds_services r' \<and> watch_dns_targets r \<subseteq> watch_dns_targets r'"

definition watches_within :: "('e, 'd) walk_env \<Rightarrow> string set \<Rightarrow> RequiredWatches \<Rightarrow> bool" where
  "watches_within env R r \<longleftrightarrow> watch_clusters r \<subseteq> R \<and>
     watch_eds_services r \<subseteq> \<Union> (eds_of env ` R) \<and> watch_dns_targets r \<subseteq> \<Union> (dns_of env ` R)"

lemma watches_le_refl [simp]: "watches_le r r"
  by (simp add: watches_le_def)

lemma watches_le_trans: "watches_le r r' \<Longrightarrow> watches_le r' r'' \<Longrightarrow> watches_le r r''"
  unfolding watches_le_def by blast

lemma watched_mono: "watched env r n \<Longrightarrow> watches_le r r' \<Longrightarrow> watched env r' n"
  unfolding watched_def watches_le_def by blast

section \<open>The search invariant\<close>

text \<open>
  \<open>walk_inv env R w\<close>: the watches of every finished cluster are recorded, and no watch that the clusters
  \<open>R\<close> do not need; only watched clusters have a configuration; a finished cluster has none exactly if it
  is pending, and then something at or below it has not arrived; a watched cluster that is neither
  finished nor on the path was too deep.
\<close>

definition done_ok :: "('e, 'd) walk_env \<Rightarrow> ('e, 'd) GraphWalker \<Rightarrow> string \<Rightarrow> Visited \<Rightarrow> bool" where
  "done_ok env w n v \<longleftrightarrow>
     watched env (watches w) n \<and> (configs w n = None \<longleftrightarrow> leaves v = LeavesPending) \<and>
     (leaves v = LeavesPending \<longrightarrow> (\<exists>m. below env n m \<and> unresolved env m))"

definition walk_inv :: "('e, 'd) walk_env \<Rightarrow> string set \<Rightarrow> ('e, 'd) GraphWalker \<Rightarrow> bool" where
  "walk_inv env R w \<longleftrightarrow>
     (\<forall>n v. marks w n = Some (Done v) \<longrightarrow> done_ok env w n v) \<and>
     watches_within env R (watches w) \<and>
     dom (configs w) \<subseteq> watch_clusters (watches w) \<and>
     (\<forall>n \<in> watch_clusters (watches w). marks w n = None \<longrightarrow> configs w n = Some (Inl depth_exceeded_error))"

lemma walk_invI:
  assumes "\<And>n v. marks w n = Some (Done v) \<Longrightarrow> done_ok env w n v"
    and "watches_within env R (watches w)"
    and "dom (configs w) \<subseteq> watch_clusters (watches w)"
    and "\<And>n. n \<in> watch_clusters (watches w) \<Longrightarrow> marks w n = None \<Longrightarrow> configs w n = Some (Inl depth_exceeded_error)"
  shows "walk_inv env R w"
  using assms unfolding walk_inv_def by blast

lemma walk_invD:
  assumes "walk_inv env R w"
  shows "marks w n = Some (Done v) \<Longrightarrow> done_ok env w n v"
    and "watches_within env R (watches w)"
    and "dom (configs w) \<subseteq> watch_clusters (watches w)"
    and "n \<in> watch_clusters (watches w) \<Longrightarrow> marks w n = None \<Longrightarrow> configs w n = Some (Inl depth_exceeded_error)"
  using assms unfolding walk_inv_def by blast+

lemma done_ok_frame:
  "done_ok env w n v \<Longrightarrow> configs w' n = configs w n \<Longrightarrow> watches_le (watches w) (watches w') \<Longrightarrow> done_ok env w' n v"
  unfolding done_ok_def by (auto intro: watched_mono)

text \<open>Recording the configuration of a watched cluster on the path keeps the invariant.\<close>

lemma walk_inv_set_config:
  assumes "walk_inv env R w" "marks w name = Some OnPath" "name \<in> watch_clusters (watches w)"
  shows "walk_inv env R (set_config name r w)"
proof (rule walk_invI)
  fix n v
  assume "marks (set_config name r w) n = Some (Done v)"
  then have n: "marks w n = Some (Done v)" "n \<noteq> name" using assms(2) by auto
  show "done_ok env (set_config name r w) n v"
    by (rule done_ok_frame [OF walk_invD(1) [OF assms(1) n(1)]]) (simp_all add: n(2))
next
  show "dom (configs (set_config name r w)) \<subseteq> watch_clusters (watches (set_config name r w))"
    using walk_invD(3) [OF assms(1)] assms(3) by (cases r) auto
next
  fix n
  assume "n \<in> watch_clusters (watches (set_config name r w))" "marks (set_config name r w) n = None"
  then show "configs (set_config name r w) n = Some (Inl depth_exceeded_error)"
    using walk_invD(4) [OF assms(1), of n] assms(2) by auto
qed (use walk_invD(2) [OF assms(1)] in simp)

text \<open>Recording a watch that a cluster of \<open>R\<close> on the path needs keeps the invariant.\<close>

lemma walk_inv_need_watch:
  assumes "walk_inv env R w" "marks w name = Some OnPath"
    and "watches_within env R (f (watches w))" "watches_le (watches w) (f (watches w))"
    and "watch_clusters (f (watches w)) \<subseteq> insert name (watch_clusters (watches w))"
  shows "walk_inv env R (need_watch f w)"
proof (rule walk_invI)
  fix n v
  assume "marks (need_watch f w) n = Some (Done v)"
  then have n: "marks w n = Some (Done v)" by simp
  show "done_ok env (need_watch f w) n v"
    by (rule done_ok_frame [OF walk_invD(1) [OF assms(1) n]]) (simp_all add: assms(4))
next
  show "dom (configs (need_watch f w)) \<subseteq> watch_clusters (watches (need_watch f w))"
    using walk_invD(3) [OF assms(1)] assms(4) by (auto simp: watches_le_def)
next
  fix n
  assume "n \<in> watch_clusters (watches (need_watch f w))" "marks (need_watch f w) n = None"
  then show "configs (need_watch f w) n = Some (Inl depth_exceeded_error)"
    using walk_invD(4) [OF assms(1), of n] assms(2,5) by auto
qed (use assms(3) in simp)

text \<open>The configuration of a leaf cluster whose endpoints have arrived.\<close>

definition leaf_config ::
  "('e, 'd) walk_env \<Rightarrow> ClusterResource \<Rightarrow> string option \<Rightarrow> 'v WatchState option \<Rightarrow>
   ('v \<Rightarrow> ('e, 'd) LeafEndpointSource) \<Rightarrow> ('e, 'd) ClusterConfig" where
  "leaf_config env cluster cds_note endpoints to_source =
     \<lparr>config_cluster = cluster,
      children = LeafChildren
        \<lparr>leaf_source = (case endpoints of Some (WatchReady value _) \<Rightarrow> Some (to_source value) | _ \<Rightarrow> None),
         leaf_resolution_note = leaf_note env cds_note
           (case endpoints of Some (WatchReady _ note') \<Rightarrow> note' | Some (WatchFailed reason) \<Rightarrow> Some reason | _ \<Rightarrow> None)\<rparr>\<rparr>"

lemma leaf_eq:
  "leaf env name cluster cds_note endpoints to_source w =
     (if arrived endpoints
      then (visited_leaf name, set_config name (Some (Inr (leaf_config env cluster cds_note endpoints to_source))) w)
      else (PENDING, w))"
  by (simp add: leaf_def record_leaf_def leaf_config_def arrived_def split: option.split WatchState.split)

lemma visited_simps [simp]:
  "leaves PENDING = LeavesPending" "height PENDING = 0" "leaves (visited_leaf n) = LeavesResolved [n] []"
  "height (visited_leaf n) = 0" "leaves (no_leaves r) = LeavesResolved [] [r]" "height (no_leaves r) = 0"
  by (simp_all add: PENDING_def visited_leaf_def no_leaves_def)

definition closed_under :: "('e, 'd) walk_env \<Rightarrow> string set \<Rightarrow> bool" where
  "closed_under env R \<longleftrightarrow> (\<forall>n \<in> R. set (children_of env n) \<subseteq> R)"

definition pending_below :: "('e, 'd) walk_env \<Rightarrow> string \<Rightarrow> bool" where
  "pending_below env n \<longleftrightarrow> (\<exists>m. below env n m \<and> unresolved env m)"

lemma pending_below_self: "unresolved env n \<Longrightarrow> pending_below env n"
  unfolding pending_below_def using below_refl by blast

lemma pending_below_child: "c \<in> set (children_of env n) \<Longrightarrow> pending_below env c \<Longrightarrow> pending_below env n"
  unfolding pending_below_def using below_child by blast

definition handled ::
  "('e, 'd) walk_env \<Rightarrow> string set \<Rightarrow> string \<Rightarrow> RequiredWatches \<Rightarrow> (DepthExceeded + Visited) \<times> ('e, 'd) GraphWalker \<Rightarrow> bool"
  where
  "handled env R name r res \<longleftrightarrow> walk_inv env R (snd res) \<and> watches_le r (watches (snd res)) \<and>
     (case fst res of
        Inr v \<Rightarrow> done_ok env (snd res) name v
      | Inl _ \<Rightarrow> configs (snd res) name = Some (Inl depth_exceeded_error))"

definition visit_ok ::
  "('e, 'd) walk_env \<Rightarrow> string set \<Rightarrow> string \<Rightarrow> nat \<Rightarrow> ('e, 'd) GraphWalker \<Rightarrow>
   (DepthExceeded + Visited) \<times> ('e, 'd) GraphWalker \<Rightarrow> bool"
  where
  "visit_ok env R name depth w res \<longleftrightarrow> walk_inv env R (snd res) \<and> watches_le (watches w) (watches (snd res)) \<and>
     (\<forall>v. fst res = Inr v \<longrightarrow> leaves v = LeavesPending \<longrightarrow> pending_below env name) \<and>
     (marks w name = None \<longrightarrow> name \<in> watch_clusters (watches (snd res)) \<or> MAX_AGGREGATE_DEPTH \<le> depth)"

lemma handled_leaf:
  assumes inv: "walk_inv env R w" and path: "marks w name = Some OnPath" and conf: "configs w name = None"
    and watch: "watched env (watches w) name" and arr: "\<not> arrived endpoints \<Longrightarrow> unresolved env name"
    and le: "watches_le r (watches w)"
  shows "handled env R name r (apfst Inr (leaf env name cluster cds_note endpoints to_source w))"
proof (cases "arrived endpoints")
  case True
  have "walk_inv env R (set_config name (Some (Inr (leaf_config env cluster cds_note endpoints to_source))) w)"
    by (rule walk_inv_set_config [OF inv path]) (use watch in \<open>simp add: watched_def\<close>)
  then show ?thesis using True watch le by (simp add: handled_def leaf_eq done_ok_def)
next
  case False
  then show ?thesis using inv le watch conf pending_below_self [OF arr [OF False]]
    by (simp add: handled_def leaf_eq done_ok_def pending_below_def)
qed

lemma handled_finish:
  assumes inv: "walk_inv env R w" and path: "marks w name = Some OnPath" and conf: "configs w name = None"
    and watch: "watched env (watches w) name" and pend: "agg_pending l \<Longrightarrow> pending_below env name"
    and le: "watches_le r (watches w)"
  shows "handled env R name r (apfst Inr (aggregate_finish name cluster l w))"
proof (cases "agg_pending l")
  case True
  then show ?thesis using inv le watch conf pend
    by (simp add: handled_def aggregate_finish_def done_ok_def pending_below_def)
next
  case False
  have "walk_inv env R (set_config name (Some (aggregate_result name cluster l)) w)"
    by (rule walk_inv_set_config [OF inv path]) (use watch in \<open>simp add: watched_def\<close>)
  then show ?thesis using False watch le by (simp add: handled_def aggregate_finish_def done_ok_def)
qed

lemma aggregate_child_pending [simp]:
  "agg_pending (aggregate_child v l) \<longleftrightarrow> agg_pending l \<or> leaves v = LeavesPending"
  by (auto simp: aggregate_child_def Let_def split: LeafClusters.split prod.split)

text \<open>The bookkeeping of \<open>visit\<close> around the handling of an unmarked cluster keeps the invariant.\<close>

lemma walk_inv_enter:
  assumes inv: "walk_inv env R w" and none: "marks w name = None"
  shows "walk_inv env R (set_mark name (Some OnPath) (set_config name None w))" (is "walk_inv env R ?w")
proof (rule walk_invI)
  fix n v
  assume "marks ?w n = Some (Done v)"
  then have n: "marks w n = Some (Done v)" "n \<noteq> name" by (auto split: if_splits)
  show "done_ok env ?w n v"
    by (rule done_ok_frame [OF walk_invD(1) [OF inv n(1)]]) (simp_all add: n(2))
next
  show "dom (configs ?w) \<subseteq> watch_clusters (watches ?w)" using walk_invD(3) [OF inv] by auto
next
  fix n
  assume "n \<in> watch_clusters (watches ?w)" "marks ?w n = None"
  then show "configs ?w n = Some (Inl depth_exceeded_error)"
    using walk_invD(4) [OF inv, of n] by (auto split: if_splits)
qed (use walk_invD(2) [OF inv] in simp)

lemma walk_inv_leave:
  assumes inv: "walk_inv env R w"
    and m: "(\<exists>v. m = Some (Done v) \<and> done_ok env w name v) \<or>
            (m = None \<and> configs w name = Some (Inl depth_exceeded_error))"
  shows "walk_inv env R (set_mark name m w)"
proof (rule walk_invI)
  fix n v
  assume a: "marks (set_mark name m w) n = Some (Done v)"
  have "done_ok env w n v" using a m walk_invD(1) [OF inv, of n v] by (auto split: if_splits)
  then show "done_ok env (set_mark name m w) n v" by (rule done_ok_frame) simp_all
next
  fix n
  assume "n \<in> watch_clusters (watches (set_mark name m w))" "marks (set_mark name m w) n = None"
  then show "configs (set_mark name m w) n = Some (Inl depth_exceeded_error)"
    using walk_invD(4) [OF inv, of n] m by (auto split: if_splits)
qed (use walk_invD(2,3) [OF inv] in simp_all)

lemma visit_ok_uncached:
  assumes h: "handled env R name (watches w) (r, w')"
    and m: "m = (case r of Inr v \<Rightarrow> Some (Done v) | Inl _ \<Rightarrow> None)"
  shows "visit_ok env R name depth w (r, set_mark name m w')"
proof -
  have "walk_inv env R (set_mark name m w')"
    using h m by (intro walk_inv_leave) (auto simp: handled_def split: sum.splits)
  moreover have "name \<in> watch_clusters (watches w')"
    using h walk_invD(3) [of env R w'] by (auto simp: handled_def done_ok_def watched_def split: sum.splits)
  ultimately show ?thesis using h
    by (auto simp: visit_ok_def handled_def done_ok_def pending_below_def)
qed

lemma watch_steps [simp]:
  "watches_le r (r\<lparr>watch_clusters := insert n (watch_clusters r)\<rparr>)"
  "watches_le r (r\<lparr>watch_eds_services := insert s (watch_eds_services r)\<rparr>)"
  "watches_le r (r\<lparr>watch_dns_targets := insert t (watch_dns_targets r)\<rparr>)"
  by (auto simp: watches_le_def)

abbreviation watch_cluster :: "string \<Rightarrow> ('e, 'd) GraphWalker \<Rightarrow> ('e, 'd) GraphWalker" where
  "watch_cluster name \<equiv> need_watch (\<lambda>r. r\<lparr>watch_clusters := insert name (watch_clusters r)\<rparr>)"

lemma walk_inv_watch_cluster:
  "walk_inv env R w \<Longrightarrow> marks w name = Some OnPath \<Longrightarrow> name \<in> R \<Longrightarrow> walk_inv env R (watch_cluster name w)"
  using walk_invD(2) [of env R w]
  by (intro walk_inv_need_watch [where name = name]) (auto simp: watches_within_def)

text \<open>The handling of a cluster that is not an aggregate.\<close>

lemma handled_simple:
  assumes inv: "walk_inv env R w" and path: "marks w name = Some OnPath" and conf: "configs w name = None"
    and R: "name \<in> R"
    and simple: "\<And>cluster note' cs. cds (cache env) name = Some (WatchReady cluster note') \<Longrightarrow> discovery cluster \<noteq> Aggregate cs"
  shows "handled env R name (watches w) (visit_uncached env name depth w)"
proof -
  let ?w = "watch_cluster name w"
  have inv': "walk_inv env R ?w" using inv path R by (rule walk_inv_watch_cluster)
  have in_watch: "name \<in> watch_clusters (watches ?w)" by simp
  show ?thesis
  proof (cases "\<exists>cluster note'. cds (cache env) name = Some (WatchReady cluster note')")
    case False
    then have none: "eds_of env name = {}" "dns_of env name = {}" using of_not_ready [of env name] by blast+
    have pend: "\<not> arrived (cds (cache env) name) \<Longrightarrow> unresolved env name" by (simp add: unresolved_def)
    have fail: "walk_inv env R (set_config name (Some (Inl reason)) ?w)" for reason
      by (rule walk_inv_set_config [OF inv']) (simp_all add: path)
    show ?thesis using False inv' fail none pend conf
      by (auto simp: visit_uncached.simps [of env name] Let_def handled_def done_ok_def watched_def
          arrived_def           pending_below_self [unfolded pending_below_def] split: option.splits WatchState.splits)
  next
    case True
    then obtain cluster note' where ready: "cds (cache env) name = Some (WatchReady cluster note')" by blast
    show ?thesis
    proof (cases "discovery cluster")
      case (Eds svc)
      let ?f = "\<lambda>r. r\<lparr>watch_eds_services := insert svc (watch_eds_services r)\<rparr>"
      have o: "eds_of env name = {svc}" "dns_of env name = {}" using of_ready(1) [OF ready Eds] by simp_all
      have "walk_inv env R (need_watch ?f ?w)"
        using path R o walk_invD(2) [OF inv']
        by (intro walk_inv_need_watch [where name = name, OF inv']) (auto simp: watches_within_def watches_le_def)
      then show ?thesis using ready Eds o path conf
        by (auto simp: visit_uncached.simps [of env name] Let_def watched_def unresolved_def watches_le_def
            intro!: handled_leaf)
    next
      case (LogicalDns h p)
      let ?t = "\<lparr>dns_host = h, dns_port = p\<rparr>"
      let ?f = "\<lambda>r. r\<lparr>watch_dns_targets := insert ?t (watch_dns_targets r)\<rparr>"
      have o: "eds_of env name = {}" "dns_of env name = {?t}" using of_ready(2) [OF ready LogicalDns] by simp_all
      have "walk_inv env R (need_watch ?f ?w)"
        using path R o walk_invD(2) [OF inv']
        by (intro walk_inv_need_watch [where name = name, OF inv']) (auto simp: watches_within_def watches_le_def)
      then show ?thesis using ready LogicalDns o path conf
        by (auto simp: visit_uncached.simps [of env name] Let_def watched_def unresolved_def watches_le_def
            intro!: handled_leaf)
    next
      case (Aggregate cs)
      then show ?thesis using simple [OF ready] by blast
    qed
  qed
qed

lemma handled_le: "handled env R name r' res \<Longrightarrow> watches_le r r' \<Longrightarrow> handled env R name r res"
  unfolding handled_def by (blast intro: watches_le_trans)

lemma visit_inv:
  shows "walk_inv env R w \<Longrightarrow> closed_under env R \<Longrightarrow> name \<in> R \<Longrightarrow> visit_ok env R name depth w (visit env name depth w)"
    and "walk_inv env R w \<Longrightarrow> closed_under env R \<Longrightarrow> name \<in> R \<Longrightarrow> marks w name = Some OnPath \<Longrightarrow>
         configs w name = None \<Longrightarrow> handled env R name (watches w) (visit_uncached env name depth w)"
    and "walk_inv env R w \<Longrightarrow> closed_under env R \<Longrightarrow> name \<in> R \<Longrightarrow> marks w name = Some OnPath \<Longrightarrow>
         configs w name = None \<Longrightarrow> watched env (watches w) name \<Longrightarrow> set cs \<subseteq> set (children_of env name) \<Longrightarrow>
         (agg_pending l \<Longrightarrow> pending_below env name) \<Longrightarrow>
         handled env R name (watches w) (aggregate env name cluster cs depth l w)"
proof (induction env name depth w and env name depth w and env name cluster cs depth l w
       rule: visit_visit_uncached_aggregate.induct)
  case (1 env name depth w)
  show ?case
  proof (cases "depth \<ge> MAX_AGGREGATE_DEPTH \<or> marks w name \<noteq> None")
    case True
    then show ?thesis using 1(2) walk_invD(1) [OF 1(2), of name]
      by (auto simp: visit.simps [of env name] visit_ok_def done_ok_def pending_below_def
               split: option.splits Mark.splits)
  next
    case False
    let ?w = "set_mark name (Some OnPath) (set_config name None w)"
    obtain r w' where u: "visit_uncached env name depth ?w = (r, w')" by force
    have "handled env R name (watches ?w) (visit_uncached env name depth ?w)"
      using False 1(3,4) walk_inv_enter [OF 1(2)] by (intro 1(1)) auto
    then have "visit_ok env R name depth w (r, set_mark name (case r of Inr v \<Rightarrow> Some (Done v) | Inl _ \<Rightarrow> None) w')"
      by (intro visit_ok_uncached) (simp_all add: u)
    then show ?thesis using False u
      by (auto simp: visit.simps [of env name] split: sum.splits DepthExceeded.splits)
  qed
next
  case (2 env name depth w)
  show ?case
  proof (cases "\<exists>cluster note' cs. cds (cache env) name = Some (WatchReady cluster note') \<and> discovery cluster = Aggregate cs")
    case True
    then obtain cluster note' cs
      where ready: "cds (cache env) name = Some (WatchReady cluster note')" and agg: "discovery cluster = Aggregate cs"
      by blast
    have o: "children_of env name = cs" "eds_of env name = {}" "dns_of env name = {}"
      using of_ready(3) [OF ready agg] by simp_all
    have "handled env R name (watches (watch_cluster name w))
            (aggregate env name cluster cs depth (aggregate_init note') (watch_cluster name w))"
      using walk_inv_watch_cluster [OF 2(2) 2(5,4)] 2(3-6) o
      by (intro 2(1) [OF refl ready refl agg]) (auto simp: watched_def aggregate_init_def Let_def)
    then show ?thesis using ready agg
      by (auto simp: visit_uncached.simps [of env name] Let_def intro: handled_le)
  qed (use 2 in \<open>blast intro: handled_simple\<close>)
next
  case (3 env name cluster depth l w)
  then show ?case by (simp add: aggregate.simps handled_finish)
next
  case (4 env name cluster child cs depth l w)
  obtain r w' where v: "visit env child (depth + 1) w = (r, w')" by force
  have child: "child \<in> set (children_of env name)" using 4 by simp
  then have "child \<in> R" using 4(4,5) unfolding closed_under_def by blast
  then have ok: "visit_ok env R child (depth + 1) w (r, w')" using 4(1) [OF 4(3,4)] v by simp
  have keeps: "keeps_but {} w w'" using visit_keeps(1) [of w env child "depth + 1"] v by simp
  have w': "walk_inv env R w'" "watches_le (watches w) (watches w')" "marks w' name = Some OnPath"
    "configs w' name = None" "watched env (watches w') name"
    using ok keeps_but_mark [OF keeps 4(6)] keeps_but_config [OF keeps 4(6)] watched_mono [OF 4(8)] 4(7)
    by (simp_all add: visit_ok_def)
  show ?case
  proof (cases r)
    case (Inl d)
    have "walk_inv env R (set_config name (Some (Inl depth_exceeded_error)) w')"
      using walk_inv_set_config [OF w'(1,3)] w'(5) by (simp add: watched_def)
    then show ?thesis using v Inl w' by (cases d) (simp add: aggregate.simps handled_def)
  next
    case (Inr visited)
    have "handled env R name (watches w') (aggregate env name cluster cs depth (aggregate_child visited l) w')"
      using w' ok Inr 4 pending_below_child [OF child]
      by (intro 4(2) [OF v [symmetric] Inr]) (auto simp: visit_ok_def)
    then show ?thesis using handled_le [OF _ w'(2)] v Inr by (simp add: aggregate.simps)
  qed
qed

section \<open>The leaf clusters of an aggregate\<close>

text \<open>The elements of a list without repetitions, each at its first position.\<close>

fun nub :: "'a list \<Rightarrow> 'a list" where
  "nub [] = []"
| "nub (x # xs) = x # filter (\<lambda>y. y \<noteq> x) (nub xs)"

lemma set_nub [simp]: "set (nub xs) = set xs"
  by (induction xs) auto

lemma distinct_nub [simp]: "distinct (nub xs)"
  by (induction xs) auto

lemma nub_append: "nub (xs @ ys) = nub xs @ filter (\<lambda>y. y \<notin> set xs) (nub ys)"
  by (induction xs) (auto intro: filter_cong)

lemma extend_unseen_eq:
  "extend_unseen acc xs seen = (acc @ filter (\<lambda>x. x \<notin> seen) (nub xs), seen \<union> set xs)"
proof (induction acc xs seen rule: extend_unseen.induct)
  case (2 acc x xs seen)
  then show ?case by (auto intro!: filter_cong)
qed simp

fun leaf_names :: "LeafClusters \<Rightarrow> string list" where
  "leaf_names LeavesPending = []"
| "leaf_names (LeavesResolved names notes) = names"

fun leaf_notes :: "LeafClusters \<Rightarrow> string list" where
  "leaf_notes LeavesPending = []"
| "leaf_notes (LeavesResolved names notes) = notes"

text \<open>The accumulators of \<open>aggregate\<close> after its loop has seen the results \<open>vs\<close>.\<close>

lemma aggregate_child_eq:
  assumes "seen_leaves l = set (agg_leaves l)" "seen_notes l = set (agg_notes l)"
  shows "agg_leaves (aggregate_child v l) = agg_leaves l @ filter (\<lambda>x. x \<notin> set (agg_leaves l)) (nub (leaf_names (leaves v)))"
    and "agg_notes (aggregate_child v l) = agg_notes l @ filter (\<lambda>x. x \<notin> set (agg_notes l)) (nub (leaf_notes (leaves v)))"
    and "seen_leaves (aggregate_child v l) = set (agg_leaves (aggregate_child v l))"
    and "seen_notes (aggregate_child v l) = set (agg_notes (aggregate_child v l))"
    and "agg_height (aggregate_child v l) = max (agg_height l) (height v + 1)"
  using assms by (auto simp: aggregate_child_def Let_def extend_unseen_eq split: LeafClusters.split prod.split)

definition locals_of :: "string option \<Rightarrow> Visited list \<Rightarrow> aggregate_locals" where
  "locals_of cds_note vs = fold aggregate_child vs (aggregate_init cds_note)"

lemma locals_of_snoc: "locals_of cds_note (vs @ [v]) = aggregate_child v (locals_of cds_note vs)"
  by (simp add: locals_of_def)

lemma locals_of_eq:
  "agg_leaves (locals_of cds_note vs) = nub (concat (map (\<lambda>v. leaf_names (leaves v)) vs)) \<and>
   agg_notes (locals_of cds_note vs) =
     nub (case_option [] (\<lambda>n. [n]) cds_note @ concat (map (\<lambda>v. leaf_notes (leaves v)) vs)) \<and>
   seen_leaves (locals_of cds_note vs) = set (agg_leaves (locals_of cds_note vs)) \<and>
   seen_notes (locals_of cds_note vs) = set (agg_notes (locals_of cds_note vs)) \<and>
   agg_height (locals_of cds_note vs) = foldr (\<lambda>v h. max h (height v + 1)) vs 0 \<and>
   agg_pending (locals_of cds_note vs) = (\<exists>v \<in> set vs. leaves v = LeavesPending)"
proof (induction vs rule: rev_induct)
  case Nil
  then show ?case by (simp add: locals_of_def aggregate_init_def Let_def split: option.split)
next
  case (snoc v vs)
  note eqs = aggregate_child_eq [of "locals_of cds_note vs" v]
  have h: "foldr (\<lambda>v h. max h (height v + 1)) vs (max 0 (height v + 1)) =
           max (foldr (\<lambda>v h. max h (height v + 1)) vs 0) (height v + 1)"
    by (induction vs) auto
  show ?case using snoc h
    by (auto simp: locals_of_snoc eqs nub_append intro!: filter_cong)
qed

text \<open>
  \<open>leaf_inv\<close>: the leaf clusters in the result of a finished cluster, and those of a configured aggregate, are
  distinct, finished, configured as leaf clusters and below that cluster, and a configured aggregate has one.
\<close>

fun is_leaf_config :: "('e, 'd) ClusterResult option \<Rightarrow> bool" where
  "is_leaf_config (Some (Inr c)) = (case children c of LeafChildren _ \<Rightarrow> True | AggregateChildren _ \<Rightarrow> False)"
| "is_leaf_config _ = False"

definition leaf_done :: "('e, 'd) GraphWalker \<Rightarrow> string \<Rightarrow> bool" where
  "leaf_done w n \<longleftrightarrow> is_leaf_config (configs w n) \<and> (\<exists>v. marks w n = Some (Done v))"

definition leaves_ok :: "('e, 'd) walk_env \<Rightarrow> ('e, 'd) GraphWalker \<Rightarrow> string \<Rightarrow> string list \<Rightarrow> bool" where
  "leaves_ok env w n names \<longleftrightarrow> distinct names \<and> (\<forall>m \<in> set names. leaf_done w m \<and> below env n m)"

definition leaf_inv :: "('e, 'd) walk_env \<Rightarrow> ('e, 'd) GraphWalker \<Rightarrow> bool" where
  "leaf_inv env w \<longleftrightarrow>
     (\<forall>n v. marks w n = Some (Done v) \<longrightarrow> leaves_ok env w n (leaf_names (leaves v))) \<and>
     (\<forall>n c a. configs w n = Some (Inr c) \<longrightarrow> children c = AggregateChildren a \<longrightarrow>
        leaf_clusters a \<noteq> [] \<and> leaves_ok env w n (leaf_clusters a))"

lemma leaf_invI:
  assumes "\<And>n v. marks w n = Some (Done v) \<Longrightarrow> leaves_ok env w n (leaf_names (leaves v))"
    and "\<And>n c a. configs w n = Some (Inr c) \<Longrightarrow> children c = AggregateChildren a \<Longrightarrow>
           leaf_clusters a \<noteq> [] \<and> leaves_ok env w n (leaf_clusters a)"
  shows "leaf_inv env w"
  using assms unfolding leaf_inv_def by blast

lemma leaf_invD:
  assumes "leaf_inv env w"
  shows "marks w n = Some (Done v) \<Longrightarrow> leaves_ok env w n (leaf_names (leaves v))"
    and "configs w n = Some (Inr c) \<Longrightarrow> children c = AggregateChildren a \<Longrightarrow>
           leaf_clusters a \<noteq> [] \<and> leaves_ok env w n (leaf_clusters a)"
  using assms unfolding leaf_inv_def by blast+

lemma leaves_ok_mono:
  "leaves_ok env w n names \<Longrightarrow> (\<And>m. leaf_done w m \<Longrightarrow> leaf_done w' m) \<Longrightarrow> leaves_ok env w' n names"
  unfolding leaves_ok_def by blast

lemma leaves_ok_Nil [simp]: "leaves_ok env w n []"
  by (simp add: leaves_ok_def)

lemma leaf_done_keeps: "keeps_but {} w w' \<Longrightarrow> leaf_done w m \<Longrightarrow> leaf_done w' m"
  unfolding leaf_done_def by (metis keeps_but_config keeps_but_mark empty_iff)

text \<open>Changing the configuration of a cluster that is not finished keeps the invariant.\<close>

lemma leaf_done_set_config:
  "marks w name = None \<or> marks w name = Some OnPath \<Longrightarrow> leaf_done w m \<Longrightarrow> leaf_done (set_config name r w) m"
  by (auto simp: leaf_done_def)

lemma leaf_inv_set_config:
  assumes inv: "leaf_inv env w" and mark: "marks w name = None \<or> marks w name = Some OnPath"
    and r: "\<And>c a. r = Some (Inr c) \<Longrightarrow> children c = AggregateChildren a \<Longrightarrow>
              leaf_clusters a \<noteq> [] \<and> leaves_ok env w name (leaf_clusters a)"
  shows "leaf_inv env (set_config name r w)"
proof (rule leaf_invI)
  fix n v
  assume "marks (set_config name r w) n = Some (Done v)"
  then have "leaves_ok env w n (leaf_names (leaves v))" using leaf_invD(1) [OF inv] by simp
  then show "leaves_ok env (set_config name r w) n (leaf_names (leaves v))"
    using leaf_done_set_config [OF mark] by (rule leaves_ok_mono)
next
  fix n c a
  assume c: "configs (set_config name r w) n = Some (Inr c)" "children c = AggregateChildren a"
  then have ok: "leaf_clusters a \<noteq> [] \<and> leaves_ok env w n (leaf_clusters a)"
    using leaf_invD(2) [OF inv, of n c a] r [of c a] by (cases "n = name") auto
  moreover have "leaves_ok env (set_config name r w) n (leaf_clusters a)"
    using ok leaf_done_set_config [OF mark] by (blast intro: leaves_ok_mono)
  ultimately show "leaf_clusters a \<noteq> [] \<and> leaves_ok env (set_config name r w) n (leaf_clusters a)" by simp
qed

lemma leaf_inv_need_watch [simp]: "leaf_inv env (need_watch f w) \<longleftrightarrow> leaf_inv env w"
  by (simp add: leaf_inv_def leaves_ok_def leaf_done_def)

lemma leaf_done_set_mark:
  "\<not> (\<exists>v. marks w name = Some (Done v)) \<Longrightarrow> leaf_done w m \<Longrightarrow> leaf_done (set_mark name k w) m"
  by (auto simp: leaf_done_def)

lemma leaf_inv_set_mark:
  assumes inv: "leaf_inv env w" and mark: "\<not> (\<exists>v. marks w name = Some (Done v))"
    and k: "\<And>v. k = Some (Done v) \<Longrightarrow> leaves_ok env (set_mark name k w) name (leaf_names (leaves v))"
  shows "leaf_inv env (set_mark name k w)"
proof (rule leaf_invI)
  fix n v
  assume n: "marks (set_mark name k w) n = Some (Done v)"
  show "leaves_ok env (set_mark name k w) n (leaf_names (leaves v))"
  proof (cases "n = name")
    case False
    then have "leaves_ok env w n (leaf_names (leaves v))" using n leaf_invD(1) [OF inv] by simp
    then show ?thesis using leaf_done_set_mark [OF mark] by (rule leaves_ok_mono)
  qed (use n k in simp)
next
  fix n c a
  assume "configs (set_mark name k w) n = Some (Inr c)" "children c = AggregateChildren a"
  then have ok: "leaf_clusters a \<noteq> [] \<and> leaves_ok env w n (leaf_clusters a)" using leaf_invD(2) [OF inv] by simp
  moreover have "leaves_ok env (set_mark name k w) n (leaf_clusters a)"
    using ok leaf_done_set_mark [OF mark] by (blast intro: leaves_ok_mono)
  ultimately show "leaf_clusters a \<noteq> [] \<and> leaves_ok env (set_mark name k w) n (leaf_clusters a)" by simp
qed

text \<open>The result of handling a cluster, as its parent sees it once the cluster is marked as finished.\<close>

definition leaf_handled ::
  "('e, 'd) walk_env \<Rightarrow> string \<Rightarrow> (DepthExceeded + Visited) \<times> ('e, 'd) GraphWalker \<Rightarrow> bool" where
  "leaf_handled env name res \<longleftrightarrow> leaf_inv env (snd res) \<and>
     (\<forall>v. fst res = Inr v \<longrightarrow> leaves_ok env (set_mark name (Some (Done v)) (snd res)) name (leaf_names (leaves v)))"

lemma leaf_handled_leaf:
  assumes "leaf_inv env w" "marks w name = Some OnPath"
  shows "leaf_handled env name (apfst Inr (leaf env name cluster cds_note endpoints to_source w))"
proof -
  have "leaf_inv env (set_config name (Some (Inr (leaf_config env cluster cds_note endpoints to_source))) w)"
    using assms by (intro leaf_inv_set_config) (auto simp: leaf_config_def)
  then show ?thesis using assms(1)
    by (auto simp: leaf_eq leaf_handled_def leaves_ok_def leaf_done_def leaf_config_def below_refl)
qed

lemma leaf_handled_finish:
  assumes "leaf_inv env w" "marks w name = Some OnPath" "leaves_ok env w name (agg_leaves l)"
  shows "leaf_handled env name (apfst Inr (aggregate_finish name cluster l w))"
proof -
  have inv: "leaf_inv env (set_config name (Some (aggregate_result name cluster l)) w)"
    using assms by (intro leaf_inv_set_config) (auto simp: aggregate_result_def Let_def split: if_splits)
  have "leaves_ok env (set_mark name (Some (Done v)) (set_config name r w)) name (agg_leaves l)" for v r
    by (rule leaves_ok_mono [OF assms(3)]) (use assms(2) in \<open>auto simp: leaf_done_def\<close>)
  then show ?thesis using inv assms(1) by (simp add: leaf_handled_def aggregate_finish_def)
qed

lemma leaves_ok_extend:
  assumes "leaves_ok env w n (agg_leaves l)" "leaves_ok env w c (leaf_names (leaves v))"
    and "c \<in> set (children_of env n)" "seen_leaves l = set (agg_leaves l)"
  shows "leaves_ok env w n (agg_leaves (aggregate_child v l)) \<and>
         seen_leaves (aggregate_child v l) = set (agg_leaves (aggregate_child v l))"
  using assms below_child [OF assms(3)]
  by (auto simp: aggregate_child_def Let_def extend_unseen_eq leaves_ok_def
           split: LeafClusters.split prod.split)

lemma visit_leaf_inv:
  shows "leaf_inv env w \<Longrightarrow> leaf_inv env (snd (visit env name depth w)) \<and>
           (\<forall>v. fst (visit env name depth w) = Inr v \<longrightarrow>
              leaves_ok env (snd (visit env name depth w)) name (leaf_names (leaves v)))"
    and "leaf_inv env w \<Longrightarrow> marks w name = Some OnPath \<Longrightarrow> leaf_handled env name (visit_uncached env name depth w)"
    and "leaf_inv env w \<Longrightarrow> marks w name = Some OnPath \<Longrightarrow> set cs \<subseteq> set (children_of env name) \<Longrightarrow>
         leaves_ok env w name (agg_leaves l) \<Longrightarrow> seen_leaves l = set (agg_leaves l) \<Longrightarrow>
         leaf_handled env name (aggregate env name cluster cs depth l w)"
proof (induction env name depth w and env name depth w and env name cluster cs depth l w
       rule: visit_visit_uncached_aggregate.induct)
  case (1 env name depth w)
  show ?case
  proof (cases "depth \<ge> MAX_AGGREGATE_DEPTH \<or> marks w name \<noteq> None")
    case True
    then show ?thesis using 1(2) leaf_invD(1) [OF 1(2), of name]
      by (auto simp: visit.simps [of env name] split: option.splits Mark.splits)
  next
    case False
    let ?w = "set_mark name (Some OnPath) (set_config name None w)"
    obtain r w' where u: "visit_uncached env name depth ?w = (r, w')" by force
    have "leaf_inv env ?w"
      using False 1(2) by (intro leaf_inv_set_mark leaf_inv_set_config) auto
    then have h: "leaf_handled env name (r, w')" using 1(1) False u by simp
    have "marks w' name = Some OnPath"
      using keeps_but_mark [OF visit_keeps(2) [of ?w name env depth]] u by simp
    then have "leaf_inv env (set_mark name (case r of Inr v \<Rightarrow> Some (Done v) | Inl _ \<Rightarrow> None) w')"
      using h by (intro leaf_inv_set_mark) (auto simp: leaf_handled_def split: sum.splits)
    then show ?thesis using False u h
      by (auto simp: visit.simps [of env name] leaf_handled_def split: sum.splits DepthExceeded.splits)
  qed
next
  case (2 env name depth w)
  let ?w = "watch_cluster name w"
  show ?case
  proof (cases "\<exists>cluster note' cs. cds (cache env) name = Some (WatchReady cluster note') \<and> discovery cluster = Aggregate cs")
    case True
    then obtain cluster note' cs
      where ready: "cds (cache env) name = Some (WatchReady cluster note')" and agg: "discovery cluster = Aggregate cs"
      by blast
    have "leaf_handled env name (aggregate env name cluster cs depth (aggregate_init note') ?w)"
      using 2(2,3) of_ready(3) [OF ready agg]
      by (intro 2(1) [OF refl ready refl agg]) (auto simp: aggregate_init_def Let_def)
    then show ?thesis using ready agg by (simp add: visit_uncached.simps [of env name])
  next
    case False
    have fail: "leaf_inv env (set_config name (Some (Inl reason)) ?w)" for reason
      using 2(2,3) by (intro leaf_inv_set_config) auto
    show ?thesis
    proof (cases "\<exists>cluster note'. cds (cache env) name = Some (WatchReady cluster note')")
      case True
      then show ?thesis using False 2(2,3)
        by (auto simp: visit_uncached.simps [of env name] Let_def intro!: leaf_handled_leaf split: ClusterDiscovery.splits)
    next
      case False
      then show ?thesis using fail 2(2)
        by (auto simp: visit_uncached.simps [of env name] Let_def leaf_handled_def split: option.splits WatchState.splits)
    qed
  qed
next
  case (3 env name cluster depth l w)
  then show ?case by (simp add: aggregate.simps leaf_handled_finish)
next
  case (4 env name cluster child cs depth l w)
  obtain r w' where v: "visit env child (depth + 1) w = (r, w')" by force
  have keeps: "keeps_but {} w w'" using visit_keeps(1) [of w env child "depth + 1"] v by simp
  have child: "leaf_inv env w'" "\<And>visited. r = Inr visited \<Longrightarrow> leaves_ok env w' child (leaf_names (leaves visited))"
    using 4(1) [OF 4(3)] v by auto
  have mark: "marks w' name = Some OnPath" using keeps_but_mark [OF keeps 4(4)] .
  have acc: "leaves_ok env w' name (agg_leaves l)" using leaves_ok_mono [OF 4(6) leaf_done_keeps [OF keeps]] .
  show ?case
  proof (cases r)
    case (Inl d)
    have "leaf_inv env (set_config name (Some (Inl depth_exceeded_error)) w')"
      using child(1) mark by (intro leaf_inv_set_config) auto
    then show ?thesis using v Inl by (cases d) (simp add: aggregate.simps leaf_handled_def)
  next
    case (Inr visited)
    have "leaf_handled env name (aggregate env name cluster cs depth (aggregate_child visited l) w')"
      using 4(5) leaves_ok_extend [OF acc child(2) [OF Inr] _ 4(7)] child(1) mark
      by (intro 4(2) [OF v [symmetric] Inr]) auto
    then show ?thesis using v Inr by (simp add: aggregate.simps)
  qed
qed

section \<open>The whole walk\<close>

definition search :: "('e, 'd) walk_env \<Rightarrow> string list \<Rightarrow> ('e, 'd) GraphWalker \<Rightarrow> ('e, 'd) GraphWalker" where
  "search env roots w = fold (\<lambda>root w. snd (visit env root 0 w)) roots w"

abbreviation new_walker :: "('e, 'd) GraphWalker" where
  "new_walker \<equiv> \<lparr>marks = Map.empty, graph = empty_graph\<rparr>"

definition reachable :: "('e, 'd) walk_env \<Rightarrow> string list \<Rightarrow> string set" where
  "reachable env roots = {n. \<exists>r \<in> set roots. below env r n}"

lemma closed_reachable: "closed_under env (reachable env roots)"
  unfolding closed_under_def reachable_def by (blast intro: below_step)

lemma new_walker_inv: "walk_inv env R new_walker" "leaf_inv env new_walker"
  by (simp_all add: walk_inv_def leaf_inv_def empty_graph_def watches_within_def)

lemma search_keeps: "keeps_but {} w (search env roots w)"
proof (induction roots arbitrary: w)
  case (Cons r roots)
  show ?case using keeps_but_trans [OF visit_keeps(1) Cons.IH, of w env r 0] by (simp add: search_def)
qed (simp add: search_def)

lemma search_inv:
  assumes "closed_under env R" "set roots \<subseteq> R" "walk_inv env R w" "\<forall>n. marks w n \<noteq> Some OnPath"
  shows "walk_inv env R (search env roots w) \<and> watches_le (watches w) (watches (search env roots w)) \<and>
         set roots \<subseteq> watch_clusters (watches (search env roots w))"
  using assms(2-4)
proof (induction roots arbitrary: w)
  case (Cons r roots)
  let ?w = "snd (visit env r 0 w)"
  have ok: "visit_ok env R r 0 w (visit env r 0 w)" using visit_inv(1) [OF Cons.prems(2) assms(1)] Cons.prems(1) by simp
  have path: "\<forall>n. marks ?w n \<noteq> Some OnPath"
    using keeps_but_path [OF visit_keeps(1) [of w env r 0]] Cons.prems(3) by blast
  have IH: "walk_inv env R (search env roots ?w) \<and> watches_le (watches ?w) (watches (search env roots ?w)) \<and>
    set roots \<subseteq> watch_clusters (watches (search env roots ?w))"
    using Cons.IH [of ?w] Cons.prems(1) ok path by (simp add: visit_ok_def)
  have "r \<in> watch_clusters (watches ?w)"
  proof (cases "marks w r")
    case None
    then show ?thesis using ok by (auto simp: visit_ok_def MAX_AGGREGATE_DEPTH_def)
  next
    case (Some m)
    then obtain v where "m = Done v" using Cons.prems(3) by (cases m) auto
    then have "watched env (watches w) r" using Some walk_invD(1) [OF Cons.prems(2)] by (auto simp: done_ok_def)
    then show ?thesis using ok watched_mono [of env "watches w" r "watches ?w"] by (auto simp: visit_ok_def watched_def)
  qed
  then show ?case using IH ok watches_le_trans [of "watches w" "watches ?w"]
    by (auto simp: search_def visit_ok_def watches_le_def)
qed (simp add: search_def)

section \<open>The reference: resolving a cluster tree\<close>

text \<open>
  What a cluster resolves to by recursion over its tree, without marks, without sharing and without state:
  \<open>None\<close> if the tree has \<open>k\<close> levels or more. A cyclic graph has an infinite tree, so it has no \<open>k\<close>.
\<close>

definition combine :: "string option \<Rightarrow> Visited list \<Rightarrow> Visited" where
  "combine cds_note vs =
     \<lparr>leaves = (if \<exists>v \<in> set vs. leaves v = LeavesPending then LeavesPending
        else LeavesResolved (nub (concat (map (\<lambda>v. leaf_names (leaves v)) vs)))
               (nub (case_option [] (\<lambda>n. [n]) cds_note @ concat (map (\<lambda>v. leaf_notes (leaves v)) vs)))),
      height = foldr (\<lambda>v h. max h (height v + 1)) vs 0\<rparr>"

fun resolve :: "('e, 'd) walk_env \<Rightarrow> nat \<Rightarrow> string \<Rightarrow> Visited option" where
  "resolve env 0 n = None"
| "resolve env (Suc k) n =
     (case cds (cache env) n of
        Some (WatchFailed reason) \<Rightarrow> Some (no_leaves reason)
      | Some (WatchReady cluster cds_note) \<Rightarrow>
          (case discovery cluster of
             Eds svc \<Rightarrow> Some (if arrived (eds (cache env) svc) then visited_leaf n else PENDING)
           | LogicalDns h p \<Rightarrow>
               Some (if arrived (dns (cache env) \<lparr>dns_host = h, dns_port = p\<rparr>) then visited_leaf n else PENDING)
           | Aggregate cs \<Rightarrow> map_option (combine cds_note) (those (map (resolve env k) cs)))
      | _ \<Rightarrow> Some PENDING)"

text \<open>The configuration that the result \<open>v\<close> of a cluster stands for.\<close>

definition config_of :: "('e, 'd) walk_env \<Rightarrow> string \<Rightarrow> Visited \<Rightarrow> ('e, 'd) ClusterResult option" where
  "config_of env n v =
     (case cds (cache env) n of
        Some (WatchFailed reason) \<Rightarrow> Some (Inl reason)
      | Some (WatchReady cluster cds_note) \<Rightarrow>
          (case discovery cluster of
             Eds svc \<Rightarrow>
               (if arrived (eds (cache env) svc)
                then Some (Inr (leaf_config env cluster cds_note (eds (cache env) svc) EdsSource)) else None)
           | LogicalDns h p \<Rightarrow>
               (let t = \<lparr>dns_host = h, dns_port = p\<rparr>
                in if arrived (dns (cache env) t)
                   then Some (Inr (leaf_config env cluster cds_note (dns (cache env) t) LogicalDnsSource)) else None)
           | Aggregate cs \<Rightarrow>
               (case leaves v of
                  LeavesPending \<Rightarrow> None
                | LeavesResolved [] notes \<Rightarrow>
                    Some (Inl (''aggregate cluster dependency graph for '' @ n @ '' has no leaf clusters'' @
                               case_option [] (\<lambda>m. '': '' @ m) (join_notes notes)))
                | LeavesResolved names notes \<Rightarrow>
                    Some (Inr \<lparr>config_cluster = cluster, children = AggregateChildren
                               \<lparr>leaf_clusters = names, aggregate_resolution_note = join_notes notes\<rparr>\<rparr>)))
      | _ \<Rightarrow> None)"

lemma those_map_iff: "those (map f xs) = Some ys \<longleftrightarrow> list_all2 (\<lambda>x y. f x = Some y) xs ys"
  by (induction xs arbitrary: ys) (auto simp: list_all2_Cons1 split: option.splits)

lemma foldr_height_le: "foldr (\<lambda>v h. max h (height v + 1)) vs 0 \<le> k \<longleftrightarrow> (\<forall>v \<in> set vs. height v < k)"
  by (induction vs) auto

lemma height_combine_le: "height (combine cds_note vs) \<le> k \<longleftrightarrow> (\<forall>v \<in> set vs. height v < k)"
  by (simp add: combine_def foldr_height_le [simplified])

lemma resolve_ready_cases:
  assumes "cds (cache env) n = Some (WatchReady cluster cds_note)" "discovery cluster = Aggregate cs"
  shows "resolve env (Suc k) n = Some v \<longleftrightarrow>
           (\<exists>vs. v = combine cds_note vs \<and> list_all2 (\<lambda>c u. resolve env k c = Some u) cs vs)"
  using assms by (auto simp: those_map_iff)

lemma resolve_simple:
  assumes "\<And>cluster cds_note cs. cds (cache env) n = Some (WatchReady cluster cds_note) \<Longrightarrow> discovery cluster \<noteq> Aggregate cs"
  shows "resolve env (Suc k) n = resolve env (Suc 0) n \<and> (\<forall>v. resolve env (Suc k) n = Some v \<longrightarrow> height v = 0)"
  using assms by (auto split: option.splits WatchState.splits ClusterDiscovery.splits)

lemma resolve_enough: "resolve env k n = Some v \<Longrightarrow> height v < k' \<Longrightarrow> resolve env k' n = Some v"
proof (induction k arbitrary: n v k')
  case (Suc k)
  obtain j where k': "k' = Suc j" using Suc.prems(2) by (cases k') auto
  show ?case
  proof (cases "\<exists>cluster cds_note cs. cds (cache env) n = Some (WatchReady cluster cds_note) \<and> discovery cluster = Aggregate cs")
    case True
    then obtain cluster cds_note cs
      where ready: "cds (cache env) n = Some (WatchReady cluster cds_note)" "discovery cluster = Aggregate cs" by blast
    obtain vs where vs: "v = combine cds_note vs" "list_all2 (\<lambda>c u. resolve env k c = Some u) cs vs"
      using Suc.prems(1) unfolding resolve_ready_cases [OF ready] by blast
    have "\<forall>u \<in> set vs. height u < j" using Suc.prems(2) vs(1) k' height_combine_le [of cds_note vs j] by simp
    then have "list_all2 (\<lambda>c u. resolve env j c = Some u) cs vs"
      by (intro list.rel_mono_strong [OF vs(2)]) (rule Suc.IH, auto)
    then show ?thesis using vs(1) unfolding k' resolve_ready_cases [OF ready] by blast
  next
    case False
    then have "resolve env (Suc k) n = resolve env (Suc 0) n" "resolve env (Suc j) n = resolve env (Suc 0) n"
      using resolve_simple [of env n] by blast+
    then show ?thesis using Suc.prems(1) k' by (simp only:)
  qed
qed simp

lemma resolve_height: "resolve env k n = Some v \<Longrightarrow> height v < k"
proof (induction k arbitrary: n v)
  case (Suc k)
  show ?case
  proof (cases "\<exists>cluster cds_note cs. cds (cache env) n = Some (WatchReady cluster cds_note) \<and> discovery cluster = Aggregate cs")
    case True
    then obtain cluster cds_note cs
      where ready: "cds (cache env) n = Some (WatchReady cluster cds_note)" "discovery cluster = Aggregate cs" by blast
    obtain vs where vs: "v = combine cds_note vs" "list_all2 (\<lambda>c u. resolve env k c = Some u) cs vs"
      using Suc.prems(1) unfolding resolve_ready_cases [OF ready] by blast
    have "list_all2 (\<lambda>c u. height u < k) cs vs"
      by (intro list.rel_mono_strong [OF vs(2)]) (rule Suc.IH, auto)
    then have "\<forall>u \<in> set vs. height u < k" by (auto simp: list_all2_conv_all_nth in_set_conv_nth)
    then show ?thesis using vs(1) height_combine_le [of cds_note vs k] by simp
  next
    case False
    then have "height v = 0" using resolve_simple [of env n k] Suc.prems by blast
    then show ?thesis by simp
  qed
qed simp

lemma resolve_unique: "resolve env k n = Some v \<Longrightarrow> resolve env k' n = Some v' \<Longrightarrow> v' = v"
  using resolve_enough [of env k n v "max k k'"] resolve_enough [of env k' n v' "max k k'"]
    resolve_height [of env k n v] resolve_height [of env k' n v'] by auto

lemma resolve_limit: "resolve env k n = Some v \<Longrightarrow> resolve env k' n = (if height v < k' then Some v else None)"
  using resolve_enough [of env k n v k'] resolve_height [of env k' n] resolve_unique [of env k n v k']
  by (cases "resolve env k' n") auto

text \<open>
  On an acyclic graph the search computes the reference: \<open>sound\<close> says so of the finished clusters, and that
  the children of a finished cluster are finished. The clusters on the path are strictly above the cluster
  being visited.
\<close>

definition all_done :: "('e, 'd) GraphWalker \<Rightarrow> string list \<Rightarrow> bool" where
  "all_done w cs \<longleftrightarrow> (\<forall>c \<in> set cs. \<exists>u. marks w c = Some (Done u))"

definition sound :: "('e, 'd) walk_env \<Rightarrow> ('e, 'd) GraphWalker \<Rightarrow> bool" where
  "sound env w \<longleftrightarrow> (\<forall>n v. marks w n = Some (Done v) \<longrightarrow>
     (\<exists>k. resolve env k n = Some v) \<and> height v < MAX_AGGREGATE_DEPTH \<and> configs w n = config_of env n v \<and> all_done w (children_of env n))"

definition path_above :: "('e, 'd) walk_env \<Rightarrow> string set \<Rightarrow> nat \<Rightarrow> ('e, 'd) GraphWalker \<Rightarrow> bool" where
  "path_above env X h w \<longleftrightarrow>
     (\<forall>p. p \<notin> X \<longrightarrow> marks w p = Some OnPath \<longrightarrow> (\<exists>j u. resolve env j p = Some u \<and> h < height u))"

definition sound_handled ::
  "('e, 'd) walk_env \<Rightarrow> string \<Rightarrow> nat \<Rightarrow> Visited \<Rightarrow> (DepthExceeded + Visited) \<times> ('e, 'd) GraphWalker \<Rightarrow> bool" where
  "sound_handled env name depth v res \<longleftrightarrow> sound env (snd res) \<and>
     (if depth + height v < MAX_AGGREGATE_DEPTH
      then fst res = Inr v \<and> configs (snd res) name = config_of env name v \<and> all_done (snd res) (children_of env name)
      else fst res = Inl DepthExceeded)"

definition sound_visit ::
  "('e, 'd) walk_env \<Rightarrow> string \<Rightarrow> nat \<Rightarrow> Visited \<Rightarrow> (DepthExceeded + Visited) \<times> ('e, 'd) GraphWalker \<Rightarrow> bool" where
  "sound_visit env name depth v res \<longleftrightarrow> sound env (snd res) \<and>
     (if depth + height v < MAX_AGGREGATE_DEPTH
      then fst res = Inr v \<and> marks (snd res) name = Some (Done v) else fst res = Inl DepthExceeded)"

lemma soundI:
  assumes "\<And>n v. marks w n = Some (Done v) \<Longrightarrow>
    (\<exists>k. resolve env k n = Some v) \<and> height v < MAX_AGGREGATE_DEPTH \<and> configs w n = config_of env n v \<and> all_done w (children_of env n)"
  shows "sound env w"
  using assms unfolding sound_def by blast

lemma soundD:
  assumes "sound env w" "marks w n = Some (Done v)"
  shows "(\<exists>k. resolve env k n = Some v) \<and> height v < MAX_AGGREGATE_DEPTH \<and> configs w n = config_of env n v \<and> all_done w (children_of env n)"
  using assms unfolding sound_def by blast

lemma all_done_mono: "all_done w cs \<Longrightarrow> (\<And>n u. marks w n = Some (Done u) \<Longrightarrow> \<exists>u. marks w' n = Some (Done u)) \<Longrightarrow> all_done w' cs"
  unfolding all_done_def by blast

lemma all_done_keeps: "all_done w cs \<Longrightarrow> keeps_but X w w' \<Longrightarrow> all_done w' cs"
  unfolding all_done_def by (blast intro: keeps_but_mark)

lemma all_done_set_config [simp]: "all_done (set_config n r w) cs \<longleftrightarrow> all_done w cs"
  and all_done_need_watch [simp]: "all_done (need_watch f w) cs \<longleftrightarrow> all_done w cs"
  by (simp_all add: all_done_def)

lemma sound_need_watch [simp]: "sound env (need_watch f w) \<longleftrightarrow> sound env w"
  by (simp add: sound_def)

lemma sound_set_config:
  assumes "sound env w" "\<not> (\<exists>v. marks w name = Some (Done v))"
  shows "sound env (set_config name r w)"
proof (rule soundI)
  fix n v
  assume "marks (set_config name r w) n = Some (Done v)"
  then have n: "marks w n = Some (Done v)" by simp
  then have "n \<noteq> name" using assms(2) by blast
  then show "(\<exists>k. resolve env k n = Some v) \<and> height v < MAX_AGGREGATE_DEPTH \<and> configs (set_config name r w) n = config_of env n v \<and>
    all_done (set_config name r w) (children_of env n)"
    using soundD [OF assms(1) n] by simp
qed

lemma sound_set_mark:
  assumes "sound env w" "\<not> (\<exists>v. marks w name = Some (Done v))"
    and "\<And>v. m = Some (Done v) \<Longrightarrow>
      (\<exists>k. resolve env k name = Some v) \<and> height v < MAX_AGGREGATE_DEPTH \<and> configs w name = config_of env name v \<and> all_done w (children_of env name)"
  shows "sound env (set_mark name m w)"
proof (rule soundI)
  fix n v
  assume n: "marks (set_mark name m w) n = Some (Done v)"
  have mono: "all_done w cs \<Longrightarrow> all_done (set_mark name m w) cs" for cs
    using assms(2) by (fastforce simp: all_done_def)
  show "(\<exists>k. resolve env k n = Some v) \<and> height v < MAX_AGGREGATE_DEPTH \<and> configs (set_mark name m w) n = config_of env n v \<and>
    all_done (set_mark name m w) (children_of env n)"
  proof (cases "n = name")
    case True
    then show ?thesis using n assms(3) [of v] mono by simp
  next
    case False
    then show ?thesis using n soundD [OF assms(1), of n v] mono by simp
  qed
qed

lemma path_above_keeps: "path_above env X h w \<Longrightarrow> keeps_but Y w w' \<Longrightarrow> path_above env X h w'"
  unfolding path_above_def by (blast dest: keeps_but_path)

lemma path_above_child:
  assumes "path_above env {name} (height v) w" "resolve env k name = Some v" "height u < height v"
  shows "path_above env {} (height u) w"
  unfolding path_above_def
proof (intro allI impI)
  fix p
  assume p: "marks w p = Some OnPath"
  show "\<exists>j u'. resolve env j p = Some u' \<and> height u < height u'"
  proof (cases "p = name")
    case True
    then show ?thesis using assms(2,3) by blast
  next
    case False
    then obtain j u' where "resolve env j p = Some u'" "height v < height u'"
      using assms(1) p unfolding path_above_def by blast
    then show ?thesis using assms(3) by (meson order.strict_trans)
  qed
qed

lemma sound_leaf:
  assumes "sound env w" "marks w name = Some OnPath" "configs w name = None" "children_of env name = []"
    and "config_of env name v =
      (if arrived endpoints then Some (Inr (leaf_config env cluster cds_note endpoints to_source)) else None)"
    and "v = (if arrived endpoints then visited_leaf name else PENDING)" "depth < MAX_AGGREGATE_DEPTH"
  shows "sound_handled env name depth v (apfst Inr (leaf env name cluster cds_note endpoints to_source w))"
  using assms sound_set_config [OF assms(1), of name]
  by (simp add: sound_handled_def leaf_eq all_done_def)

text \<open>The handling of a cluster that is not an aggregate.\<close>

lemma sound_simple:
  assumes snd: "sound env w" and path: "marks w name = Some OnPath" and conf: "configs w name = None"
    and depth: "depth < MAX_AGGREGATE_DEPTH" and v: "resolve env k name = Some v"
    and simple: "\<And>cluster note' cs. cds (cache env) name = Some (WatchReady cluster note') \<Longrightarrow> discovery cluster \<noteq> Aggregate cs"
  shows "sound_handled env name depth v (visit_uncached env name depth w)"
proof -
  obtain j where k: "k = Suc j" using v by (cases k) auto
  show ?thesis
  proof (cases "\<exists>cluster note'. cds (cache env) name = Some (WatchReady cluster note')")
    case True
    then obtain cluster note' where ready: "cds (cache env) name = Some (WatchReady cluster note')" by blast
    show ?thesis
    proof (cases "discovery cluster")
      case (Eds svc)
      then show ?thesis using v k ready of_ready(1) [OF ready Eds] snd path conf depth
        by (auto simp: visit_uncached.simps [of env name] Let_def config_of_def intro!: sound_leaf split: if_splits)
    next
      case (LogicalDns h p)
      then show ?thesis using v k ready of_ready(2) [OF ready LogicalDns] snd path conf depth
        by (auto simp: visit_uncached.simps [of env name] Let_def config_of_def intro!: sound_leaf split: if_splits)
    qed (use simple [OF ready] in blast)
  next
    case False
    then have "children_of env name = []" using of_not_ready [of env name] by blast
    then show ?thesis using False v k snd path conf depth sound_set_config [OF snd, of name]
      by (auto simp: visit_uncached.simps [of env name] Let_def config_of_def sound_handled_def all_done_def
               intro!: sound_set_config split: option.splits WatchState.splits)
  qed
qed

lemma finish_combine:
  "aggregate_finish name cluster (locals_of cds_note vs) w =
     (combine cds_note vs,
      if leaves (combine cds_note vs) = LeavesPending then w
      else set_config name (Some (aggregate_result name cluster (locals_of cds_note vs))) w)"
  using locals_of_eq [of cds_note vs] by (simp add: aggregate_finish_def combine_def)

lemma config_of_aggregate:
  assumes "cds (cache env) name = Some (WatchReady cluster cds_note)" "discovery cluster = Aggregate cs"
  shows "config_of env name (combine cds_note vs) =
     (if leaves (combine cds_note vs) = LeavesPending then None
      else Some (aggregate_result name cluster (locals_of cds_note vs)))"
  using assms locals_of_eq [of cds_note vs]
  by (auto simp: config_of_def combine_def aggregate_result_def Let_def split: list.split)

text \<open>The loop of \<open>aggregate\<close> with the children \<open>cs\<close> left, after the children \<open>cs0\<close> with the results \<open>vs0\<close>.\<close>

definition agg_premise ::
  "('e, 'd) walk_env \<Rightarrow> string \<Rightarrow> ClusterResource \<Rightarrow> string option \<Rightarrow> string list \<Rightarrow> Visited list \<Rightarrow> string list \<Rightarrow>
   Visited list \<Rightarrow> nat \<Rightarrow> ('e, 'd) GraphWalker \<Rightarrow> bool" where
  "agg_premise env name cluster cds_note cs0 vs0 cs vs depth w \<longleftrightarrow>
     sound env w \<and> marks w name = Some OnPath \<and> configs w name = None \<and>
     cds (cache env) name = Some (WatchReady cluster cds_note) \<and> discovery cluster = Aggregate (cs0 @ cs) \<and>
     all_done w cs0 \<and> list_all2 (\<lambda>c u. \<exists>k. resolve env k c = Some u) cs vs \<and>
     (\<exists>k. resolve env k name = Some (combine cds_note (vs0 @ vs))) \<and>
     (\<forall>u \<in> set vs0. depth + 1 + height u < MAX_AGGREGATE_DEPTH) \<and> depth < MAX_AGGREGATE_DEPTH \<and>
     path_above env {name} (height (combine cds_note (vs0 @ vs))) w"

lemma sound_agg_done:
  assumes p: "agg_premise env name cluster cds_note cs0 vs0 [] [] depth w"
  shows "sound_handled env name depth (combine cds_note vs0)
           (apfst Inr (aggregate_finish name cluster (locals_of cds_note vs0) w))"
proof -
  have ready: "cds (cache env) name = Some (WatchReady cluster cds_note)" "discovery cluster = Aggregate cs0"
    using p by (simp_all add: agg_premise_def)
  have "height (combine cds_note vs0) \<le> MAX_AGGREGATE_DEPTH - depth - 1"
    unfolding height_combine_le using p by (force simp: agg_premise_def)
  then have h: "depth + height (combine cds_note vs0) < MAX_AGGREGATE_DEPTH"
    using p by (auto simp: agg_premise_def)
  have done_cs: "all_done w (children_of env name)"
    using p of_ready(3) [OF ready] by (simp add: agg_premise_def)
  have "sound env (set_config name (Some (aggregate_result name cluster (locals_of cds_note vs0))) w)"
    using p by (intro sound_set_config) (auto simp: agg_premise_def)
  then show ?thesis using h p done_cs
    by (simp add: sound_handled_def finish_combine config_of_aggregate [OF ready] agg_premise_def)
qed

lemma agg_premise_child:
  assumes p: "agg_premise env name cluster cds_note cs0 vs0 (c # cs) vs depth w"
  obtains u us k where "vs = u # us" "resolve env k c = Some u" "path_above env {} (height u) w"
    "depth + 1 + height u \<le> depth + height (combine cds_note (vs0 @ vs))"
proof -
  obtain u us k where u: "vs = u # us" "resolve env k c = Some u"
    using p by (auto simp: agg_premise_def list_all2_Cons1)
  have h: "height u < height (combine cds_note (vs0 @ vs))"
    using height_combine_le [of cds_note "vs0 @ vs" "height u"] u(1) by (auto simp: not_less [symmetric])
  then have "path_above env {} (height u) w"
    using p path_above_child [of env name "combine cds_note (vs0 @ vs)" w] by (auto simp: agg_premise_def)
  then show thesis using that [OF u] h by simp
qed

lemma agg_premise_step:
  assumes p: "agg_premise env name cluster cds_note cs0 vs0 (c # cs) (u # us) depth w"
    and keeps: "keeps_but {} w w'" and snd: "sound env w'" and mark: "marks w' c = Some (Done u)"
    and h: "depth + 1 + height u < MAX_AGGREGATE_DEPTH"
  shows "agg_premise env name cluster cds_note (cs0 @ [c]) (vs0 @ [u]) cs us depth w'"
proof -
  have name: "marks w name = Some OnPath" using p by (simp add: agg_premise_def)
  have cs0: "all_done w cs0" using p by (simp add: agg_premise_def)
  have path: "path_above env {name} (height (combine cds_note (vs0 @ u # us))) w" using p by (simp add: agg_premise_def)
  have "all_done w' (cs0 @ [c])" using all_done_keeps [OF cs0 keeps] mark by (auto simp: all_done_def)
  then show ?thesis
    using p snd h keeps_but_mark [OF keeps name] keeps_but_config [OF keeps name] path_above_keeps [OF path keeps]
    by (simp add: agg_premise_def)
qed

lemma visit_sound:
  shows "sound env w \<Longrightarrow> resolve env k name = Some v \<Longrightarrow> path_above env {} (height v) w \<Longrightarrow>
         sound_visit env name depth v (visit env name depth w)"
    and "sound env w \<Longrightarrow> marks w name = Some OnPath \<Longrightarrow> configs w name = None \<Longrightarrow> depth < MAX_AGGREGATE_DEPTH \<Longrightarrow>
         resolve env k name = Some v \<Longrightarrow> path_above env {name} (height v) w \<Longrightarrow>
         sound_handled env name depth v (visit_uncached env name depth w)"
    and "agg_premise env name cluster cds_note cs0 vs0 cs vs depth w \<Longrightarrow> l = locals_of cds_note vs0 \<Longrightarrow>
         sound_handled env name depth (combine cds_note (vs0 @ vs)) (aggregate env name cluster cs depth l w)"
proof (induction env name depth w and env name depth w and env name cluster cs depth l w
       arbitrary: k v and k v and cds_note cs0 vs0 vs rule: visit_visit_uncached_aggregate.induct)
  case (1 env name depth w)
  consider (deep) "depth \<ge> MAX_AGGREGATE_DEPTH" | (path) "marks w name = Some OnPath"
    | (finished) u where "depth < MAX_AGGREGATE_DEPTH" "marks w name = Some (Done u)"
    | (fresh) "depth < MAX_AGGREGATE_DEPTH" "marks w name = None"
    by (metis Mark.exhaust not_le_imp_less option.exhaust)
  then show ?case
  proof cases
    case deep
    then show ?thesis using 1(2) by (simp add: visit.simps [of env name] sound_visit_def)
  next
    case path
    then obtain j u where "resolve env j name = Some u" "height v < height u" using 1(4) by (auto simp: path_above_def)
    then show ?thesis using resolve_unique [OF 1(3)] by blast
  next
    case (finished u)
    then have "u = v" using soundD [OF 1(2) finished(2)] resolve_unique [OF 1(3)] by blast
    then show ?thesis using finished 1(2) by (simp add: visit.simps [of env name] sound_visit_def)
  next
    case fresh
    let ?w = "set_mark name (Some OnPath) (set_config name None w)"
    obtain r w' where u: "visit_uncached env name depth ?w = (r, w')" by force
    have s: "sound env ?w" using 1(2) fresh by (intro sound_set_mark sound_set_config) auto
    have p: "path_above env {name} (height v) ?w" using 1(4) by (auto simp: path_above_def)
    have h: "sound_handled env name depth v (r, w')"
      using 1(1) [OF _ fresh(2) s _ _ fresh(1) 1(3) p] fresh(1) u by simp
    have mark: "marks w' name = Some OnPath"
      using keeps_but_mark [OF visit_keeps(2) [of ?w name env depth]] u by simp
    have "sound env (set_mark name (case r of Inr v \<Rightarrow> Some (Done v) | Inl _ \<Rightarrow> None) w')"
      using h mark 1(3) by (intro sound_set_mark) (auto simp: sound_handled_def split: if_splits)
    then show ?thesis using fresh u h
      by (auto simp: visit.simps [of env name] sound_visit_def sound_handled_def split: if_splits)
  qed
next
  case (2 env name depth w)
  show ?case
  proof (cases "\<exists>cluster note' cs. cds (cache env) name = Some (WatchReady cluster note') \<and> discovery cluster = Aggregate cs")
    case True
    then obtain cluster cds_note cs
      where ready: "cds (cache env) name = Some (WatchReady cluster cds_note)" "discovery cluster = Aggregate cs" by blast
    obtain j where k: "k = Suc j" using 2(6) by (cases k) auto
    obtain vs where vs: "v = combine cds_note vs" "list_all2 (\<lambda>c u. resolve env j c = Some u) cs vs"
      using 2(6) unfolding k resolve_ready_cases [OF ready] by blast
    have "list_all2 (\<lambda>c u. \<exists>k. resolve env k c = Some u) cs vs" using vs(2) by (rule list_all2_mono) blast
    then have "agg_premise env name cluster cds_note [] [] cs vs depth (watch_cluster name w)"
      using 2(2-7) ready vs(1) by (auto simp: agg_premise_def all_done_def path_above_def)
    from 2(1) [OF refl ready(1) refl ready(2) this]
    show ?thesis using ready vs(1) by (simp add: visit_uncached.simps [of env name] locals_of_def)
  qed (use 2 in \<open>blast intro: sound_simple\<close>)
next
  case (3 env name cluster depth l w)
  then have "vs = []" by (simp add: agg_premise_def)
  then show ?case using 3 by (simp add: aggregate.simps sound_agg_done)
next
  case (4 env name cluster child cs depth l w)
  obtain u us k where u: "vs = u # us" "resolve env k child = Some u" "path_above env {} (height u) w"
    "depth + 1 + height u \<le> depth + height (combine cds_note (vs0 @ vs))"
    using 4(3) by (rule agg_premise_child)
  obtain r w' where v: "visit env child (depth + 1) w = (r, w')" by force
  have keeps: "keeps_but {} w w'" using visit_keeps(1) [of w env child "depth + 1"] v by simp
  have "sound env w" using 4(3) by (simp add: agg_premise_def)
  then have s: "sound_visit env child (depth + 1) u (r, w')" using 4(1) u(2,3) v by simp
  show ?case
  proof (cases "depth + 1 + height u < MAX_AGGREGATE_DEPTH")
    case True
    then have r: "r = Inr u" using s by (simp add: sound_visit_def)
    have "agg_premise env name cluster cds_note (cs0 @ [child]) (vs0 @ [u]) cs us depth w'"
      using agg_premise_step [OF 4(3) [unfolded u(1)] keeps] s True by (simp add: sound_visit_def)
    from 4(2) [OF v [symmetric] r this] show ?thesis
      using v r u(1) 4(4) by (simp add: aggregate.simps locals_of_snoc)
  next
    case False
    then have r: "r = Inl DepthExceeded" "sound env w'" using s by (simp_all add: sound_visit_def)
    have "sound env (set_config name (Some (Inl depth_exceeded_error)) w')"
      using r(2) keeps_but_mark [OF keeps, of name OnPath] 4(3) by (intro sound_set_config) (auto simp: agg_premise_def)
    then show ?thesis using v r(1) False u(4) by (simp add: aggregate.simps sound_handled_def)
  qed
qed

lemma walk_search:
  "walk c roots notes node_id = graph (search (walker_env c notes node_id) (sorted_list_of_set (set roots)) new_walker)"
  by (simp add: walk_def search_def)

lemma search_no_path: "marks (search env roots new_walker) n \<noteq> Some OnPath"
  using keeps_but_path [OF search_keeps [of new_walker env roots], of n] by auto

lemma search_walk_inv:
  assumes "set rs = set roots"
  shows "walk_inv env (reachable env roots) (search env rs new_walker)"
    and "set roots \<subseteq> watch_clusters (watches (search env rs new_walker))"
  using search_inv [OF closed_reachable [of env roots], of rs new_walker] assms new_walker_inv(1)
  by (auto simp: reachable_def intro: below_refl)

lemma search_leaf_inv: "leaf_inv env w \<Longrightarrow> leaf_inv env (search env rs w)"
proof (induction rs arbitrary: w)
  case (Cons r rs)
  then show ?case using visit_leaf_inv(1) [of env w r 0] by (simp add: search_def)
qed (simp add: search_def)

lemma search_sound:
  assumes "\<forall>r \<in> set rs. \<exists>k v. resolve env k r = Some v" "sound env w" "\<forall>n. marks w n \<noteq> Some OnPath"
  shows "sound env (search env rs w) \<and>
    (\<forall>r \<in> set rs. \<forall>v. resolve env MAX_AGGREGATE_DEPTH r = Some v \<longrightarrow> marks (search env rs w) r = Some (Done v))"
  using assms
proof (induction rs arbitrary: w)
  case (Cons r rs)
  let ?w = "snd (visit env r 0 w)"
  obtain k v where v: "resolve env k r = Some v" using Cons.prems(1) by auto
  have s: "sound_visit env r 0 v (visit env r 0 w)"
    by (rule visit_sound(1) [OF Cons.prems(2) v]) (use Cons.prems(3) in \<open>simp add: path_above_def\<close>)
  have path: "\<forall>n. marks ?w n \<noteq> Some OnPath"
    using keeps_but_path [OF visit_keeps(1) [of w env r 0]] Cons.prems(3) by blast
  have IH: "sound env (search env rs ?w) \<and>
    (\<forall>r \<in> set rs. \<forall>v. resolve env MAX_AGGREGATE_DEPTH r = Some v \<longrightarrow> marks (search env rs ?w) r = Some (Done v))"
    using Cons.prems(1) s path by (intro Cons.IH) (auto simp: sound_visit_def)
  have "marks (search env rs ?w) r = Some (Done u)" if u: "resolve env MAX_AGGREGATE_DEPTH r = Some u" for u
  proof -
    have "u = v" using resolve_unique [OF v u] .
    moreover have "height u < MAX_AGGREGATE_DEPTH" using resolve_height [OF u] .
    ultimately have "marks ?w r = Some (Done u)" using s by (simp add: sound_visit_def)
    then show ?thesis using keeps_but_mark [OF search_keeps] by blast
  qed
  then show ?case using IH by (auto simp: search_def)
qed (simp add: search_def)

lemma new_walker_sound: "sound env new_walker"
  by (simp add: sound_def)

lemma sound_below_done:
  "below env r n \<Longrightarrow> sound env w \<Longrightarrow> marks w r = Some (Done v) \<Longrightarrow> \<exists>u. marks w n = Some (Done u)"
proof (induction rule: below.induct)
  case (below_step n m c)
  then obtain u where "marks w m = Some (Done u)" by blast
  then show ?case using soundD [OF below_step(4)] below_step(2) by (auto simp: all_done_def)
qed blast

lemma sound_done_resolve:
  "sound env w \<Longrightarrow> marks w n = Some (Done v) \<Longrightarrow>
     resolve env MAX_AGGREGATE_DEPTH n = Some v \<and> configs w n = config_of env n v"
  using soundD [of env w n v] resolve_enough [of env _ n v MAX_AGGREGATE_DEPTH] by blast

lemma search_acyclic:
  assumes "set rs = set roots" "\<forall>r \<in> set roots. \<exists>k. resolve env k r \<noteq> None"
  shows "sound env (search env rs new_walker)"
    and "r \<in> set roots \<Longrightarrow> resolve env MAX_AGGREGATE_DEPTH r = Some v \<Longrightarrow>
           marks (search env rs new_walker) r = Some (Done v)"
proof -
  have "\<forall>r \<in> set rs. \<exists>k v. resolve env k r = Some v" using assms by blast
  from search_sound [OF this new_walker_sound]
  show "sound env (search env rs new_walker)"
    and "r \<in> set roots \<Longrightarrow> resolve env MAX_AGGREGATE_DEPTH r = Some v \<Longrightarrow>
           marks (search env rs new_walker) r = Some (Done v)"
    using assms(1) by simp_all
qed

lemma search_shallow_done:
  assumes "set rs = set roots" "\<forall>r \<in> set roots. resolve env MAX_AGGREGATE_DEPTH r \<noteq> None" "n \<in> reachable env roots"
  shows "\<exists>v. marks (search env rs new_walker) n = Some (Done v)"
proof -
  obtain r where r: "r \<in> set roots" "below env r n" using assms(3) unfolding reachable_def by blast
  then obtain v where "resolve env MAX_AGGREGATE_DEPTH r = Some v" using assms(2) by blast
  moreover have "\<forall>r \<in> set roots. \<exists>k. resolve env k r \<noteq> None" using assms(2) by blast
  ultimately show ?thesis
    using sound_below_done [OF r(2)] search_acyclic [OF assms(1)] r(1) by blast
qed

text \<open>
  Two caches for the witnesses: aggregates that share a leaf, with a failed child, and a cycle; and a chain
  of nineteen aggregates.
\<close>

definition example_cache :: "(nat, nat) CachedResources" where
  "example_cache = \<lparr>
     cds = [''top'' \<mapsto> WatchReady \<lparr>cluster_name = ''top'', discovery = Aggregate [''mid'', ''c'']\<rparr> None,
            ''mid'' \<mapsto> WatchReady \<lparr>cluster_name = ''mid'', discovery = Aggregate [''b'', ''bad'', ''c'']\<rparr> (Some ''stale''),
            ''b'' \<mapsto> WatchReady \<lparr>cluster_name = ''b'', discovery = Eds ''svc-b''\<rparr> None,
            ''c'' \<mapsto> WatchReady \<lparr>cluster_name = ''c'', discovery = LogicalDns ''c.example'' 443\<rparr> None,
            ''bad'' \<mapsto> WatchFailed ''no such cluster'',
            ''loop'' \<mapsto> WatchReady \<lparr>cluster_name = ''loop'', discovery = Aggregate [''loop'', ''b'']\<rparr> None],
     eds = [''svc-b'' \<mapsto> WatchReady 7 None],
     dns = [\<lparr>dns_host = ''c.example'', dns_port = 443\<rparr> \<mapsto> WatchFailed ''lookup failed'']\<rparr>"

abbreviation example_env :: "(nat, nat) walk_env" where
  "example_env \<equiv> walker_env example_cache [] (Some ''node'')"

definition deep_cache :: "(nat, nat) CachedResources" where
  "deep_cache = \<lparr>
     cds = (\<lambda>n. Some (WatchReady \<lparr>cluster_name = n,
              discovery = (if length n < 20 then Aggregate [CHR ''a'' # n] else Eds n)\<rparr> None)),
     eds = (\<lambda>n. Some (WatchReady 0 None)), dns = Map.empty\<rparr>"

text \<open>
  Property C6. On a graph without cycles whose trees are within the depth limit, the walk computes the
  reference: exactly the clusters reachable from the roots get the configuration that the recursion over
  their tree gives (none while something below is pending), and exactly the CDS, EDS and DNS watches of the
  reachable clusters are required.
\<close>

theorem walk_refines_resolve:
  assumes env: "env = walker_env c notes node_id"
    and shallow: "\<forall>r \<in> set roots. resolve env MAX_AGGREGATE_DEPTH r \<noteq> None"
  shows "cluster_configs (walk c roots notes node_id) n =
      (if n \<in> reachable env roots then config_of env n (the (resolve env MAX_AGGREGATE_DEPTH n)) else None) \<and>
    required_watches (walk c roots notes node_id) =
      \<lparr>watch_clusters = reachable env roots, watch_eds_services = \<Union> (eds_of env ` reachable env roots),
       watch_dns_targets = \<Union> (dns_of env ` reachable env roots)\<rparr>"
proof -
  let ?rs = "sorted_list_of_set (set roots)"
  let ?R = "reachable env roots" and ?w = "search env ?rs new_walker"
  have rs: "set ?rs = set roots" by simp
  note inv = search_walk_inv(1) [OF rs, of env] and fin = search_shallow_done [OF rs shallow]
  have snd: "sound env ?w" using search_acyclic(1) [OF rs] shallow by blast
  have watched: "watched env (watches ?w) n" if "n \<in> ?R" for n
    using fin [OF that] walk_invD(1) [OF inv] by (auto simp: done_ok_def)
  have "required_watches (walk c roots notes node_id) =
    \<lparr>watch_clusters = ?R, watch_eds_services = \<Union> (eds_of env ` ?R), watch_dns_targets = \<Union> (dns_of env ` ?R)\<rparr>"
    using walk_invD(2) [OF inv] watched
    by (cases "watches ?w") (auto simp: walk_search env [symmetric] watches_within_def watched_def)
  moreover have "configs ?w n = (if n \<in> ?R then config_of env n (the (resolve env MAX_AGGREGATE_DEPTH n)) else None)"
  proof (cases "n \<in> ?R")
    case True
    then show ?thesis using fin [OF True] sound_done_resolve [OF snd] by auto
  next
    case False
    then show ?thesis using walk_invD(2,3) [OF inv] by (auto simp: watches_within_def)
  qed
  ultimately show ?thesis by (simp add: walk_search env [symmetric])
qed

theorem walk_refines_resolve_witness:
  "cluster_configs (walk example_cache [''top''] [] (Some ''node'')) ''top'' =
     Some (Inr \<lparr>config_cluster = \<lparr>cluster_name = ''top'', discovery = Aggregate [''mid'', ''c'']\<rparr>,
                 children = AggregateChildren \<lparr>leaf_clusters = [''b'', ''c''],
                              aggregate_resolution_note = Some ''stale; no such cluster''\<rparr>\<rparr>)"
proof -
  have "\<forall>r \<in> set [''top'']. \<not> Option.is_none (resolve example_env MAX_AGGREGATE_DEPTH r)" by code_simp
  then have "\<forall>r \<in> set [''top'']. resolve example_env MAX_AGGREGATE_DEPTH r \<noteq> None" by (simp add: Option.is_none_def)
  then have eq: "cluster_configs (walk example_cache [''top''] [] (Some ''node'')) ''top'' =
     config_of example_env ''top'' (the (resolve example_env MAX_AGGREGATE_DEPTH ''top''))"
    using walk_refines_resolve [OF refl, of "[''top'']" example_cache "[]" "Some ''node''" "''top''"]
    by (auto simp: reachable_def below_refl)
  show ?thesis unfolding eq by code_simp
qed

text \<open>
  Property C37. The depth limit: on a graph without cycles, a root whose tree has sixteen levels of
  aggregates or more is configured with the depth error, however the roots share clusters, and every other
  root with what the recursion over its tree gives.
\<close>

theorem walk_depth_limit:
  assumes env: "env = walker_env c notes node_id"
    and acyclic: "\<forall>r \<in> set roots. \<exists>k. resolve env k r \<noteq> None" and r: "r \<in> set roots"
  shows "cluster_configs (walk c roots notes node_id) r =
    (case resolve env MAX_AGGREGATE_DEPTH r of
       Some v \<Rightarrow> config_of env r v
     | None \<Rightarrow> Some (Inl depth_exceeded_error))"
proof -
  let ?w = "search env (sorted_list_of_set (set roots)) new_walker"
  have rs: "set (sorted_list_of_set (set roots)) = set roots" by simp
  note inv = search_walk_inv [OF rs, of env] and snd = search_acyclic [OF rs acyclic]
  have "configs ?w r = (case resolve env MAX_AGGREGATE_DEPTH r of
       Some v \<Rightarrow> config_of env r v | None \<Rightarrow> Some (Inl depth_exceeded_error))"
  proof (cases "resolve env MAX_AGGREGATE_DEPTH r")
    case None
    then have "marks ?w r = None"
      using sound_done_resolve [OF snd(1), of r] search_no_path [of env _ r]
      by (cases "marks ?w r") (auto, metis Mark.exhaust option.distinct(1))
    then show ?thesis using None walk_invD(4) [OF inv(1)] inv(2) r by auto
  next
    case (Some v)
    then show ?thesis using sound_done_resolve [OF snd(1) snd(2) [OF r Some]] by simp
  qed
  then show ?thesis by (simp add: walk_search env [symmetric])
qed

theorem walk_depth_limit_witness:
  "cluster_configs (walk deep_cache [''a'', ''aaaa''] [] None) ''a'' = Some (Inl depth_exceeded_error) \<and>
   cluster_configs (walk deep_cache [''a'', ''aaaa''] [] None) ''aaaa'' =
     Some (Inl depth_exceeded_error) \<and> \<not> Option.is_none (resolve (walker_env deep_cache [] None) 20 ''a'')"
proof -
  let ?env = "walker_env deep_cache [] None"
  have k: "\<forall>r \<in> set [''a'', ''aaaa'']. \<not> Option.is_none (resolve ?env 20 r)" by code_simp
  then have "\<forall>r \<in> set [''a'', ''aaaa'']. \<exists>k. resolve ?env k r \<noteq> None" by (auto simp: Option.is_none_def)
  note limit = walk_depth_limit [OF refl this]
  have "resolve ?env MAX_AGGREGATE_DEPTH ''a'' = None" "resolve ?env MAX_AGGREGATE_DEPTH ''aaaa'' = None"
    by code_simp+
  then show ?thesis using limit [of "''a''"] limit [of "''aaaa''"] k by simp
qed

text \<open>
  Property C23. On every graph, cycles and too deep chains included: an aggregate that the walk configures has at
  least one leaf cluster, no leaf cluster twice, and each of them is below it and configured as a leaf.
\<close>

theorem walk_leaf_clusters:
  assumes "cluster_configs (walk c roots notes node_id) n = Some (Inr config)"
    and "children config = AggregateChildren a"
  shows "leaf_clusters a \<noteq> [] \<and> distinct (leaf_clusters a) \<and>
    (\<forall>m \<in> set (leaf_clusters a). below (walker_env c notes node_id) n m \<and>
       is_leaf_config (cluster_configs (walk c roots notes node_id) m))"
proof -
  let ?w = "search (walker_env c notes node_id) (sorted_list_of_set (set roots)) new_walker"
  have "leaf_clusters a \<noteq> [] \<and> leaves_ok (walker_env c notes node_id) ?w n (leaf_clusters a)"
    by (rule leaf_invD(2) [OF search_leaf_inv [OF new_walker_inv(2)]]) (use assms in \<open>simp_all add: walk_search\<close>)
  then show ?thesis by (simp add: walk_search leaves_ok_def leaf_done_def)
qed

theorem walk_leaf_clusters_witness:
  "below example_env ''loop'' ''b'' \<and>
     is_leaf_config (cluster_configs (walk example_cache [''top'', ''loop''] [] (Some ''node'')) ''b'')"
proof -
  have "cluster_configs (walk example_cache [''top'', ''loop''] [] (Some ''node'')) ''loop'' =
     Some (Inr \<lparr>config_cluster = \<lparr>cluster_name = ''loop'', discovery = Aggregate [''loop'', ''b'']\<rparr>,
                 children = AggregateChildren \<lparr>leaf_clusters = [''b''],
                   aggregate_resolution_note = Some ''aggregate cluster loop is part of a cycle''\<rparr>\<rparr>)"
    by code_simp
  from walk_leaf_clusters [OF this] show ?thesis by simp
qed

lemma search_pending:
  assumes "set rs = set roots" "n \<in> watch_clusters (watches (search env rs new_walker))"
    and "configs (search env rs new_walker) n = None"
  shows "pending_below env n"
proof -
  note inv = search_walk_inv(1) [OF assms(1), of env]
  obtain v where "marks (search env rs new_walker) n = Some (Done v)"
    using walk_invD(4) [OF inv assms(2)] assms(3) search_no_path [of env rs n]
    by (metis Mark.exhaust not_None_eq option.distinct(1))
  then show ?thesis using walk_invD(1) [OF inv, of n v] assms(3) by (simp add: done_ok_def pending_below_def)
qed

lemma walk_root_resolved:
  assumes "r \<in> set roots"
  shows "r \<in> watch_clusters (required_watches (walk c roots notes node_id)) \<and>
    (cluster_configs (walk c roots notes node_id) r \<noteq> None \<or> pending_below (walker_env c notes node_id) r)"
proof -
  have rs: "set (sorted_list_of_set (set roots)) = set roots" by simp
  show ?thesis
    using search_walk_inv(2) [OF rs] search_pending [OF rs] assms unfolding walk_search by blast
qed

text \<open>
  Property C24. On every graph: the walk watches every root and only clusters below a root, and a cluster that
  it watches is left without a configuration only while something at or below it has not arrived.
\<close>

theorem walk_leaves_out_pending:
  assumes env: "env = walker_env c notes node_id"
  shows "set roots \<subseteq> watch_clusters (required_watches (walk c roots notes node_id)) \<and>
    watches_within env (reachable env roots) (required_watches (walk c roots notes node_id)) \<and>
    (\<forall>n \<in> watch_clusters (required_watches (walk c roots notes node_id)).
       cluster_configs (walk c roots notes node_id) n = None \<longrightarrow> pending_below env n)"
proof -
  have rs: "set (sorted_list_of_set (set roots)) = set roots" by simp
  show ?thesis using search_walk_inv [OF rs, of env] search_pending [OF rs] walk_invD(2)
    unfolding walk_search env [symmetric] by blast
qed

theorem walk_leaves_out_pending_witness:
  "cluster_configs (walk example_cache [''top'', ''new''] [] (Some ''node'')) ''new'' = None \<and>
   pending_below example_env ''new''"
proof -
  have none: "cluster_configs (walk example_cache [''top'', ''new''] [] (Some ''node'')) ''new'' = None" by code_simp
  then show ?thesis
    using walk_leaves_out_pending [OF refl, of "[''top'', ''new'']" example_cache "[]" "Some ''node''"] by auto
qed

text \<open>
  The state of a watch is what its last resource event says: after a valid resource its value, with the
  last ambient error since then as the note; after a resource error only the error, whatever ambient errors follow.
\<close>

theorem watch_state_latest:
  "fold watch_event (es @ ResourceChanged res # map AmbientError errors) s =
     (case res of
        Inr value \<Rightarrow> WatchReady value (if errors = [] then None else Some (last errors))
      | Inl reason \<Rightarrow> WatchFailed reason)"
proof -
  have ok: "fold watch_event (map AmbientError errors) (WatchReady x n) =
      WatchReady x (if errors = [] then n else Some (last errors))" for x :: 'a and n
    by (induction errors arbitrary: n) auto
  have err: "fold watch_event (map AmbientError errors) (WatchFailed reason :: 'a WatchState) = WatchFailed reason" for reason
    by (induction errors) auto
  show ?thesis by (cases res) (simp_all add: ok err)
qed

end
