(* ===== verification/Xds_Resources.thy ===== *)
theory Xds_Resources
  imports Xds_Matching Cluster_Graph
begin

text \<open>
  Validation of xDS resources in the \<open>grpc-xds\<close> crate: routes (\<open>resource/route.rs\<close>), endpoints
  (\<open>resource/endpoint.rs\<close>), clusters (\<open>resource/cluster.rs\<close>) and listeners (\<open>resource/listener.rs\<close>), and the
  snapshot they end up in (\<open>xds_config.rs\<close>). The protobuf messages are records of what the generated accessors
  return: an option where the code asks \<open>has_...\<close> or \<open>..._opt\<close>, a datatype for a oneof, a list for a repeated
  field, a string of bytes that may not be UTF-8 for a string. What the code parses out of an \<open>Any\<close> and the
  \<open>Debug\<close> texts it puts into messages are the parameters \<open>proto_lib\<close>. Unsigned numbers are naturals; the
  sums are checked against \<open>u32::MAX\<close> by the code. A validation error is its message, an outer \<open>None\<close> a panic.
\<close>

definition U32_MAX :: nat where "U32_MAX = 4294967295"

type_synonym 'a xresult = "(string + 'a) option"

definition xbind :: "'a xresult \<Rightarrow> ('a \<Rightarrow> 'b xresult) \<Rightarrow> 'b xresult" where
  "xbind m f = (case m of None \<Rightarrow> None | Some (Inl e) \<Rightarrow> Some (Inl e) | Some (Inr x) \<Rightarrow> f x)"

definition sbind :: "string + 'a \<Rightarrow> ('a \<Rightarrow> string + 'b) \<Rightarrow> string + 'b" where
  "sbind m f = (case m of Inl e \<Rightarrow> Inl e | Inr x \<Rightarrow> f x)"

fun xcollect :: "('a \<Rightarrow> 'b xresult) \<Rightarrow> 'a list \<Rightarrow> 'b list xresult" where
  "xcollect f [] = Some (Inr [])"
| "xcollect f (x # xs) = xbind (f x) (\<lambda>y. xbind (xcollect f xs) (\<lambda>ys. Some (Inr (y # ys))))"

definition xexpect :: "string \<Rightarrow> (string \<Rightarrow> 'a xresult) \<Rightarrow> 'a xresult" where
  "xexpect s f = (case to_str_expect s of None \<Rightarrow> None | Some s \<Rightarrow> f s)"

section \<open>RouteConfiguration\<close>

record ClusterWeightView =
  cw_name :: string
  cw_weight :: "nat option"

datatype ClusterSpecifierOneof =
    SpecCluster string | SpecWeightedClusters "ClusterWeightView list" | SpecOther

datatype ActionOneof = ActRoute ClusterSpecifierOneof | ActOther

datatype HeaderMatchSpecifierOneof =
    OneExactMatch string | OneSafeRegexMatch string | OneRangeMatch int int | OnePresentMatch bool
  | OnePrefixMatch string | OneSuffixMatch string | OneContainsMatch string | OneStringMatch StringMatcherView
  | OneHeaderNotSet | OneHeaderUnsupported

record HeaderMatcherView =
  hmv_name :: string
  hmv_specifier :: HeaderMatchSpecifierOneof
  hmv_invert_match :: bool

datatype DenominatorType = Hundred | TenThousand | Million | OtherDenominator

record FractionalPercent =
  numerator :: nat
  denominator :: DenominatorType

datatype PathSpecifierOneof =
    OnePrefix string | OnePath string | OneSafeRegex string | OnePathNotSet | OnePathUnsupported

text \<open>\<open>runtime_fraction\<close> is unset, set without its default value, or set with it.\<close>

record RouteMatchView =
  rmv_path :: PathSpecifierOneof
  rmv_case_sensitive :: "bool option"
  rmv_headers :: "HeaderMatcherView list"
  rmv_runtime_fraction :: "FractionalPercent option option"
  rmv_has_query_parameters :: bool

record RouteView =
  rv_match :: "RouteMatchView option"
  rv_action :: ActionOneof

record VirtualHostView =
  vhv_name :: string
  vhv_domains :: "string list"
  vhv_routes :: "RouteView list"

record RouteConfiguration =
  rcm_name :: string
  rcm_virtual_hosts :: "VirtualHostView list"

record 'r RouteConfigResource =
  rc_name :: string
  virtual_hosts :: "'r VirtualHost list"

definition regex_error :: "string \<Rightarrow> string \<Rightarrow> string \<Rightarrow> string" where
  "regex_error what pattern e = ''invalid '' @ what @ '' regex '' @ quoted pattern @ '': '' @ e"

definition validate_header_matcher :: "'r regex_lib \<Rightarrow> HeaderMatcherView \<Rightarrow> 'r HeaderMatcher xresult" where
  "validate_header_matcher X hm =
     (let name = to_ascii_lowercase (to_str_or_default (hmv_name hm));
          string_matcher = map_option (map_sum id HeaderString)
      in if name = [] then Some (Inl ''header matcher name is empty'')
         else xbind
           (case hmv_specifier hm of
              OneExactMatch v \<Rightarrow> xexpect v (\<lambda>v. Some (Inr (HeaderString (sm_exact v False))))
            | OneSafeRegexMatch p \<Rightarrow>
                xexpect p (\<lambda>p. Some (map_sum (regex_error ''header'' p) (\<lambda>r. HeaderString (sm_safe_regex r))
                                       (safe_regex_from_str X p)))
            | OneRangeMatch a b \<Rightarrow> Some (Inr (HeaderRange a b))
            | OnePresentMatch present \<Rightarrow> Some (Inr (if present then HeaderPresent else HeaderAbsent))
            | OnePrefixMatch v \<Rightarrow> xexpect v (\<lambda>v. string_matcher (Some (sm_prefix v False)))
            | OneSuffixMatch v \<Rightarrow> xexpect v (\<lambda>v. string_matcher (Some (sm_suffix v False)))
            | OneContainsMatch v \<Rightarrow> xexpect v (\<lambda>v. string_matcher (Some (sm_contains v False)))
            | OneStringMatch sm \<Rightarrow> string_matcher (sm_from_proto X sm)
            | OneHeaderNotSet \<Rightarrow> Some (Inr HeaderPresent)
            | OneHeaderUnsupported \<Rightarrow> Some (Inl ''unsupported header match specifier''))
           (\<lambda>spec. Some (Inr \<lparr>hm_name = name, match_specifier = spec, invert_match = hmv_invert_match hm\<rparr>)))"

definition validate_fraction :: "FractionalPercent option option \<Rightarrow> (nat option) xresult" where
  "validate_fraction rf =
     (case rf of
        None \<Rightarrow> Some (Inr None)
      | Some None \<Rightarrow> Some (Inl ''runtime_fraction is missing its required default_value'')
      | Some (Some frac) \<Rightarrow>
          (let scale = (case denominator frac of Hundred \<Rightarrow> 10000 | TenThousand \<Rightarrow> 100 | Million \<Rightarrow> 1 | OtherDenominator \<Rightarrow> 1)
           in Some (Inr (Some (min (min (numerator frac * scale) U32_MAX) 1000000)))))"

definition validate_path :: "'r regex_lib \<Rightarrow> PathSpecifierOneof \<Rightarrow> 'r PathSpecifier xresult" where
  "validate_path X ps =
     (case ps of
        OnePrefix p \<Rightarrow> Some (Inr (PathPrefix (to_str_or_default p)))
      | OnePath p \<Rightarrow> Some (Inr (PathExact (to_str_or_default p)))
      | OneSafeRegex r \<Rightarrow>
          (let pattern = to_str_or_default r
           in Some (map_sum (regex_error ''path'' pattern) PathRegex (safe_regex_from_str X pattern)))
      | OnePathNotSet \<Rightarrow> Some (Inl ''route match missing path_specifier'')
      | OnePathUnsupported \<Rightarrow> Some (Inl ''unsupported path specifier variant''))"

definition validate_route_match :: "'r regex_lib \<Rightarrow> RouteMatchView \<Rightarrow> 'r RouteMatch xresult" where
  "validate_route_match X rm =
     xbind (validate_path X (rmv_path rm)) (\<lambda>path.
     xbind (xcollect (validate_header_matcher X) (rmv_headers rm)) (\<lambda>headers.
     xbind (validate_fraction (rmv_runtime_fraction rm)) (\<lambda>fraction.
     Some (Inr \<lparr>path_specifier = path, route_headers = headers,
                case_sensitive = (case rmv_case_sensitive rm of Some b \<Rightarrow> b | None \<Rightarrow> True),
                match_fraction = fraction\<rparr>))))"

text \<open>The loop over the weighted clusters, with the clusters kept so far and the sum of their weights.\<close>

fun weighted_loop :: "ClusterWeightView list \<Rightarrow> WeightedCluster list \<Rightarrow> nat \<Rightarrow> string + WeightedCluster list" where
  "weighted_loop [] clusters tot = Inr clusters"
| "weighted_loop (c # cs) clusters tot =
     (let weight = (case cw_weight c of Some w \<Rightarrow> w | None \<Rightarrow> 0)
      in if weight = 0 then weighted_loop cs clusters tot
         else let name = to_str_or_default (cw_name c)
              in if name = [] then Inl ''weighted cluster name is empty''
                 else if tot + weight > U32_MAX
                 then Inl (''sum of weighted cluster weights exceeds '' @ show_nat U32_MAX)
                 else weighted_loop cs (clusters @ [\<lparr>wc_name = name, wc_weight = weight\<rparr>]) (tot + weight))"

definition validate_route_action :: "ClusterSpecifierOneof \<Rightarrow> string + RouteAction option" where
  "validate_route_action ra =
     (case ra of
        SpecCluster name \<Rightarrow>
          (let name = to_str_or_default name
           in if name = [] then Inl ''cluster name is empty'' else Inr (Some (ActionCluster name)))
      | SpecWeightedClusters wc \<Rightarrow>
          if wc = [] then Inl ''weighted_clusters is empty''
          else sbind (weighted_loop wc [] 0) (\<lambda>clusters.
            if clusters = [] then Inl ''weighted_clusters has no cluster with a non-zero weight''
            else Inr (Some (ActionWeighted clusters)))
      | SpecOther \<Rightarrow> Inr None)"

definition validate_route :: "'r regex_lib \<Rightarrow> RouteView \<Rightarrow> ('r Route option) xresult" where
  "validate_route X route =
     (case rv_match route of
        None \<Rightarrow> Some (Inl ''route missing match field'')
      | Some rm \<Rightarrow>
          if rmv_has_query_parameters rm then Some (Inr None)
          else xbind (validate_route_match X rm) (\<lambda>criteria.
            (case rv_action route of
               ActRoute ra \<Rightarrow>
                 (case validate_route_action ra of
                    Inl e \<Rightarrow> Some (Inl e)
                  | Inr None \<Rightarrow> Some (Inr None)
                  | Inr (Some action) \<Rightarrow> Some (Inr (Some \<lparr>route_match = criteria, route_action = action\<rparr>)))
             | ActOther \<Rightarrow> Some (Inl ''only route action is supported for client routing''))))"

definition validate_domain :: "string \<Rightarrow> string \<Rightarrow> DomainMatcher xresult" where
  "validate_domain name d =
     xexpect d (\<lambda>domain. Some (map_sum
       (\<lambda>_. ''invalid domain pattern '' @ quoted domain @ '' in virtual host '' @ quoted name) id
       (domain_try_from domain)))"

definition validate_virtual_host :: "'r regex_lib \<Rightarrow> VirtualHostView \<Rightarrow> 'r VirtualHost xresult" where
  "validate_virtual_host X vh =
     (let name = to_str_or_default (vhv_name vh)
      in if vhv_domains vh = [] then Some (Inl (''virtual host '' @ quoted name @ '' has no domains''))
         else xbind (xcollect (validate_domain name) (vhv_domains vh)) (\<lambda>domains.
              xbind (xcollect (validate_route X) (vhv_routes vh)) (\<lambda>routes.
              Some (Inr \<lparr>vh_name = name, domains = domains, routes = List.map_filter id routes\<rparr>))))"

definition validate_route_config :: "'r regex_lib \<Rightarrow> RouteConfiguration \<Rightarrow> 'r RouteConfigResource xresult" where
  "validate_route_config X message =
     xbind (xcollect (validate_virtual_host X) (rcm_virtual_hosts message)) (\<lambda>hosts.
       Some (Inr \<lparr>rc_name = to_str_or_default (rcm_name message), virtual_hosts = hosts\<rparr>))"

fun action_clusters :: "RouteAction \<Rightarrow> string list" where
  "action_clusters (ActionCluster name) = [name]"
| "action_clusters (ActionWeighted wcs) = map wc_name wcs"

definition cluster_names :: "'r VirtualHost \<Rightarrow> string set" where
  "cluster_names vh = foldl (\<lambda>clusters route. foldl (\<lambda>cs name. insert name cs) clusters (action_clusters (route_action route)))
     {} (routes vh)"

section \<open>ClusterLoadAssignment\<close>

record Locality =
  region :: string
  zone :: string
  sub_zone :: string

record EndpointAddress =
  ep_host :: string
  ep_port :: "16 word"

datatype EnvoyHealthStatus =
    EnvoyUnknown | EnvoyHealthy | EnvoyUnhealthy | EnvoyDraining | EnvoyTimeout | EnvoyDegraded | EnvoyOther int

datatype HealthStatus = HealthUnknown | Healthy | Unhealthy | Draining | Degraded | HealthOther int

fun health_status_from :: "EnvoyHealthStatus \<Rightarrow> HealthStatus" where
  "health_status_from EnvoyUnknown = HealthUnknown"
| "health_status_from EnvoyHealthy = Healthy"
| "health_status_from EnvoyUnhealthy = Unhealthy"
| "health_status_from EnvoyTimeout = Unhealthy"
| "health_status_from EnvoyDraining = Draining"
| "health_status_from EnvoyDegraded = Degraded"
| "health_status_from (EnvoyOther n) = HealthOther n"

record LbEndpoint =
  le_address :: EndpointAddress
  le_health_status :: HealthStatus
  le_weight :: nat

record LocalityLbEndpoints =
  ll_locality :: Locality
  ll_endpoints :: "LbEndpoint list"
  ll_weight :: nat
  ll_priority :: nat

record EndpointsResource =
  er_cluster_name :: string
  localities :: "LocalityLbEndpoints list"

text \<open>The messages; an endpoint's address may be missing, or not a socket address.\<close>

record SocketAddressView =
  sa_address :: string
  sa_port_value :: "nat option"
  sa_resolver_name :: string

datatype HostIdentifierOneof = HostEndpoint "SocketAddressView option option" | HostOther

record LbEndpointView =
  lev_health_status :: EnvoyHealthStatus
  lev_host_identifier :: HostIdentifierOneof
  lev_weight :: "nat option"

record LocalityLbEndpointsView =
  llv_locality :: "Locality option"
  llv_weight :: nat
  llv_priority :: nat
  llv_endpoints :: "LbEndpointView list"

record ClusterLoadAssignment =
  cla_cluster_name :: string
  cla_endpoints :: "LocalityLbEndpointsView list"

definition port_value :: "SocketAddressView \<Rightarrow> nat" where
  "port_value sa = (case sa_port_value sa of Some p \<Rightarrow> p | None \<Rightarrow> 0)"

definition u16_try_from :: "nat \<Rightarrow> (16 word) option" where
  "u16_try_from n = (if n < 65536 then Some (of_nat n) else None)"

definition validate_lb_endpoint :: "LbEndpointView \<Rightarrow> string + LbEndpoint option" where
  "validate_lb_endpoint lb_ep =
     (case lev_host_identifier lb_ep of
        HostOther \<Rightarrow> Inr None
      | HostEndpoint None \<Rightarrow> Inl ''endpoint missing address''
      | HostEndpoint (Some None) \<Rightarrow> Inl ''only socket addresses are supported for gRPC endpoints''
      | HostEndpoint (Some (Some sa)) \<Rightarrow>
          if sa_port_value sa = None then Inl ''endpoint address missing numeric port''
          else let host = to_str_or_default (sa_address sa)
               in if host = [] then Inl ''endpoint address is empty''
                  else (case u16_try_from (port_value sa) of
                    None \<Rightarrow> Inl (''endpoint port is out of range: '' @ show_nat (port_value sa))
                  | Some port \<Rightarrow>
                      (case lev_weight lb_ep of
                         Some 0 \<Rightarrow> Inl ''endpoint has a zero load_balancing_weight''
                       | w \<Rightarrow> Inr (Some \<lparr>le_address = \<lparr>ep_host = host, ep_port = port\<rparr>,
                                          le_health_status = health_status_from (lev_health_status lb_ep),
                                          le_weight = (case w of Some n \<Rightarrow> n | None \<Rightarrow> 1)\<rparr>))))"

definition decode_locality :: "Locality \<Rightarrow> Locality" where
  "decode_locality l =
     \<lparr>region = to_str_or_default (region l), zone = to_str_or_default (zone l), sub_zone = to_str_or_default (sub_zone l)\<rparr>"

text \<open>The messages of clusters and listeners. A config source is given by whether it is ADS or Self.\<close>

datatype DiscoveryType = TypeEds | TypeLogicalDns | TypeOther int

record AnyView =
  any_type_url :: string
  any_value :: "byte list"

record CustomClusterTypeView =
  cct_name :: string
  cct_typed_config :: "AnyView option"

datatype ClusterDiscoveryTypeOneof = OneType DiscoveryType | OneClusterType CustomClusterTypeView | OneDiscoveryNotSet

record ClusterMessage =
  cm_name :: string
  cm_discovery_type :: ClusterDiscoveryTypeOneof
  cm_eds_config :: "bool option"
  cm_eds_service_name :: string
  cm_load_assignment :: "ClusterLoadAssignment option"

datatype RouteSpecifierOneof =
    RouteRds "bool option" string | RouteInline RouteConfiguration | RouteScoped | RouteNotSet

record ListenerMessage =
  lm_name :: string
  lm_api_listener :: "AnyView option option"

text \<open>The texts that \<open>Debug\<close> and \<open>Display\<close> make for messages, and the parsers of embedded messages.\<close>

record proto_lib =
  debug_locality :: "Locality \<Rightarrow> string"
  debug_discovery_type :: "ClusterDiscoveryTypeOneof \<Rightarrow> string"
  show_proto_str :: "string \<Rightarrow> string"
  parse_aggregate :: "byte list \<Rightarrow> string + string list"
  parse_hcm :: "byte list \<Rightarrow> string + RouteSpecifierOneof"

fun endpoints_loop ::
  "proto_lib \<Rightarrow> Locality \<Rightarrow> LbEndpointView list \<Rightarrow> LbEndpoint list \<Rightarrow> nat \<Rightarrow> EndpointAddress set \<Rightarrow>
   string + LbEndpoint list \<times> EndpointAddress set" where
  "endpoints_loop P loc [] endpoints wsum seen = Inr (endpoints, seen)"
| "endpoints_loop P loc (lb_ep # rest) endpoints wsum seen =
     (case validate_lb_endpoint lb_ep of
        Inl e \<Rightarrow> Inl e
      | Inr None \<Rightarrow> endpoints_loop P loc rest endpoints wsum seen
      | Inr (Some ep) \<Rightarrow>
          if wsum + le_weight ep > U32_MAX
          then Inl (''sum of endpoint weights in locality '' @ debug_locality P loc @ '' exceeds '' @ show_nat U32_MAX)
          else if le_address ep \<in> seen
          then Inl (''duplicate endpoint address '' @ ep_host (le_address ep) @ '':'' @ show_nat (unat (ep_port (le_address ep))))
          else endpoints_loop P loc rest (endpoints @ [ep]) (wsum + le_weight ep) (insert (le_address ep) seen))"

text \<open>The variables that the loop over the localities updates.\<close>

record eds_locals =
  out_localities :: "LocalityLbEndpoints list"
  seen_addresses :: "EndpointAddress set"
  seen_localities :: "(Locality \<times> nat) set"
  weight_sums :: "nat \<Rightarrow> nat"

definition locality_step :: "proto_lib \<Rightarrow> LocalityLbEndpointsView \<Rightarrow> eds_locals \<Rightarrow> string + eds_locals" where
  "locality_step P le s =
     (case llv_locality le of
        None \<Rightarrow> Inl ''ClusterLoadAssignment contains a locality without an ID''
      | Some l \<Rightarrow>
          (let loc = decode_locality l; weight = llv_weight le; priority = llv_priority le
           in if weight = 0 then Inr s
              else let wsum = weight_sums s priority + weight
                   in if wsum > U32_MAX
                      then Inl (''sum of locality weights at priority '' @ show_nat priority @ '' exceeds '' @ show_nat U32_MAX)
                      else if (loc, priority) \<in> seen_localities s
                      then Inl (''duplicate locality '' @ debug_locality P loc @ '' at priority '' @ show_nat priority)
                      else sbind (endpoints_loop P loc (llv_endpoints le) [] 0 (seen_addresses s)) (\<lambda>(endpoints, seen).
                        Inr \<lparr>out_localities = out_localities s @ [\<lparr>ll_locality = loc, ll_endpoints = endpoints,
                                                   ll_weight = weight, ll_priority = priority\<rparr>],
                             seen_addresses = seen, seen_localities = insert (loc, priority) (seen_localities s),
                             weight_sums = (weight_sums s)(priority := wsum)\<rparr>)))"

fun localities_loop :: "proto_lib \<Rightarrow> LocalityLbEndpointsView list \<Rightarrow> eds_locals \<Rightarrow> string + eds_locals" where
  "localities_loop P [] s = Inr s"
| "localities_loop P (le # les) s = sbind (locality_step P le s) (localities_loop P les)"

definition validate_endpoints :: "proto_lib \<Rightarrow> ClusterLoadAssignment \<Rightarrow> string + EndpointsResource" where
  "validate_endpoints P message =
     (let cluster_name = to_str_or_default (cla_cluster_name message)
      in if cluster_name = [] then Inl ''ClusterLoadAssignment missing cluster_name''
         else sbind (localities_loop P (cla_endpoints message)
                \<lparr>out_localities = [], seen_addresses = {}, seen_localities = {}, weight_sums = (\<lambda>_. 0)\<rparr>) (\<lambda>s.
           (let priorities = set (map ll_priority (out_localities s))
            in case find (\<lambda>p. p \<notin> priorities) [0..<card priorities] of
                 Some p \<Rightarrow> Inl (''priority '' @ show_nat p @ '' missing from ClusterLoadAssignment'')
               | None \<Rightarrow> Inr \<lparr>er_cluster_name = cluster_name, localities = out_localities s\<rparr>)))"

definition healthy_endpoints :: "EndpointsResource \<Rightarrow> LbEndpoint list" where
  "healthy_endpoints r =
     filter (\<lambda>e. le_health_status e = HealthUnknown \<or> le_health_status e = Healthy)
       (concat (map ll_endpoints (localities r)))"

section \<open>Cluster\<close>

definition AGGREGATE_CLUSTER_NAME :: string where
  "AGGREGATE_CLUSTER_NAME = ''envoy.clusters.aggregate''"

definition AGGREGATE_CLUSTER_CONFIG_TYPE_URL :: string where
  "AGGREGATE_CLUSTER_CONFIG_TYPE_URL = ''type.googleapis.com/envoy.extensions.clusters.aggregate.v3.ClusterConfig''"

definition cds_eds :: string where "cds_eds = ''CDS'' @ [CHR 0x27] @ ''s EDS ''"

definition validate_eds_discovery :: "ClusterMessage \<Rightarrow> string \<Rightarrow> string + ClusterDiscovery" where
  "validate_eds_discovery message cluster =
     (case cm_eds_config message of
        None \<Rightarrow> Inl (cds_eds @ ''config source is not set'')
      | Some False \<Rightarrow> Inl (cds_eds @ ''config source is not ADS or Self'')
      | Some True \<Rightarrow>
          (let eds_service_name = to_str_or_default (cm_eds_service_name message)
           in if eds_service_name = [] then
                if starts_with cluster ''xdstp:''
                then Inl (cds_eds @ ''service name is not set with a new-style cluster name'')
                else Inr (Eds cluster)
              else Inr (Eds eds_service_name)))"

definition socket_not_set :: string where
  "socket_not_set = ''socket address for endpoint for LOGICAL_DNS cluster not set''"

definition validate_dns_endpoint :: "proto_lib \<Rightarrow> LbEndpointView \<Rightarrow> string + ClusterDiscovery" where
  "validate_dns_endpoint P lb_endpoint =
     (case lev_host_identifier lb_endpoint of
        HostOther \<Rightarrow> Inl ''endpoint for LOGICAL_DNS cluster not set''
      | HostEndpoint None \<Rightarrow> Inl socket_not_set
      | HostEndpoint (Some None) \<Rightarrow> Inl socket_not_set
      | HostEndpoint (Some (Some sa)) \<Rightarrow>
          if sa_resolver_name sa \<noteq> [] then
            Inl (''socket address for endpoint for LOGICAL_DNS cluster has unexpected custom resolver name: '' @
                 show_proto_str P (sa_resolver_name sa))
          else let hostname = to_str_or_default (sa_address sa); port = port_value sa
               in if hostname = [] then Inl ''host for endpoint for LOGICAL_DNS cluster not set''
                  else if port = 0 then Inl ''port for endpoint for LOGICAL_DNS cluster not set''
                  else (case u16_try_from port of
                          None \<Rightarrow> Inl (''port for endpoint for LOGICAL_DNS cluster is out of range: '' @ show_nat port)
                        | Some port \<Rightarrow> Inr (LogicalDns hostname port)))"

definition validate_logical_dns_discovery :: "proto_lib \<Rightarrow> ClusterMessage \<Rightarrow> string + ClusterDiscovery" where
  "validate_logical_dns_discovery P message =
     (case cm_load_assignment message of
        None \<Rightarrow> Inl ''load_assignment not present for LOGICAL_DNS cluster''
      | Some la \<Rightarrow>
          (case cla_endpoints la of
             [locality] \<Rightarrow>
               (case llv_endpoints locality of
                  [lb_endpoint] \<Rightarrow> validate_dns_endpoint P lb_endpoint
                | lb_endpoints \<Rightarrow>
                    Inl (''locality for LOGICAL_DNS cluster must have exactly one endpoint, got '' @
                         show_nat (length lb_endpoints)))
           | ls \<Rightarrow> Inl (''load_assignment for LOGICAL_DNS cluster must have exactly one locality, got '' @
                        show_nat (length ls))))"

definition validate_aggregate_discovery :: "proto_lib \<Rightarrow> CustomClusterTypeView \<Rightarrow> string + ClusterDiscovery" where
  "validate_aggregate_discovery P custom =
     (case cct_typed_config custom of
        None \<Rightarrow> Inl ''aggregate cluster missing typed_config''
      | Some any \<Rightarrow>
          (let type_url = to_str_or_default (any_type_url any)
           in if type_url \<noteq> AGGREGATE_CLUSTER_CONFIG_TYPE_URL
              then Inl (''unexpected aggregate cluster typed_config type_url: '' @ quoted type_url)
              else case parse_aggregate P (any_value any) of
                     Inl e \<Rightarrow> Inl (''failed to unmarshal aggregate cluster config: '' @ e)
                   | Inr clusters \<Rightarrow>
                       (let cs = map to_str_or_default clusters
                        in if cs = [] then Inl ''aggregate cluster has empty clusters field in response''
                           else Inr (Aggregate cs))))"

definition validate_cluster :: "proto_lib \<Rightarrow> ClusterMessage \<Rightarrow> string + ClusterResource" where
  "validate_cluster P message =
     (let name = to_str_or_default (cm_name message);
          unsupported = Inl (''unsupported cluster discovery type: '' @ debug_discovery_type P (cm_discovery_type message))
      in if name = [] then Inl ''cluster name is empty''
         else sbind
           (case cm_discovery_type message of
              OneType TypeEds \<Rightarrow> validate_eds_discovery message name
            | OneType TypeLogicalDns \<Rightarrow> validate_logical_dns_discovery P message
            | OneClusterType custom \<Rightarrow>
                if to_str_or_default (cct_name custom) = AGGREGATE_CLUSTER_NAME
                then validate_aggregate_discovery P custom else unsupported
            | _ \<Rightarrow> unsupported)
           (\<lambda>d. Inr \<lparr>cluster_name = name, discovery = d\<rparr>))"

section \<open>Listener\<close>

text \<open>
  An \<open>Arc\<close> of a route configuration is its content with the identity of its allocation, which \<open>Arc::ptr_eq\<close>
  compares; the identity of a new one is an argument of \<open>validate_listener\<close>.
\<close>

record 'a arc =
  arc_ptr :: nat
  arc_value :: 'a

datatype 'r RouteSource = Rds string | Inline "'r RouteConfigResource arc"

record 'r ListenerResource =
  listener_name :: string
  route_source :: "'r RouteSource"

definition HTTP_CONNECTION_MANAGER_TYPE_URL :: string where
  "HTTP_CONNECTION_MANAGER_TYPE_URL = ''type.googleapis.com/envoy.extensions.filters.network.http_connection_manager.v3.HttpConnectionManager''"

definition validate_route_source :: "'r regex_lib \<Rightarrow> nat \<Rightarrow> RouteSpecifierOneof \<Rightarrow> 'r RouteSource xresult" where
  "validate_route_source X fresh spec =
     (case spec of
        RouteRds config_source rname \<Rightarrow>
          (case config_source of
             None \<Rightarrow> Some (Inl ''RDS config_source is not set'')
           | Some False \<Rightarrow> Some (Inl ''RDS config_source is not ADS or Self'')
           | Some True \<Rightarrow>
               (let rname = to_str_or_default rname
                in if rname = [] then Some (Inl ''RDS route_config_name is empty'') else Some (Inr (Rds rname))))
      | RouteInline route_config \<Rightarrow>
          xbind (validate_route_config X route_config) (\<lambda>v. Some (Inr (Inline \<lparr>arc_ptr = fresh, arc_value = v\<rparr>)))
      | RouteScoped \<Rightarrow> Some (Inl ''scoped_routes not supported for gRPC'')
      | RouteNotSet \<Rightarrow> Some (Inl ''HttpConnectionManager missing route_specifier''))"

definition validate_listener :: "'r regex_lib \<Rightarrow> proto_lib \<Rightarrow> nat \<Rightarrow> ListenerMessage \<Rightarrow> 'r ListenerResource xresult" where
  "validate_listener X P fresh message =
     (let name = to_str_or_default (lm_name message)
      in if name = [] then Some (Inl ''listener name is empty'')
         else case lm_api_listener message of
                None \<Rightarrow> Some (Inl ''listener missing api_listener field'')
              | Some None \<Rightarrow> Some (Inl ''api_listener missing inner api_listener Any field'')
              | Some (Some any) \<Rightarrow>
                  (let type_url = to_str_or_default (any_type_url any)
                   in if type_url \<noteq> HTTP_CONNECTION_MANAGER_TYPE_URL
                      then Some (Inl (''unexpected api_listener type_url: '' @ quoted type_url))
                      else case parse_hcm P (any_value any) of
                             Inl e \<Rightarrow> Some (Inl (''failed to decode HttpConnectionManager: '' @ e))
                           | Inr spec \<Rightarrow>
                               xbind (validate_route_source X fresh spec) (\<lambda>src.
                                 Some (Inr \<lparr>listener_name = name, route_source = src\<rparr>))))"

definition route_config_name :: "'r ListenerResource \<Rightarrow> string option" where
  "route_config_name l = (case route_source l of Rds name \<Rightarrow> Some name | Inline _ \<Rightarrow> None)"

section \<open>The configuration snapshot\<close>

record ('r, 'e, 'd) XdsConfig =
  xc_listener :: "'r ListenerResource"
  xc_route_config :: "'r RouteConfigResource arc"
  virtual_host_index :: nat
  xc_clusters :: "string \<Rightarrow> ('e, 'd) ClusterResult option"

definition try_new ::
  "'r ListenerResource \<Rightarrow> 'r RouteConfigResource arc \<Rightarrow> nat \<Rightarrow> (string \<Rightarrow> ('e, 'd) ClusterResult option) \<Rightarrow>
   ('r, 'e, 'd) XdsConfig option" where
  "try_new listener route_config index clusters =
     (if length (virtual_hosts (arc_value route_config)) \<le> index then None
      else if (case route_source listener of
                 Inline inl \<Rightarrow> arc_ptr inl \<noteq> arc_ptr route_config
               | Rds name \<Rightarrow> name \<noteq> rc_name (arc_value route_config)) then None
      else Some \<lparr>xc_listener = listener, xc_route_config = route_config, virtual_host_index = index,
                 xc_clusters = clusters\<rparr>)"

text \<open>\<open>virtual_host\<close> panics if the index is out of range.\<close>

definition virtual_host :: "('r, 'e, 'd) XdsConfig \<Rightarrow> 'r VirtualHost option" where
  "virtual_host c =
     (let hosts = virtual_hosts (arc_value (xc_route_config c))
      in if virtual_host_index c < length hosts then Some (hosts ! virtual_host_index c) else None)"

section \<open>What validated endpoints satisfy\<close>

definition endpoint_ok :: "LbEndpoint \<Rightarrow> bool" where
  "endpoint_ok e \<longleftrightarrow> ep_host (le_address e) \<noteq> [] \<and> 1 \<le> le_weight e"

definition locality_ok :: "LocalityLbEndpoints \<Rightarrow> bool" where
  "locality_ok l \<longleftrightarrow> 1 \<le> ll_weight l \<and> (\<forall>e \<in> set (ll_endpoints l). endpoint_ok e) \<and>
     sum_list (map le_weight (ll_endpoints l)) \<le> U32_MAX"

abbreviation addresses_of :: "LocalityLbEndpoints list \<Rightarrow> EndpointAddress list" where
  "addresses_of ls \<equiv> concat (map (\<lambda>l. map le_address (ll_endpoints l)) ls)"

abbreviation weight_at :: "LocalityLbEndpoints list \<Rightarrow> nat \<Rightarrow> nat" where
  "weight_at ls p \<equiv> sum_list (map ll_weight (filter (\<lambda>l. ll_priority l = p) ls))"

definition localities_ok :: "LocalityLbEndpoints list \<Rightarrow> bool" where
  "localities_ok ls \<longleftrightarrow> distinct (addresses_of ls) \<and> distinct (map (\<lambda>l. (ll_locality l, ll_priority l)) ls) \<and>
     (\<forall>p. weight_at ls p \<le> U32_MAX) \<and> (\<forall>l \<in> set ls. locality_ok l)"

lemma validate_lb_endpoint_ok: "validate_lb_endpoint v = Inr (Some e) \<Longrightarrow> endpoint_ok e"
  by (auto simp: validate_lb_endpoint_def endpoint_ok_def Let_def
      split: HostIdentifierOneof.splits option.splits if_splits nat.splits)

lemma endpoints_loop_ok:
  assumes "endpoints_loop P loc views acc wsum seen = Inr (es, seen')"
    and "wsum = sum_list (map le_weight acc)" "wsum \<le> U32_MAX"
    and "distinct (map le_address acc)" "set (map le_address acc) \<subseteq> seen" "\<forall>e \<in> set acc. endpoint_ok e"
  shows "\<exists>new. es = acc @ new \<and> distinct (map le_address new) \<and> set (map le_address new) \<inter> seen = {} \<and>
    seen' = seen \<union> set (map le_address new) \<and> (\<forall>e \<in> set es. endpoint_ok e) \<and> sum_list (map le_weight es) \<le> U32_MAX"
  using assms
proof (induction P loc views acc wsum seen rule: endpoints_loop.induct)
  case (1 P loc acc wsum seen)
  then show ?case by auto
next
  case (2 P loc v rest acc wsum seen)
  show ?case
  proof (cases "validate_lb_endpoint v")
    case (Inl e)
    then show ?thesis using 2(3) by simp
  next
    case (Inr r)
    show ?thesis
    proof (cases r)
      case None
      then show ?thesis using 2(1) [OF Inr None] 2(3-8) Inr by simp
    next
      case (Some ep)
      then have ok: "\<not> wsum + le_weight ep > U32_MAX" "le_address ep \<notin> seen"
        and loop: "endpoints_loop P loc rest (acc @ [ep]) (wsum + le_weight ep) (insert (le_address ep) seen) = Inr (es, seen')"
        using 2(3) Inr by (auto split: if_splits)
      have "\<exists>new. es = (acc @ [ep]) @ new \<and> distinct (map le_address new) \<and>
        set (map le_address new) \<inter> insert (le_address ep) seen = {} \<and>
        seen' = insert (le_address ep) seen \<union> set (map le_address new) \<and> (\<forall>e \<in> set es. endpoint_ok e) \<and>
        sum_list (map le_weight es) \<le> U32_MAX"
        using ok 2(4-8) validate_lb_endpoint_ok Inr Some by (intro 2(2) [OF Inr Some _ _ loop]) auto
      then obtain new where "es = acc @ (ep # new)" "distinct (map le_address (ep # new))"
        "set (map le_address (ep # new)) \<inter> seen = {}" "seen' = seen \<union> set (map le_address (ep # new))"
        "\<forall>e \<in> set es. endpoint_ok e" "sum_list (map le_weight es) \<le> U32_MAX"
        using ok(2) by auto
      then show ?thesis by blast
    qed
  qed
qed

definition eds_inv :: "eds_locals \<Rightarrow> bool" where
  "eds_inv s \<longleftrightarrow> localities_ok (out_localities s) \<and> seen_addresses s = set (addresses_of (out_localities s)) \<and>
     seen_localities s = set (map (\<lambda>l. (ll_locality l, ll_priority l)) (out_localities s)) \<and>
     (\<forall>p. weight_sums s p = weight_at (out_localities s) p)"

lemma locality_step_inv:
  assumes inv: "eds_inv s" and step: "locality_step P le s = Inr s'"
  shows "eds_inv s'"
proof -
  obtain l where l: "llv_locality le = Some l" using step by (auto simp: locality_step_def split: option.splits)
  show ?thesis
  proof (cases "llv_weight le = 0")
    case True
    then show ?thesis using step inv l by (simp add: locality_step_def)
  next
    case False
    let ?loc = "decode_locality l" and ?p = "llv_priority le"
    let ?w = "weight_sums s ?p + llv_weight le"
    obtain es seen where w: "?w \<le> U32_MAX" "(?loc, ?p) \<notin> seen_localities s"
      and loop: "endpoints_loop P ?loc (llv_endpoints le) [] 0 (seen_addresses s) = Inr (es, seen)"
      and s': "s' = \<lparr>out_localities = out_localities s @ [\<lparr>ll_locality = ?loc, ll_endpoints = es,
          ll_weight = llv_weight le, ll_priority = ?p\<rparr>],
        seen_addresses = seen, seen_localities = insert (?loc, ?p) (seen_localities s),
        weight_sums = (weight_sums s)(?p := ?w)\<rparr>"
      using step False l
      by (auto simp: locality_step_def sbind_def Let_def split: if_splits sum.splits)
    have "distinct (map le_address es)" "set (map le_address es) \<inter> seen_addresses s = {}"
      "seen = seen_addresses s \<union> set (map le_address es)" "\<forall>e \<in> set es. endpoint_ok e"
      "sum_list (map le_weight es) \<le> U32_MAX"
      using endpoints_loop_ok [OF loop] by auto
    then show ?thesis using inv w False
      by (auto simp: s' eds_inv_def localities_ok_def locality_ok_def)
  qed
qed

lemma localities_loop_inv: "eds_inv s \<Longrightarrow> localities_loop P les s = Inr s' \<Longrightarrow> eds_inv s'"
proof (induction les arbitrary: s)
  case (Cons le les)
  obtain s1 where "locality_step P le s = Inr s1" "localities_loop P les s1 = Inr s'"
    using Cons.prems(2) by (auto simp: sbind_def split: sum.splits)
  then show ?case using Cons.IH locality_step_inv [OF Cons.prems(1)] by blast
qed simp

lemma contiguous:
  assumes "find (\<lambda>p. p \<notin> A) [0..<card A] = None" "finite A"
  shows "A = {0..<card A}"
proof -
  have "{0..<card A} \<subseteq> A" using assms(1) by (auto simp: find_None_iff)
  then show ?thesis using card_subset_eq [OF assms(2), of "{0..<card A}"] by simp
qed

text \<open>
  Property C16. Endpoints that pass validation are well formed as gRFC A27 asks: the cluster has a name, no
  endpoint address occurs twice in the whole resource, no locality twice at a priority, every weight is positive,
  the locality weights of every priority and the endpoint weights of every locality sum to at most
  \<open>u32::MAX\<close>, every endpoint has a host, and the priorities are an initial segment of the naturals.
\<close>

theorem validated_endpoints_ok:
  assumes "validate_endpoints P message = Inr r"
  shows "er_cluster_name r \<noteq> [] \<and> localities_ok (localities r) \<and>
    (\<exists>n. ll_priority ` set (localities r) = {0..<n})"
proof -
  let ?s0 = "\<lparr>out_localities = [], seen_addresses = {}, seen_localities = {}, weight_sums = (\<lambda>_. 0)\<rparr>"
  obtain s where loop: "localities_loop P (cla_endpoints message) ?s0 = Inr s"
    and nm: "to_str_or_default (cla_cluster_name message) \<noteq> []"
    and find: "find (\<lambda>p. p \<notin> set (map ll_priority (out_localities s)))
        [0..<card (set (map ll_priority (out_localities s)))] = None"
    and r: "r = \<lparr>er_cluster_name = to_str_or_default (cla_cluster_name message), localities = out_localities s\<rparr>"
    using assms by (auto simp: validate_endpoints_def sbind_def Let_def split: if_splits sum.splits option.splits)
  have "eds_inv ?s0" by (simp add: eds_inv_def localities_ok_def)
  then have "eds_inv s" using loop by (rule localities_loop_inv)
  moreover have "ll_priority ` set (out_localities s) = {0..<card (ll_priority ` set (out_localities s))}"
    using contiguous [OF find] by simp
  ultimately show ?thesis using r nm by (auto simp: eds_inv_def)
qed

text \<open>For the witnesses, a library that shows nothing and parses nothing but one aggregate cluster.\<close>

definition plain_proto :: proto_lib where
  "plain_proto = \<lparr>debug_locality = (\<lambda>_. ''locality''), debug_discovery_type = (\<lambda>_. ''type''),
     show_proto_str = (\<lambda>s. s), parse_aggregate = (\<lambda>_. Inr [''a'', ''b'']), parse_hcm = (\<lambda>_. Inl ''eof'')\<rparr>"

theorem validated_endpoints_ok_witness:
  "\<exists>r. validate_endpoints plain_proto \<lparr>cla_cluster_name = ''c'', cla_endpoints =
      [\<lparr>llv_locality = Some \<lparr>region = ''r'', zone = [], sub_zone = []\<rparr>, llv_weight = 3, llv_priority = 0, llv_endpoints =
         [\<lparr>lev_health_status = EnvoyHealthy, lev_host_identifier = HostEndpoint (Some (Some
             \<lparr>sa_address = ''h'', sa_port_value = Some 80, sa_resolver_name = []\<rparr>)), lev_weight = None\<rparr>]\<rparr>]\<rparr> = Inr r \<and>
     localities_ok (localities r) \<and> length (localities r) = 1"
proof -
  let ?m = "\<lparr>cla_cluster_name = ''c'', cla_endpoints =
      [\<lparr>llv_locality = Some \<lparr>region = ''r'', zone = [], sub_zone = []\<rparr>, llv_weight = 3, llv_priority = 0, llv_endpoints =
         [\<lparr>lev_health_status = EnvoyHealthy, lev_host_identifier = HostEndpoint (Some (Some
             \<lparr>sa_address = ''h'', sa_port_value = Some 80, sa_resolver_name = []\<rparr>)), lev_weight = None\<rparr>]\<rparr>]\<rparr>"
  have "validate_endpoints plain_proto ?m = Inr \<lparr>er_cluster_name = ''c'', localities =
      [\<lparr>ll_locality = \<lparr>region = ''r'', zone = [], sub_zone = []\<rparr>, ll_endpoints =
          [\<lparr>le_address = \<lparr>ep_host = ''h'', ep_port = 80\<rparr>, le_health_status = Healthy, le_weight = 1\<rparr>],
         ll_weight = 3, ll_priority = 0\<rparr>]\<rparr>"
    by (simp add: validate_endpoints_def to_str_or_default_def proto_str_valid_def sbind_def locality_step_def
        validate_lb_endpoint_def u16_try_from_def port_value_def U32_MAX_def decode_locality_def Let_def)
  from this validated_endpoints_ok [OF this] show ?thesis by simp
qed

section \<open>What validated routes satisfy\<close>

lemma xbind_Inr: "xbind m f = Some (Inr y) \<longleftrightarrow> (\<exists>x. m = Some (Inr x) \<and> f x = Some (Inr y))"
  by (auto simp: xbind_def split: option.splits sum.splits)

lemma sbind_Inr: "sbind m f = Inr y \<longleftrightarrow> (\<exists>x. m = Inr x \<and> f x = Inr y)"
  by (auto simp: sbind_def split: sum.splits)

lemma xcollect_Inr: "xcollect f xs = Some (Inr ys) \<Longrightarrow> y \<in> set ys \<Longrightarrow> \<exists>x \<in> set xs. f x = Some (Inr y)"
  by (induction xs arbitrary: ys) (auto simp: xbind_Inr)

lemma xcollect_length: "xcollect f xs = Some (Inr ys) \<Longrightarrow> length ys = length xs"
  by (induction xs arbitrary: ys) (auto simp: xbind_Inr)

definition header_ok :: "'r HeaderMatcher \<Rightarrow> bool" where
  "header_ok h \<longleftrightarrow> hm_name h \<noteq> [] \<and> to_ascii_lowercase (hm_name h) = hm_name h"

fun action_ok :: "RouteAction \<Rightarrow> bool" where
  "action_ok (ActionCluster name) \<longleftrightarrow> name \<noteq> []"
| "action_ok (ActionWeighted wcs) \<longleftrightarrow> wcs \<noteq> [] \<and> (\<forall>wc \<in> set wcs. wc_name wc \<noteq> [] \<and> 0 < wc_weight wc) \<and>
     sum_list (map wc_weight wcs) \<le> U32_MAX"

fun domain_ok :: "DomainMatcher \<Rightarrow> bool" where
  "domain_ok (DmExact d) \<longleftrightarrow> d \<noteq> [] \<and> to_ascii_lowercase d = d"
| "domain_ok (DmSuffix d) \<longleftrightarrow> d \<noteq> [] \<and> to_ascii_lowercase d = d"
| "domain_ok (DmPrefix d) \<longleftrightarrow> d \<noteq> [] \<and> to_ascii_lowercase d = d"
| "domain_ok DmUniversal \<longleftrightarrow> True"

definition route_ok :: "'r Route \<Rightarrow> bool" where
  "route_ok r \<longleftrightarrow> (\<forall>h \<in> set (route_headers (route_match r)). header_ok h) \<and>
     (\<forall>f. match_fraction (route_match r) = Some f \<longrightarrow> f \<le> 1000000) \<and> action_ok (route_action r)"

definition route_config_ok :: "'r RouteConfigResource \<Rightarrow> bool" where
  "route_config_ok rc \<longleftrightarrow>
     (\<forall>vh \<in> set (virtual_hosts rc). domains vh \<noteq> [] \<and> (\<forall>d \<in> set (domains vh). domain_ok d) \<and>
        (\<forall>r \<in> set (routes vh). route_ok r))"

lemma weighted_loop_ok:
  assumes "weighted_loop cs acc tot = Inr ws" "tot = sum_list (map wc_weight acc)" "tot \<le> U32_MAX"
    and "\<forall>wc \<in> set acc. wc_name wc \<noteq> [] \<and> 0 < wc_weight wc"
  shows "(\<forall>wc \<in> set ws. wc_name wc \<noteq> [] \<and> 0 < wc_weight wc) \<and> sum_list (map wc_weight ws) \<le> U32_MAX"
  using assms
proof (induction cs acc tot rule: weighted_loop.induct)
  case (2 c cs acc tot)
  let ?w = "case cw_weight c of Some w \<Rightarrow> w | None \<Rightarrow> 0" and ?n = "to_str_or_default (cw_name c)"
  show ?case
  proof (cases "?w = 0")
    case True
    then show ?thesis using 2(1) [OF refl True] 2(3-6) by simp
  next
    case False
    then have ok: "?n \<noteq> []" "\<not> tot + ?w > U32_MAX"
      and loop: "weighted_loop cs (acc @ [\<lparr>wc_name = ?n, wc_weight = ?w\<rparr>]) (tot + ?w) = Inr ws"
      using 2(3) by (auto simp: Let_def split: if_splits)
    show ?thesis using 2(2) [OF refl False refl ok loop] 2(4-6) ok False by auto
  qed
qed simp

lemma validate_route_action_ok: "validate_route_action ra = Inr (Some a) \<Longrightarrow> action_ok a"
  using weighted_loop_ok [of _ "[]" 0]
  by (auto simp: validate_route_action_def Let_def sbind_Inr split: ClusterSpecifierOneof.splits if_splits)

lemma validate_header_matcher_ok: "validate_header_matcher X v = Some (Inr h) \<Longrightarrow> header_ok h"
  by (auto simp: validate_header_matcher_def Let_def xbind_Inr header_ok_def split: if_splits)

lemma validate_fraction_ok: "validate_fraction rf = Some (Inr (Some f)) \<Longrightarrow> f \<le> 1000000"
  by (auto simp: validate_fraction_def Let_def split: option.splits)

lemma lower_parts:
  "to_ascii_lowercase (a @ b) = to_ascii_lowercase a @ to_ascii_lowercase b"
  "to_ascii_lowercase (take n s) = take n (to_ascii_lowercase s)"
  "to_ascii_lowercase (drop n s) = drop n (to_ascii_lowercase s)"
  by (simp_all add: to_ascii_lowercase_def take_map drop_map)

lemma domain_try_from_ok:
  assumes "domain_try_from d = Inr m"
  shows "domain_ok m"
proof -
  let ?d = "to_ascii_lowercase d"
  have ne: "?d \<noteq> []" using assms by (auto simp: domain_try_from_def to_ascii_lowercase_def)
  show ?thesis
  proof (cases "find_char (CHR ''*'') ?d")
    case None
    then show ?thesis using assms ne by (auto simp: domain_try_from_def Let_def split: if_splits)
  next
    case (Some i)
    have low: "to_ascii_lowercase (drop n ?d) = drop n ?d" "to_ascii_lowercase (take n ?d) = take n ?d" for n
      by (simp_all add: lower_parts)
    have "i < length ?d" using Some by (simp add: find_char_Some)
    then show ?thesis using assms Some low [of 1] low [of i] ne
      by (cases ?d) (auto simp: domain_try_from_def Let_def split: if_splits)
  qed
qed

lemma validate_domain_ok: "validate_domain name d = Some (Inr m) \<Longrightarrow> domain_ok m"
  by (cases "to_str_expect d"; cases "domain_try_from (the (to_str_expect d))")
    (auto simp: validate_domain_def xexpect_def domain_try_from_ok)

lemma validate_route_match_ok:
  assumes "validate_route_match X v = Some (Inr c)"
  shows "(\<forall>h \<in> set (route_headers c). header_ok h) \<and> (\<forall>f. match_fraction c = Some f \<longrightarrow> f \<le> 1000000)"
proof -
  have hs: "xcollect (validate_header_matcher X) (rmv_headers v) = Some (Inr (route_headers c))"
    and fr: "validate_fraction (rmv_runtime_fraction v) = Some (Inr (match_fraction c))"
    using assms by (auto simp: validate_route_match_def xbind_Inr)
  have "header_ok h" if "h \<in> set (route_headers c)" for h
    using xcollect_Inr [OF hs that] validate_header_matcher_ok by blast
  then show ?thesis using fr validate_fraction_ok by fastforce
qed

lemma validate_route_ok:
  assumes v: "validate_route X v = Some (Inr (Some r))"
  shows "route_ok r"
proof -
  obtain rm where rm: "rv_match v = Some rm" "\<not> rmv_has_query_parameters rm"
    using v by (cases "rv_match v") (auto simp: validate_route_def split: if_splits)
  obtain ra where ra: "rv_action v = ActRoute ra"
    using v rm by (cases "rv_action v") (auto simp: validate_route_def xbind_Inr)
  obtain a where a: "validate_route_action ra = Inr (Some a)"
    using v rm ra by (cases "validate_route_action ra") (auto simp: validate_route_def xbind_Inr split: option.splits)
  obtain c where "validate_route_match X rm = Some (Inr c)" "r = \<lparr>route_match = c, route_action = a\<rparr>"
    using v rm ra a by (auto simp: validate_route_def xbind_Inr)
  then show ?thesis
    using validate_route_match_ok validate_route_action_ok [OF a] by (simp add: route_ok_def)
qed

lemma validate_route_config_ok:
  assumes "validate_route_config X message = Some (Inr rc)"
  shows "route_config_ok rc"
  unfolding route_config_ok_def
proof (intro ballI)
  fix vh
  assume "vh \<in> set (virtual_hosts rc)"
  then obtain v where v: "validate_virtual_host X v = Some (Inr vh)"
    using assms xcollect_Inr by (fastforce simp: validate_route_config_def xbind_Inr)
  then obtain ds rs where ds: "vhv_domains v \<noteq> []" "xcollect (validate_domain (vh_name vh)) (vhv_domains v) = Some (Inr ds)"
    and rs: "xcollect (validate_route X) (vhv_routes v) = Some (Inr rs)"
    and vh: "domains vh = ds" "routes vh = List.map_filter id rs"
    by (auto simp: validate_virtual_host_def Let_def xbind_Inr split: if_splits)
  have "domain_ok d" if "d \<in> set ds" for d
    using xcollect_Inr [OF ds(2) that] validate_domain_ok by blast
  moreover have "route_ok r" if "r \<in> set (routes vh)" for r
  proof -
    have "Some r \<in> set rs" using that by (auto simp: vh(2) set_map_filter)
    then show ?thesis using xcollect_Inr [OF rs] validate_route_ok by blast
  qed
  ultimately show "domains vh \<noteq> [] \<and> (\<forall>d \<in> set (domains vh). domain_ok d) \<and> (\<forall>r \<in> set (routes vh). route_ok r)"
    using xcollect_length [OF ds(2)] ds(1) vh(1) by auto
qed

text \<open>
  Property C31. A route configuration that passes validation is well formed: every virtual host has a domain, domain
  literals are lower case and not empty, header names are lower case (as header matching relies on) and not
  empty, a fraction is at most a million, and the clusters of a weighted action have names, positive weights
  and a sum of weights between one and \<open>u32::MAX\<close>.
\<close>

theorem validated_routes_ok:
  assumes "validate_route_config X message = Some (Inr rc)"
  shows "route_config_ok rc"
  using assms by (rule validate_route_config_ok)

lemma cluster_names_eq: "cluster_names vh = (\<Union>r \<in> set (routes vh). set (action_clusters (route_action r)))"
proof -
  have inner: "foldl (\<lambda>cs name. insert name cs) A ns = A \<union> set ns" for A and ns :: "string list"
    by (induction ns arbitrary: A) auto
  have "foldl (\<lambda>clusters route. foldl (\<lambda>cs name. insert name cs) clusters (action_clusters (route_action route))) A rs =
      A \<union> (\<Union>r \<in> set rs. set (action_clusters (route_action r)))" for A and rs :: "'a Route list"
    by (induction rs arbitrary: A) (auto simp: inner)
  then show ?thesis by (simp add: cluster_names_def)
qed

section \<open>What validated clusters and listeners satisfy\<close>

fun discovery_ok :: "ClusterDiscovery \<Rightarrow> bool" where
  "discovery_ok (Eds svc) \<longleftrightarrow> svc \<noteq> []"
| "discovery_ok (LogicalDns h p) \<longleftrightarrow> h \<noteq> [] \<and> p \<noteq> 0"
| "discovery_ok (Aggregate cs) \<longleftrightarrow> cs \<noteq> []"

lemma u16_try_from_pos: "u16_try_from n = Some p \<Longrightarrow> 0 < n \<Longrightarrow> p \<noteq> 0"
  by (auto simp: u16_try_from_def word_of_nat_eq_0_iff dest!: nat_dvd_not_less split: if_splits)

text \<open>
  A cluster that passes validation has a name, and its discovery is usable: an EDS service name (that of the
  cluster unless the message gives one), a host with a non-zero 16-bit port, or at least one child; a listener has
  a name and either the name of a route configuration or a well-formed inline one.
\<close>

theorem validated_cluster_listener_ok:
  "(\<forall>c. validate_cluster P message = Inr c \<longrightarrow> cluster_name c \<noteq> [] \<and> discovery_ok (discovery c)) \<and>
   (\<forall>l. validate_listener X P fresh lmsg = Some (Inr l) \<longrightarrow>
      listener_name l \<noteq> [] \<and>
      (case route_source l of Rds name \<Rightarrow> name \<noteq> [] | Inline rc \<Rightarrow> route_config_ok (arc_value rc)))"
proof (intro conjI allI impI)
  fix c
  assume c: "validate_cluster P message = Inr c"
  have eds: "validate_eds_discovery m n = Inr d \<Longrightarrow> n \<noteq> [] \<Longrightarrow> discovery_ok d" for m n d
    by (auto simp: validate_eds_discovery_def Let_def split: option.splits bool.splits if_splits)
  have ep: "validate_dns_endpoint P e = Inr d \<Longrightarrow> discovery_ok d" for e d
    using u16_try_from_pos
    by (auto simp: validate_dns_endpoint_def Let_def split: HostIdentifierOneof.splits option.splits if_splits)
  have dns: "validate_logical_dns_discovery P m = Inr d \<Longrightarrow> discovery_ok d" for m d
    using ep by (auto simp: validate_logical_dns_discovery_def split: option.splits list.splits)
  have agg: "validate_aggregate_discovery P cu = Inr d \<Longrightarrow> discovery_ok d" for cu d
    by (auto simp: validate_aggregate_discovery_def Let_def split: option.splits if_splits sum.splits)
  show "cluster_name c \<noteq> []" "discovery_ok (discovery c)"
    using c eds dns agg
    by (auto simp: validate_cluster_def Let_def sbind_Inr
        split: if_splits ClusterDiscoveryTypeOneof.splits DiscoveryType.splits)
next
  fix l
  assume l: "validate_listener X P fresh lmsg = Some (Inr l)"
  have src: "case s of Rds name \<Rightarrow> name \<noteq> [] | Inline rc \<Rightarrow> route_config_ok (arc_value rc)"
    if "validate_route_source X fresh sp = Some (Inr s)" for sp s
    using that validate_route_config_ok
    by (auto simp: validate_route_source_def Let_def xbind_Inr
        split: RouteSpecifierOneof.splits option.splits bool.splits if_splits)
  show "listener_name l \<noteq> []"
    "case route_source l of Rds name \<Rightarrow> name \<noteq> [] | Inline rc \<Rightarrow> route_config_ok (arc_value rc)"
    using l src by (auto simp: validate_listener_def Let_def xbind_Inr split: if_splits option.splits sum.splits)
qed

theorem validated_routes_ok_witness:
  "\<exists>rc. validate_route_config literal_regex \<lparr>rcm_name = ''rc'', rcm_virtual_hosts = [\<lparr>vhv_name = ''vh'', vhv_domains = [''*''],
      vhv_routes = [\<lparr>rv_match = Some \<lparr>rmv_path = OnePrefix ''/'', rmv_case_sensitive = None, rmv_headers =
          [\<lparr>hmv_name = ''X-A'', hmv_specifier = OneHeaderNotSet, hmv_invert_match = False\<rparr>],
          rmv_runtime_fraction = None, rmv_has_query_parameters = False\<rparr>,
        rv_action = ActRoute (SpecCluster ''c'')\<rparr>]\<rparr>]\<rparr> = Some (Inr rc) \<and> route_config_ok rc"
proof -
  let ?m = "\<lparr>rcm_name = ''rc'', rcm_virtual_hosts = [\<lparr>vhv_name = ''vh'', vhv_domains = [''*''],
      vhv_routes = [\<lparr>rv_match = Some \<lparr>rmv_path = OnePrefix ''/'', rmv_case_sensitive = None, rmv_headers =
          [\<lparr>hmv_name = ''X-A'', hmv_specifier = OneHeaderNotSet, hmv_invert_match = False\<rparr>],
          rmv_runtime_fraction = None, rmv_has_query_parameters = False\<rparr>,
        rv_action = ActRoute (SpecCluster ''c'')\<rparr>]\<rparr>]\<rparr>"
  have "validate_route_config literal_regex ?m = Some (Inr \<lparr>rc_name = ''rc'', virtual_hosts =
     [\<lparr>vh_name = ''vh'', domains = [DmUniversal], routes = [\<lparr>route_match = \<lparr>path_specifier = PathPrefix ''/'',
         route_headers = [\<lparr>hm_name = ''x-a'', match_specifier = HeaderPresent, invert_match = False\<rparr>],
         case_sensitive = True, match_fraction = None\<rparr>, route_action = ActionCluster ''c''\<rparr>]\<rparr>]\<rparr>)"
    by code_simp
  from this validated_routes_ok [OF this] show ?thesis by blast
qed

theorem validated_cluster_listener_ok_witness:
  "discovery_ok (Aggregate [''a'', ''b''])"
proof -
  have "validate_cluster plain_proto \<lparr>cm_name = ''agg'', cm_discovery_type = OneClusterType \<lparr>cct_name = AGGREGATE_CLUSTER_NAME,
      cct_typed_config = Some \<lparr>any_type_url = AGGREGATE_CLUSTER_CONFIG_TYPE_URL, any_value = []\<rparr>\<rparr>, cm_eds_config = None,
      cm_eds_service_name = [], cm_load_assignment = None\<rparr> = Inr \<lparr>cluster_name = ''agg'', discovery = Aggregate [''a'', ''b'']\<rparr>"
    by code_simp
  then show ?thesis using validated_cluster_listener_ok [of plain_proto] by fastforce
qed

end
