(* ===== verification/Xds_Worker.thy ===== *)
theory Xds_Worker
  imports Prelude "HOL-Library.AList" "HOL-Library.List_Lexorder" "HOL-Library.Char_ord" "HOL-Library.Product_Lexorder"
begin

text \<open>
  The ADS worker of the xDS client (\<open>xds-client/src/client/worker.rs\<close>) with the messages, resources, events and
  snapshots it handles (\<open>message.rs\<close>, \<open>resource/mod.rs\<close>, \<open>client/watch.rs\<close>, \<open>client/snapshot.rs\<close>, \<open>error.rs\<close>). The
  worker is one task that handles commands one after the other: watchers that come and go, timers, and what the
  transport task reports of the stream. Its effects go to logs: events per watcher channel, requests per stream,
  timers started, measurements, and replies.

  A \<open>HashMap\<close> that the code iterates over is an association list with distinct keys, whose order stands for
  the unspecified order of iteration; the properties are about the entries and not their order. The codec and the
  decoders of resources are parameters, as in the code, where they are type parameters and closures; \<open>SystemTime::now\<close>
  is an input of every command. The transport task may drop the receiver of the requests at any moment: every
  command comes with the number of requests the stream still takes before that.
\<close>

section \<open>Errors, messages and resources\<close>

text \<open>Errors of other crates are kept as their Display text.\<close>

datatype Error =
  Connection string | Stream string | Transport string | CallCredentials string | TlsConfig string | StreamClosed |
  Decode string | Validation string | ResourceDoesNotExist

fun error_to_string :: "Error \<Rightarrow> string" where
  "error_to_string (Connection e) = ''failed to connect: '' @ e"
| "error_to_string (Stream e) = ''stream error: '' @ e"
| "error_to_string (Transport e) = ''transport error: '' @ e"
| "error_to_string (CallCredentials e) = ''call credentials error: '' @ e"
| "error_to_string (TlsConfig e) = ''TLS configuration error: '' @ e"
| "error_to_string StreamClosed = ''stream closed unexpectedly''"
| "error_to_string (Decode e) = ''decode error: '' @ e"
| "error_to_string (Validation e) = ''resource validation failed: '' @ e"
| "error_to_string ResourceDoesNotExist = ''resource does not exist''"

record ResourceAny =
  any_type_url :: string
  any_value :: "byte list"

record ErrorDetail =
  ed_code :: int
  ed_message :: string

record 'n DiscoveryRequest =
  req_version_info :: string
  req_node :: 'n
  req_resource_names :: "string list"
  req_type_url :: string
  req_response_nonce :: string
  req_error_detail :: "ErrorDetail option"

record DiscoveryResponse =
  resp_version_info :: string
  resp_resources :: "ResourceAny list"
  resp_type_url :: string
  resp_nonce :: string

record 'n xds_codec =
  encode_request :: "'n DiscoveryRequest \<Rightarrow> Error + byte list"
  decode_response :: "byte list \<Rightarrow> Error + DiscoveryResponse"

datatype 'r DecodeResult = Success string 'r | ResourceError string Error | TopLevelError Error

record ('m, 'r) Resource =
  TYPE_URL :: string
  ALL_RESOURCES_REQUIRED_IN_SOTW :: bool
  res_deserialize :: "byte list \<Rightarrow> Error + 'm"
  res_name :: "'m \<Rightarrow> string"
  res_validate :: "'m \<Rightarrow> Error + 'r"

definition decode :: "('m, 'r) Resource \<Rightarrow> byte list \<Rightarrow> 'r DecodeResult" where
  "decode T bytes =
     (case res_deserialize T bytes of
        Inl e \<Rightarrow> TopLevelError e
      | Inr message \<Rightarrow>
          (let name = res_name T message
           in case res_validate T message of
                Inr resource \<Rightarrow> Success name resource
              | Inl e \<Rightarrow> ResourceError name e))"

record 'v DecodedResource =
  dr_type_url :: string
  dr_name :: string
  dr_value :: 'v

type_synonym 'v DecoderFn = "byte list \<Rightarrow> 'v DecodedResource DecodeResult"

text \<open>The decoder that \<open>XdsClient::watch\<close> makes for a resource type.\<close>

definition decoder_of :: "('m, 'r) Resource \<Rightarrow> 'r DecoderFn" where
  "decoder_of T bytes =
     (case decode T bytes of
        Success name resource \<Rightarrow>
          Success name \<lparr>dr_type_url = TYPE_URL T, dr_name = name, dr_value = resource\<rparr>
      | ResourceError name e \<Rightarrow> ResourceError name e
      | TopLevelError e \<Rightarrow> TopLevelError e)"

section \<open>Events and snapshots\<close>

text \<open>A \<open>ProcessingDone\<close> is detached or belongs to a response.\<close>

type_synonym ProcessingDone = "nat option"

datatype 'v ResourceEvent =
  ResourceChanged "Error + 'v DecodedResource" ProcessingDone |
  AmbientError Error ProcessingDone

datatype ResourceStatus = StatusRequested | StatusDoesNotExist | StatusAcked | StatusNacked

record AcceptedResource =
  ar_version_info :: string
  ar_resource :: ResourceAny
  ar_last_updated :: nat

record RejectedUpdate =
  ru_version_info :: string
  ru_details :: string
  ru_last_update_attempt :: nat

record ResourceSnapshot =
  rs_type_url :: string
  rs_name :: string
  rs_status :: ResourceStatus
  rs_accepted :: "AcceptedResource option"
  rs_rejected :: "RejectedUpdate option"

section \<open>The cache and the subscriptions of a type\<close>

datatype SubscriptionMode = Wildcard | Named "string list"

fun resource_names_for_request :: "SubscriptionMode \<Rightarrow> string list" where
  "resource_names_for_request Wildcard = []"
| "resource_names_for_request (Named names) = names"

fun mode_includes :: "SubscriptionMode \<Rightarrow> string \<Rightarrow> bool" where
  "mode_includes Wildcard name \<longleftrightarrow> True"
| "mode_includes (Named names) name \<longleftrightarrow> name \<in> set names"

text \<open>The names are a hash set, so two modes are equal if they have the same names.\<close>

fun mode_eq :: "SubscriptionMode \<Rightarrow> SubscriptionMode \<Rightarrow> bool" where
  "mode_eq Wildcard Wildcard \<longleftrightarrow> True"
| "mode_eq (Named a) (Named b) \<longleftrightarrow> set a = set b"
| "mode_eq _ _ \<longleftrightarrow> False"

datatype ResourceState = Requested | Received | NACKed RejectedUpdate | DoesNotExist

fun cache_state_label :: "ResourceState \<Rightarrow> string" where
  "cache_state_label Requested = ''requested''"
| "cache_state_label Received = ''acked''"
| "cache_state_label (NACKed _) = ''nacked''"
| "cache_state_label DoesNotExist = ''does_not_exist''"

fun state_status :: "ResourceState \<Rightarrow> ResourceStatus" where
  "state_status Requested = StatusRequested"
| "state_status Received = StatusAcked"
| "state_status (NACKed _) = StatusNacked"
| "state_status DoesNotExist = StatusDoesNotExist"

record 'v CachedResource =
  cr_state :: ResourceState
  cr_resource :: "'v DecodedResource option"
  cr_accepted :: "AcceptedResource option"

definition cr_requested :: "'v CachedResource" where
  "cr_requested = \<lparr>cr_state = Requested, cr_resource = None, cr_accepted = None\<rparr>"

definition cr_received :: "'v DecodedResource \<Rightarrow> AcceptedResource \<Rightarrow> 'v CachedResource" where
  "cr_received resource accepted = \<lparr>cr_state = Received, cr_resource = Some resource, cr_accepted = Some accepted\<rparr>"

definition cr_does_not_exist :: "AcceptedResource option \<Rightarrow> 'v CachedResource" where
  "cr_does_not_exist accepted = \<lparr>cr_state = DoesNotExist, cr_resource = None, cr_accepted = accepted\<rparr>"

definition cr_nacked :: "RejectedUpdate \<Rightarrow> AcceptedResource option \<Rightarrow> 'v CachedResource" where
  "cr_nacked rejected accepted = \<lparr>cr_state = NACKed rejected, cr_resource = None, cr_accepted = accepted\<rparr>"

definition is_requested :: "'v CachedResource \<Rightarrow> bool" where
  "is_requested c \<longleftrightarrow> cr_state c = Requested"

definition to_event :: "'v CachedResource \<Rightarrow> 'v ResourceEvent option" where
  "to_event c =
     (case cr_state c of
        Received \<Rightarrow> map_option (\<lambda>r. ResourceChanged (Inr r) None) (cr_resource c)
      | DoesNotExist \<Rightarrow> Some (ResourceChanged (Inl ResourceDoesNotExist) None)
      | NACKed rejected \<Rightarrow> Some (ResourceChanged (Inl (Validation (ru_details rejected))) None)
      | Requested \<Rightarrow> None)"

datatype WatcherSubscription = WatchAll | WatchName string

definition from_name :: "string \<Rightarrow> WatcherSubscription" where
  "from_name name = (if name = [] then WatchAll else WatchName name)"

fun subscription_matches :: "WatcherSubscription \<Rightarrow> string \<Rightarrow> bool" where
  "subscription_matches WatchAll resource_name \<longleftrightarrow> True"
| "subscription_matches (WatchName name) resource_name \<longleftrightarrow> name = resource_name"

fun is_wildcard :: "WatcherSubscription \<Rightarrow> bool" where
  "is_wildcard WatchAll \<longleftrightarrow> True"
| "is_wildcard (WatchName _) \<longleftrightarrow> False"

type_synonym WatcherId = nat

text \<open>The channel of a watcher is a number that the log of events uses.\<close>

record WatcherEntry =
  event_tx :: nat
  we_subscription :: WatcherSubscription

record 'v TypeState =
  ts_type_url :: string
  ts_decoder :: "'v DecoderFn"
  ts_version_info :: string
  ts_nonce :: string
  ts_watchers :: "(WatcherId \<times> WatcherEntry) list"
  ts_subscription :: SubscriptionMode
  ts_cache :: "(string \<times> 'v CachedResource) list"
  ts_all_required :: bool

definition type_state_new :: "string \<Rightarrow> 'v DecoderFn \<Rightarrow> bool \<Rightarrow> 'v TypeState" where
  "type_state_new type_url decoder all_required =
     \<lparr>ts_type_url = type_url, ts_decoder = decoder, ts_version_info = [], ts_nonce = [], ts_watchers = [],
      ts_subscription = Named [], ts_cache = [], ts_all_required = all_required\<rparr>"

fun watched_name :: "WatcherSubscription \<Rightarrow> string option" where
  "watched_name (WatchName name) = Some name"
| "watched_name WatchAll = None"

definition watched_names :: "(WatcherId \<times> WatcherEntry) list \<Rightarrow> string list" where
  "watched_names ws = remdups (List.map_filter (\<lambda>(_, entry). watched_name (we_subscription entry)) ws)"

definition recalculate_subscriptions :: "'v TypeState \<Rightarrow> 'v TypeState" where
  "recalculate_subscriptions ts =
     (if list_ex (\<lambda>(_, entry). is_wildcard (we_subscription entry)) (ts_watchers ts)
      then ts\<lparr>ts_subscription := Wildcard\<rparr>
      else ts\<lparr>ts_subscription := Named (watched_names (ts_watchers ts))\<rparr>)"

definition matching_watchers :: "'v TypeState \<Rightarrow> string \<Rightarrow> nat list" where
  "matching_watchers ts name =
     map (event_tx \<circ> snd) (filter (\<lambda>(_, e). subscription_matches (we_subscription e) name) (ts_watchers ts))"

definition ts_snapshot :: "'v TypeState \<Rightarrow> ResourceSnapshot list" where
  "ts_snapshot ts =
     map (\<lambda>(name, cached).
           \<lparr>rs_type_url = ts_type_url ts, rs_name = name, rs_status = state_status (cr_state cached),
            rs_accepted = cr_accepted cached,
            rs_rejected = (case cr_state cached of NACKed rejected \<Rightarrow> Some rejected | _ \<Rightarrow> None)\<rparr>)
       (filter (\<lambda>(name, _). mode_includes (ts_subscription ts) name) (ts_cache ts))"

definition count_label :: "string \<Rightarrow> (string \<times> int) list \<Rightarrow> (string \<times> int) list" where
  "count_label label counts = AList.update label (case_option 0 id (map_of counts label) + 1) counts"

definition resource_state_counts :: "'v TypeState \<Rightarrow> (string \<times> int) list" where
  "resource_state_counts ts = fold (\<lambda>(_, cached). count_label (cache_state_label (cr_state cached))) (ts_cache ts) []"

section \<open>Measurements\<close>

record Measurement =
  instrument :: string
  amount :: int
  attributes :: "(string \<times> string) list"

definition XDS_CLIENT_CONNECTED :: string where "XDS_CLIENT_CONNECTED = ''grpc.xds_client.connected''"
definition XDS_CLIENT_SERVER_FAILURE :: string where "XDS_CLIENT_SERVER_FAILURE = ''grpc.xds_client.server_failure''"
definition XDS_CLIENT_RESOURCE_UPDATES_VALID :: string where
  "XDS_CLIENT_RESOURCE_UPDATES_VALID = ''grpc.xds_client.resource_updates_valid''"
definition XDS_CLIENT_RESOURCE_UPDATES_INVALID :: string where
  "XDS_CLIENT_RESOURCE_UPDATES_INVALID = ''grpc.xds_client.resource_updates_invalid''"
definition XDS_CLIENT_RESOURCES :: string where "XDS_CLIENT_RESOURCES = ''grpc.xds_client.resources''"

text \<open>The handle of the recorder; \<open>measured\<close> is what the recorder, if there is one, was given.\<close>

record RecorderHandle =
  has_recorder :: bool
  attr_target :: string
  attr_server :: string
  resource_counts :: "(string \<times> (string \<times> int) list) list"
  measured :: "Measurement list"

definition recorder_new :: "bool \<Rightarrow> string \<Rightarrow> RecorderHandle" where
  "recorder_new present target =
     \<lparr>has_recorder = present, attr_target = target, attr_server = [], resource_counts = [], measured = []\<rparr>"

definition set_server :: "string \<Rightarrow> RecorderHandle \<Rightarrow> RecorderHandle" where
  "set_server server r = r\<lparr>attr_server := server\<rparr>"

definition connection_attrs :: "RecorderHandle \<Rightarrow> (string \<times> string) list" where
  "connection_attrs r = [(''grpc.target'', attr_target r), (''grpc.xds.server'', attr_server r)]"

definition type_attrs :: "RecorderHandle \<Rightarrow> string \<Rightarrow> (string \<times> string) list" where
  "type_attrs r type_url =
     [(''grpc.target'', attr_target r), (''grpc.xds.server'', attr_server r), (''grpc.xds.resource_type'', type_url)]"

definition TOP_LEVEL_AUTHORITY :: string where "TOP_LEVEL_AUTHORITY = ''#old''"

definition cache_state_attrs :: "RecorderHandle \<Rightarrow> string \<Rightarrow> string \<Rightarrow> (string \<times> string) list" where
  "cache_state_attrs r type_url cache_state =
     [(''grpc.target'', attr_target r), (''grpc.xds.authority'', TOP_LEVEL_AUTHORITY),
      (''grpc.xds.resource_type'', type_url), (''grpc.xds.cache_state'', cache_state)]"

definition measure_to :: "string \<Rightarrow> int \<Rightarrow> (string \<times> string) list \<Rightarrow> RecorderHandle \<Rightarrow> RecorderHandle" where
  "measure_to i v attrs r = r\<lparr>measured := measured r @ [\<lparr>instrument = i, amount = v, attributes = attrs\<rparr>]\<rparr>"

definition record_connected :: "bool \<Rightarrow> RecorderHandle \<Rightarrow> RecorderHandle" where
  "record_connected connected r =
     (if has_recorder r then measure_to XDS_CLIENT_CONNECTED (if connected then 1 else 0) (connection_attrs r) r else r)"

definition record_server_failure :: "RecorderHandle \<Rightarrow> RecorderHandle" where
  "record_server_failure r =
     (if has_recorder r then measure_to XDS_CLIENT_SERVER_FAILURE 1 (connection_attrs r) r else r)"

definition record_resource_updates :: "string \<Rightarrow> nat \<Rightarrow> nat \<Rightarrow> RecorderHandle \<Rightarrow> RecorderHandle" where
  "record_resource_updates type_url valid invalid r =
     (if \<not> has_recorder r then r
      else if valid = 0 \<and> invalid = 0 then r
      else let attrs = type_attrs r type_url;
               r = (if valid > 0 then measure_to XDS_CLIENT_RESOURCE_UPDATES_VALID (int valid) attrs r else r)
           in (if invalid > 0 then measure_to XDS_CLIENT_RESOURCE_UPDATES_INVALID (int invalid) attrs r else r))"

definition sync_resource_counts :: "string \<Rightarrow> (string \<times> int) list \<Rightarrow> RecorderHandle \<Rightarrow> RecorderHandle" where
  "sync_resource_counts type_url counts r =
     (if \<not> has_recorder r then r
      else
        let before = case_option [] id (map_of (resource_counts r) type_url);
            r = fold (\<lambda>(state, count) r.
                   if map_of before state \<noteq> Some count
                   then measure_to XDS_CLIENT_RESOURCES count (cache_state_attrs r type_url state) r else r) counts r;
            r = fold (\<lambda>(state, _) r.
                   if map_of counts state = None
                   then measure_to XDS_CLIENT_RESOURCES 0 (cache_state_attrs r type_url state) r else r) before r
        in r\<lparr>resource_counts := AList.update type_url counts (resource_counts r)\<rparr>)"

section \<open>The worker\<close>

text \<open>
  The timer tasks that were spawned are logged as \<open>sleeps\<close>, with the duration they sleep; dropping the entry of
  a timer cancels it. \<open>room\<close> is the number of requests the current stream still takes; \<open>written\<close> is what went to
  the stream's channel.
\<close>

record ('v, 'n) AdsWorker =
  node :: 'n
  resource_initial_timeout :: "nat option"
  type_states :: "(string \<times> 'v TypeState) list"
  resource_timers :: "((string \<times> string) \<times> 64 word) list"
  next_resource_timer_id :: "64 word"
  recorder :: RecorderHandle
  delivered :: "(nat \<times> 'v ResourceEvent) list"
  written :: "(nat \<times> 'n DiscoveryRequest) list"
  room :: nat
  sleeps :: "(string \<times> string \<times> 64 word \<times> nat) list"

definition worker_new :: "'n \<Rightarrow> nat option \<Rightarrow> string option \<Rightarrow> bool \<Rightarrow> ('v, 'n) AdsWorker" where
  "worker_new n timeout target present =
     \<lparr>node = n, resource_initial_timeout = timeout, type_states = [], resource_timers = [],
      next_resource_timer_id = 0, recorder = recorder_new present (case_option [] id target),
      delivered = [], written = [], room = 0, sleeps = []\<rparr>"

definition set_type :: "string \<Rightarrow> 'v TypeState \<Rightarrow> ('v, 'n) AdsWorker \<Rightarrow> ('v, 'n) AdsWorker" where
  "set_type type_url ts w = w\<lparr>type_states := AList.update type_url ts (type_states w)\<rparr>"

definition send_events :: "nat list \<Rightarrow> 'v ResourceEvent \<Rightarrow> ('v, 'n) AdsWorker \<Rightarrow> ('v, 'n) AdsWorker" where
  "send_events txs event w = w\<lparr>delivered := delivered w @ map (\<lambda>tx. (tx, event)) txs\<rparr>"

definition sync_counts :: "'v TypeState \<Rightarrow> ('v, 'n) AdsWorker \<Rightarrow> ('v, 'n) AdsWorker" where
  "sync_counts ts w = w\<lparr>recorder := sync_resource_counts (ts_type_url ts) (resource_state_counts ts) (recorder w)\<rparr>"

text \<open>Encoding a request and handing it to the stream's channel.\<close>

definition write_request ::
  "'n xds_codec \<Rightarrow> nat \<Rightarrow> 'n DiscoveryRequest \<Rightarrow> ('v, 'n) AdsWorker \<Rightarrow> (Error + unit) \<times> ('v, 'n) AdsWorker" where
  "write_request C sender request w =
     (case encode_request C request of
        Inl e \<Rightarrow> (Inl e, w)
      | Inr bytes \<Rightarrow>
          (if room w = 0 then (Inl StreamClosed, w)
           else (Inr (), w\<lparr>written := written w @ [(sender, request)], room := room w - 1\<rparr>)))"

definition start_resource_timer :: "string \<Rightarrow> string \<Rightarrow> nat \<Rightarrow> ('v, 'n) AdsWorker \<Rightarrow> ('v, 'n) AdsWorker" where
  "start_resource_timer type_url name timeout w =
     (let key = (type_url, name)
      in if map_of (resource_timers w) key \<noteq> None then w
         else let timer_id = next_resource_timer_id w
              in w\<lparr>next_resource_timer_id := timer_id + 1,
                   sleeps := sleeps w @ [(type_url, name, timer_id, timeout)],
                   resource_timers := AList.update key timer_id (resource_timers w)\<rparr>)"

definition pending_names :: "'v TypeState \<Rightarrow> string list" where
  "pending_names ts =
     List.map_filter (\<lambda>(_, watcher). case we_subscription watcher of
         WatchName name \<Rightarrow>
           (case map_of (ts_cache ts) name of
              Some c \<Rightarrow> if is_requested c then Some name else None
            | None \<Rightarrow> None)
       | WatchAll \<Rightarrow> None) (ts_watchers ts)"

definition start_pending_resource_timers :: "string \<Rightarrow> ('v, 'n) AdsWorker \<Rightarrow> ('v, 'n) AdsWorker" where
  "start_pending_resource_timers type_url w =
     (case resource_initial_timeout w of
        None \<Rightarrow> w
      | Some timeout \<Rightarrow>
          (case map_of (type_states w) type_url of
             None \<Rightarrow> w
           | Some ts \<Rightarrow> fold (\<lambda>name. start_resource_timer type_url name timeout) (pending_names ts) w))"

definition send_request ::
  "'n xds_codec \<Rightarrow> nat \<Rightarrow> string \<Rightarrow> ('v, 'n) AdsWorker \<Rightarrow> (Error + unit) \<times> ('v, 'n) AdsWorker" where
  "send_request C sender type_url w =
     (case map_of (type_states w) type_url of
        None \<Rightarrow> (Inr (), w)
      | Some ts \<Rightarrow>
          (case write_request C sender
              \<lparr>req_version_info = ts_version_info ts, req_node = node w,
               req_resource_names = resource_names_for_request (ts_subscription ts), req_type_url = type_url,
               req_response_nonce = ts_nonce ts, req_error_detail = None\<rparr> w of
             (Inl e, w) \<Rightarrow> (Inl e, w)
           | (Inr _, w) \<Rightarrow> (Inr (), start_pending_resource_timers type_url w)))"

fun send_requests ::
  "'n xds_codec \<Rightarrow> nat \<Rightarrow> string list \<Rightarrow> ('v, 'n) AdsWorker \<Rightarrow> (Error + unit) \<times> ('v, 'n) AdsWorker" where
  "send_requests C sender [] w = (Inr (), w)"
| "send_requests C sender (type_url # rest) w =
     (case send_request C sender type_url w of
        (Inl e, w) \<Rightarrow> (Inl e, w)
      | (Inr _, w) \<Rightarrow> send_requests C sender rest w)"

definition send_initial_requests ::
  "'n xds_codec \<Rightarrow> nat \<Rightarrow> ('v, 'n) AdsWorker \<Rightarrow> (Error + unit) \<times> ('v, 'n) AdsWorker" where
  "send_initial_requests C sender w =
     send_requests C sender (map fst (filter (\<lambda>(_, ts). ts_watchers ts \<noteq> []) (type_states w))) w"

subsection \<open>Watchers\<close>

text \<open>A watch: the type, the name, the watcher, its channel, the decoder and whether responses are complete.\<close>

record 'v WatchArgs =
  wa_type_url :: string
  wa_name :: string
  wa_watcher_id :: WatcherId
  wa_event_tx :: nat
  wa_decoder :: "'v DecoderFn"
  wa_all_required :: bool

definition watch_args :: "('m, 'r) Resource \<Rightarrow> string \<Rightarrow> WatcherId \<Rightarrow> nat \<Rightarrow> 'r WatchArgs" where
  "watch_args T name watcher_id tx =
     \<lparr>wa_type_url = TYPE_URL T, wa_name = name, wa_watcher_id = watcher_id, wa_event_tx = tx,
      wa_decoder = decoder_of T, wa_all_required = ALL_RESOURCES_REQUIRED_IN_SOTW T\<rparr>"

definition add_watcher :: "'v WatchArgs \<Rightarrow> ('v, 'n) AdsWorker \<Rightarrow> bool \<times> ('v, 'n) AdsWorker" where
  "add_watcher a w =
     (let ts = (case map_of (type_states w) (wa_type_url a) of
                  Some ts \<Rightarrow> ts
                | None \<Rightarrow> type_state_new (wa_type_url a) (wa_decoder a) (wa_all_required a));
          old_subscription = ts_subscription ts;
          watcher_subscription = from_name (wa_name a);
          (was_new, ts, event) =
            (case watcher_subscription of
               WatchName name \<Rightarrow>
                 (case map_of (ts_cache ts) name of
                    None \<Rightarrow> (True, ts\<lparr>ts_cache := AList.update name cr_requested (ts_cache ts)\<rparr>, to_event (cr_requested :: 'v CachedResource))
                  | Some cached \<Rightarrow> (False, ts, to_event cached))
             | WatchAll \<Rightarrow> (False, ts, None));
          w = (case event of Some e \<Rightarrow> send_events [wa_event_tx a] e w | None \<Rightarrow> w);
          ts = recalculate_subscriptions (ts\<lparr>ts_watchers := AList.update (wa_watcher_id a)
                 \<lparr>event_tx = wa_event_tx a, we_subscription = watcher_subscription\<rparr> (ts_watchers ts)\<rparr>);
          subscriptions_changed = (\<not> mode_eq (ts_subscription ts) old_subscription);
          w = set_type (wa_type_url a) ts w;
          w = (if was_new then sync_counts ts w else w)
      in (subscriptions_changed, w))"

definition remove_watcher :: "WatcherId \<Rightarrow> ('v, 'n) AdsWorker \<Rightarrow> (string \<times> bool) option \<times> ('v, 'n) AdsWorker" where
  "remove_watcher watcher_id w =
     (case find (\<lambda>(_, ts). map_of (ts_watchers ts) watcher_id \<noteq> None) (type_states w) of
        None \<Rightarrow> (None, w)
      | Some (type_url, ts) \<Rightarrow>
          (let old_subscription = ts_subscription ts;
               ts = recalculate_subscriptions (ts\<lparr>ts_watchers := AList.delete watcher_id (ts_watchers ts)\<rparr>);
               subscriptions_changed = (\<not> mode_eq (ts_subscription ts) old_subscription);
               w = (if ts_watchers ts = []
                    then w\<lparr>type_states := AList.delete type_url (type_states w),
                           recorder := sync_resource_counts (ts_type_url ts) [] (recorder w),
                           resource_timers := filter (\<lambda>(key, _). fst key \<noteq> type_url) (resource_timers w)\<rparr>
                    else set_type type_url ts w)
           in (Some (type_url, subscriptions_changed), w)))"

definition handle_resource_timeout :: "string \<Rightarrow> string \<Rightarrow> 64 word \<Rightarrow> ('v, 'n) AdsWorker \<Rightarrow> ('v, 'n) AdsWorker" where
  "handle_resource_timeout type_url name timer_id w =
     (case map_of (resource_timers w) (type_url, name) of
        None \<Rightarrow> w
      | Some i \<Rightarrow>
          (if i \<noteq> timer_id then w
           else
             let w = w\<lparr>resource_timers := AList.delete (type_url, name) (resource_timers w)\<rparr>
             in case map_of (type_states w) type_url of
                  None \<Rightarrow> w
                | Some ts \<Rightarrow>
                    (if \<not> (case map_of (ts_cache ts) name of Some c \<Rightarrow> is_requested c | None \<Rightarrow> True) then w
                     else
                       let ts = ts\<lparr>ts_cache := AList.update name (cr_does_not_exist None) (ts_cache ts)\<rparr>
                       in send_events (matching_watchers ts name) (ResourceChanged (Inl ResourceDoesNotExist) None)
                            (sync_counts ts (set_type type_url ts w)))))"

datatype 'v WatchEvent =
  Watch "'v WatchArgs" | Unwatch WatcherId | ResourceTimerExpired string string "64 word"

fun handle_command ::
  "'n xds_codec \<Rightarrow> nat option \<Rightarrow> 'v WatchEvent \<Rightarrow> ('v, 'n) AdsWorker \<Rightarrow> (Error + unit) \<times> ('v, 'n) AdsWorker" where
  "handle_command C sender (Watch a) w =
     (let (subscriptions_changed, w) = add_watcher a w
      in case sender of
           None \<Rightarrow> (Inr (), w)
         | Some tx \<Rightarrow>
             (if subscriptions_changed then send_request C tx (wa_type_url a) w
              else (Inr (), start_pending_resource_timers (wa_type_url a) w)))"
| "handle_command C sender (Unwatch watcher_id) w =
     (case remove_watcher watcher_id w of
        (Some (type_url, True), w) \<Rightarrow>
          (case sender of None \<Rightarrow> (Inr (), w) | Some tx \<Rightarrow> send_request C tx type_url w)
      | (_, w) \<Rightarrow> (Inr (), w))"
| "handle_command C sender (ResourceTimerExpired type_url name timer_id) w =
     (Inr (), handle_resource_timeout type_url name timer_id w)"

subsection \<open>Responses\<close>

record 'v decoded_response =
  valid_resources :: "('v DecodedResource \<times> AcceptedResource) list"
  top_level_errors :: "string list"
  per_resource_errors :: "(string \<times> string) list"

definition decode_resource ::
  "'v DecoderFn \<Rightarrow> string \<Rightarrow> nat \<Rightarrow> ResourceAny \<Rightarrow> 'v decoded_response \<Rightarrow> 'v decoded_response" where
  "decode_resource decoder version now resource_any d =
     (case decoder (any_value resource_any) of
        Success _ resource \<Rightarrow>
          d\<lparr>valid_resources := valid_resources d @
              [(resource, \<lparr>ar_version_info = version, ar_resource = resource_any, ar_last_updated = now\<rparr>)]\<rparr>
      | ResourceError name error \<Rightarrow>
          d\<lparr>per_resource_errors := per_resource_errors d @ [(name, error_to_string error)]\<rparr>
      | TopLevelError error \<Rightarrow> d\<lparr>top_level_errors := top_level_errors d @ [error_to_string error]\<rparr>)"

definition decode_resources :: "'v DecoderFn \<Rightarrow> nat \<Rightarrow> DiscoveryResponse \<Rightarrow> 'v decoded_response" where
  "decode_resources decoder now response =
     fold (decode_resource decoder (resp_version_info response) now) (resp_resources response)
       \<lparr>valid_resources = [], top_level_errors = [], per_resource_errors = []\<rparr>"

definition nack_error_message :: "string list \<Rightarrow> (string \<times> string) list \<Rightarrow> string option" where
  "nack_error_message top_level per_resource =
     (let error_parts =
            (if top_level \<noteq> [] then [''top level errors: '' @ join_strings ''; '' top_level] else []) @
            (if per_resource \<noteq> [] then [join_strings ''; '' (map (\<lambda>(name, err). name @ '': '' @ err) per_resource)] else [])
      in if error_parts \<noteq> [] then Some (join_strings ''; '' error_parts) else None)"

definition dispatch_resource ::
  "string \<Rightarrow> nat \<Rightarrow> 'v DecodedResource \<times> AcceptedResource \<Rightarrow> 'v TypeState \<times> ('v, 'n) AdsWorker \<Rightarrow>
   'v TypeState \<times> ('v, 'n) AdsWorker" where
  "dispatch_resource type_url done = (\<lambda>(resource, accepted) (ts, w).
     (let name = dr_name resource;
          ts = ts\<lparr>ts_cache := AList.update name (cr_received resource accepted) (ts_cache ts)\<rparr>;
          w = w\<lparr>resource_timers := AList.delete (type_url, name) (resource_timers w)\<rparr>
      in (ts, send_events (matching_watchers ts name) (ResourceChanged (Inr resource) (Some done)) w)))"

definition dispatch_resources ::
  "string \<Rightarrow> ('v DecodedResource \<times> AcceptedResource) list \<Rightarrow> nat \<Rightarrow> ('v, 'n) AdsWorker \<Rightarrow> ('v, 'n) AdsWorker" where
  "dispatch_resources type_url resources done w =
     (case map_of (type_states w) type_url of
        None \<Rightarrow> w
      | Some ts \<Rightarrow>
          (case fold (dispatch_resource type_url done) resources (ts, w) of
             (ts, w) \<Rightarrow> sync_counts ts (set_type type_url ts w)))"

definition notify_resource_error ::
  "string \<Rightarrow> string \<Rightarrow> RejectedUpdate \<Rightarrow> nat \<Rightarrow> ('v, 'n) AdsWorker \<Rightarrow> ('v, 'n) AdsWorker" where
  "notify_resource_error type_url resource_name rejected done w =
     (case map_of (type_states w) type_url of
        None \<Rightarrow> w
      | Some ts \<Rightarrow>
          (let accepted = Option.bind (map_of (ts_cache ts) resource_name) cr_accepted;
               ts = ts\<lparr>ts_cache := AList.update resource_name (cr_nacked rejected accepted)
                                     (AList.delete resource_name (ts_cache ts))\<rparr>;
               w = sync_counts ts (set_type type_url ts w);
               w = w\<lparr>resource_timers := AList.delete (type_url, resource_name) (resource_timers w)\<rparr>
           in send_events (matching_watchers ts resource_name)
                (ResourceChanged (Inl (Validation (ru_details rejected))) (Some done)) w))"

definition delete_resource ::
  "nat \<Rightarrow> string \<Rightarrow> 'v TypeState \<times> ('v, 'n) AdsWorker \<Rightarrow> 'v TypeState \<times> ('v, 'n) AdsWorker" where
  "delete_resource done name = (\<lambda>(ts, w).
     (let accepted = Option.bind (map_of (ts_cache ts) name) cr_accepted;
          ts = ts\<lparr>ts_cache := AList.update name (cr_does_not_exist accepted) (AList.delete name (ts_cache ts))\<rparr>
      in (ts, send_events (matching_watchers ts name) (ResourceChanged (Inl ResourceDoesNotExist) (Some done)) w)))"

definition deleted_names :: "'v TypeState \<Rightarrow> string set \<Rightarrow> string list" where
  "deleted_names ts received_names =
     map fst (filter (\<lambda>(name, cached). cr_state cached = Received \<and> name \<notin> received_names) (ts_cache ts))"

definition detect_deleted_resources :: "string \<Rightarrow> string set \<Rightarrow> nat \<Rightarrow> ('v, 'n) AdsWorker \<Rightarrow> ('v, 'n) AdsWorker" where
  "detect_deleted_resources type_url received_names done w =
     (case map_of (type_states w) type_url of
        None \<Rightarrow> w
      | Some ts \<Rightarrow>
          (if \<not> ts_all_required ts then w
           else case fold (delete_resource done) (deleted_names ts received_names) (ts, w) of
                  (ts, w) \<Rightarrow> sync_counts ts (set_type type_url ts w)))"

definition send_ack ::
  "'n xds_codec \<Rightarrow> nat \<Rightarrow> DiscoveryResponse \<Rightarrow> ('v, 'n) AdsWorker \<Rightarrow> (Error + unit) \<times> ('v, 'n) AdsWorker" where
  "send_ack C sender response w =
     (case map_of (type_states w) (resp_type_url response) of
        None \<Rightarrow> (Inr (), w)
      | Some ts \<Rightarrow>
          write_request C sender
            \<lparr>req_version_info = resp_version_info response, req_node = node w,
             req_resource_names = resource_names_for_request (ts_subscription ts),
             req_type_url = resp_type_url response, req_response_nonce = resp_nonce response,
             req_error_detail = None\<rparr> w)"

definition send_nack ::
  "'n xds_codec \<Rightarrow> nat \<Rightarrow> DiscoveryResponse \<Rightarrow> string \<Rightarrow> ('v, 'n) AdsWorker \<Rightarrow> (Error + unit) \<times> ('v, 'n) AdsWorker" where
  "send_nack C sender response error_message w =
     (case map_of (type_states w) (resp_type_url response) of
        None \<Rightarrow> (Inr (), w)
      | Some ts \<Rightarrow>
          write_request C sender
            \<lparr>req_version_info = ts_version_info ts, req_node = node w,
             req_resource_names = resource_names_for_request (ts_subscription ts),
             req_type_url = resp_type_url response, req_response_nonce = resp_nonce response,
             req_error_detail = Some \<lparr>ed_code = 3, ed_message = error_message\<rparr>\<rparr> w)"

definition map_type :: "string \<Rightarrow> ('v TypeState \<Rightarrow> 'v TypeState) \<Rightarrow> ('v, 'n) AdsWorker \<Rightarrow> ('v, 'n) AdsWorker" where
  "map_type type_url f w =
     (case map_of (type_states w) type_url of None \<Rightarrow> w | Some ts \<Rightarrow> set_type type_url (f ts) w)"

definition handle_response ::
  "'n xds_codec \<Rightarrow> nat \<Rightarrow> nat \<Rightarrow> DiscoveryResponse \<Rightarrow> nat \<Rightarrow> ('v, 'n) AdsWorker \<Rightarrow> (Error + unit) \<times> ('v, 'n) AdsWorker" where
  "handle_response C now sender response done w =
     (let type_url = resp_type_url response
      in case map_of (type_states w) type_url of
           None \<Rightarrow> (Inr (), w)
         | Some ts \<Rightarrow>
             (let d = decode_resources (ts_decoder ts) now response;
                  w = w\<lparr>recorder := record_resource_updates (ts_type_url ts) (length (valid_resources d))
                         (length (top_level_errors d) + length (per_resource_errors d)) (recorder w)\<rparr>;
                  w = map_type type_url (\<lambda>ts. ts\<lparr>ts_nonce := resp_nonce response\<rparr>) w;
                  received_names = set (map (dr_name \<circ> fst) (valid_resources d));
                  nack_error = nack_error_message (top_level_errors d) (per_resource_errors d);
                  w = dispatch_resources type_url (valid_resources d) done w;
                  w = fold (\<lambda>(resource_name, error).
                         notify_resource_error type_url resource_name
                           \<lparr>ru_version_info = resp_version_info response, ru_details = error, ru_last_update_attempt = now\<rparr> done)
                         (per_resource_errors d) w;
                  w = detect_deleted_resources type_url received_names done w
              in case nack_error of
                   None \<Rightarrow>
                     send_ack C sender response
                       (map_type type_url (\<lambda>ts. ts\<lparr>ts_version_info := resp_version_info response\<rparr>) w)
                 | Some error \<Rightarrow> send_nack C sender response error w))"

subsection \<open>The stream and the event loop\<close>

text \<open>\<open>cancel\<close> is whether the stream's cancellation handle is still held; a stream without it is retired.\<close>

record ActiveStream =
  writes :: nat
  cancel :: bool
  saw_response :: bool

record StreamContext =
  healthy :: bool
  session :: "ActiveStream option"

datatype TransportEvent = TransportReady nat | TransportResponse "byte list" nat | TransportFailed

datatype 'v WorkerCommand =
  Watcher "'v WatchEvent" | TransportEvt TransportEvent | TransportStopped | Snapshot nat

text \<open>
  The worker with the variables of its loop: the stream, whether the transport task was spawned and whether the loop
  runs. The answers to \<open>Failed\<close> events and the replies to snapshot requests are logged.
\<close>

record ('v, 'n) Actor =
  worker :: "('v, 'n) AdsWorker"
  stream_context :: StreamContext
  transport_spawned :: bool
  running :: bool
  failed_replies :: "bool list"
  snapshot_replies :: "(nat \<times> ResourceSnapshot list) list"

definition record_healthy :: "bool \<Rightarrow> ('v, 'n) AdsWorker \<Rightarrow> bool \<times> ('v, 'n) AdsWorker" where
  "record_healthy h w = (if \<not> h then (True, w\<lparr>recorder := record_connected True (recorder w)\<rparr>) else (h, w))"

definition record_unhealthy :: "bool \<Rightarrow> ('v, 'n) AdsWorker \<Rightarrow> bool \<times> ('v, 'n) AdsWorker" where
  "record_unhealthy h w =
     (if h then (False, w\<lparr>recorder := record_connected False (record_server_failure (recorder w))\<rparr>) else (h, w))"

definition live_session :: "StreamContext \<Rightarrow> ActiveStream option" where
  "live_session c = (case session c of Some s \<Rightarrow> if cancel s then Some s else None | None \<Rightarrow> None)"

fun handle_transport_event ::
  "'n xds_codec \<Rightarrow> nat \<Rightarrow> TransportEvent \<Rightarrow> ('v, 'n) Actor \<Rightarrow> (Error + unit) \<times> ('v, 'n) Actor" where
  "handle_transport_event C now (TransportReady tx) a =
     (let w = worker a;
          w = w\<lparr>type_states := map (\<lambda>(type_url, ts). (type_url, ts\<lparr>ts_nonce := []\<rparr>)) (type_states w)\<rparr>;
          (result, w) = send_initial_requests C tx w
      in (result, a\<lparr>worker := w,
            stream_context := (stream_context a)\<lparr>session := Some \<lparr>writes = tx, cancel = True, saw_response = False\<rparr>\<rparr>\<rparr>))"
| "handle_transport_event C now (TransportResponse bytes done) a =
     (case live_session (stream_context a) of
        None \<Rightarrow> (Inr (), a)
      | Some active \<Rightarrow>
          (case decode_response C bytes of
             Inl e \<Rightarrow> (Inl e, a)
           | Inr response \<Rightarrow>
               (let (h, w) = record_healthy (healthy (stream_context a)) (worker a);
                    (result, w) = handle_response C now (writes active) response done w
                in (result, a\<lparr>worker := w,
                      stream_context := \<lparr>healthy = h, session = Some (active\<lparr>saw_response := True\<rparr>)\<rparr>\<rparr>))))"
| "handle_transport_event C now TransportFailed a =
     (let w = (worker a)\<lparr>resource_timers := []\<rparr>;
          saw = (case session (stream_context a) of Some s \<Rightarrow> saw_response s | None \<Rightarrow> False);
          (h, w) = (if \<not> saw then record_unhealthy (healthy (stream_context a)) w else (healthy (stream_context a), w))
      in (Inr (), a\<lparr>worker := w, stream_context := \<lparr>healthy = h, session = None\<rparr>,
            failed_replies := failed_replies a @ [saw]\<rparr>))"

definition worker_snapshot :: "('v, 'n) AdsWorker \<Rightarrow> ResourceSnapshot list" where
  "worker_snapshot w =
     sort_key (\<lambda>s. (rs_type_url s, rs_name s)) (concat (map (ts_snapshot \<circ> snd) (type_states w)))"

text \<open>Every failure retires the stream.\<close>

definition retire_on_error :: "(Error + unit) \<times> ('v, 'n) Actor \<Rightarrow> ('v, 'n) Actor" where
  "retire_on_error r =
     (case r of
        (Inr _, a) \<Rightarrow> a
      | (Inl _, a) \<Rightarrow>
          (case session (stream_context a) of
             None \<Rightarrow> a
           | Some active \<Rightarrow>
               a\<lparr>worker := (worker a)\<lparr>resource_timers := []\<rparr>,
                 stream_context := (stream_context a)\<lparr>session := Some (active\<lparr>cancel := False\<rparr>)\<rparr>\<rparr>))"

text \<open>What a command meets: the time and the number of requests the stream still takes.\<close>

record input =
  now :: nat
  stream_room :: nat

fun actor_command :: "'n xds_codec \<Rightarrow> input \<Rightarrow> 'v WorkerCommand \<Rightarrow> ('v, 'n) Actor \<Rightarrow> ('v, 'n) Actor" where
  "actor_command C i (Watcher cmd) a =
     (let (result, w) = handle_command C (map_option writes (live_session (stream_context a))) cmd (worker a);
          a = a\<lparr>worker := w, transport_spawned := transport_spawned a \<or> type_states w \<noteq> []\<rparr>
      in retire_on_error (result, a))"
| "actor_command C i (TransportEvt event) a = retire_on_error (handle_transport_event C (now i) event a)"
| "actor_command C i TransportStopped a = a\<lparr>running := False\<rparr>"
| "actor_command C i (Snapshot reply) a =
     a\<lparr>snapshot_replies := snapshot_replies a @ [(reply, worker_snapshot (worker a))]\<rparr>"

definition actor_step :: "'n xds_codec \<Rightarrow> input \<times> 'v WorkerCommand \<Rightarrow> ('v, 'n) Actor \<Rightarrow> ('v, 'n) Actor" where
  "actor_step C = (\<lambda>(i, cmd) a.
     (if running a then actor_command C i cmd (a\<lparr>worker := (worker a)\<lparr>room := stream_room i\<rparr>\<rparr>) else a))"

text \<open>The loop up to its first message, and after its last one; without a server the worker returns at once.\<close>

definition actor_start :: "string list \<Rightarrow> ('v, 'n) AdsWorker \<Rightarrow> ('v, 'n) Actor" where
  "actor_start servers w =
     (case servers of
        [] \<Rightarrow> \<lparr>worker = w, stream_context = \<lparr>healthy = False, session = None\<rparr>, transport_spawned = False, running = False,
                failed_replies = [], snapshot_replies = []\<rparr>
      | server # _ \<Rightarrow>
          \<lparr>worker = w\<lparr>recorder := record_connected True (set_server server (recorder w))\<rparr>,
           stream_context = \<lparr>healthy = True, session = None\<rparr>, transport_spawned = False, running = True,
           failed_replies = [], snapshot_replies = []\<rparr>)"

definition actor_finish :: "('v, 'n) Actor \<Rightarrow> ('v, 'n) Actor" where
  "actor_finish a =
     (if healthy (stream_context a)
      then a\<lparr>worker := (worker a)\<lparr>recorder := record_connected False (recorder (worker a))\<rparr>\<rparr>
      else a)"

end
