(* ===== verification/Xds_Worker_Cache.thy ===== *)
theory Xds_Worker_Cache
  imports Xds_Worker
begin

text \<open>
  The invariants of the ADS worker (\<open>xds-client/src/client/worker.rs\<close>): what holds of a type in use, of the timers and
  of the channels, and that the last event of every named watcher is what the cache shows. Every handler that changes
  a cache entry (\<open>dispatch_resources\<close>, \<open>notify_resource_error\<close>, \<open>detect_deleted_resources\<close>, \<open>handle_resource_timeout\<close>) is
  a sequence of one kind of change, \<open>stores\<close>, for which the invariants are proved once.
\<close>

section \<open>What the worker keeps true\<close>

text \<open>The subscription that a set of watchers makes, as \<open>recalculate_subscriptions\<close> computes it.\<close>

definition mode_of :: "(WatcherId \<times> WatcherEntry) list \<Rightarrow> SubscriptionMode" where
  "mode_of ws = (if list_ex (\<lambda>(_, e). is_wildcard (we_subscription e)) ws then Wildcard else Named (watched_names ws))"

lemma recalculate_eq: "recalculate_subscriptions ts = ts\<lparr>ts_subscription := mode_of (ts_watchers ts)\<rparr>"
  by (simp add: recalculate_subscriptions_def mode_of_def)

lemma set_watched_names: "set (watched_names ws) = {n. \<exists>i e. (i, e) \<in> set ws \<and> we_subscription e = WatchName n}"
proof -
  have w: "watched_name s = Some n \<longleftrightarrow> s = WatchName n" for s n by (cases s) auto
  have "set (watched_names ws) = {n. \<exists>i e. (i, e) \<in> set ws \<and> watched_name (we_subscription e) = Some n}"
    by (force simp: watched_names_def List.map_filter_def)
  then show ?thesis unfolding w .
qed

text \<open>
  A type in use has watchers, its subscription is what they ask for, every name they ask for is in the cache, and
  the cache holds a resource exactly for what was received.
\<close>

definition type_ok :: "string \<Rightarrow> 'v TypeState \<Rightarrow> bool" where
  "type_ok url ts \<longleftrightarrow>
     ts_type_url ts = url \<and> ts_watchers ts \<noteq> [] \<and>
     distinct (map fst (ts_watchers ts)) \<and> distinct (map fst (ts_cache ts)) \<and>
     ts_subscription ts = mode_of (ts_watchers ts) \<and>
     (\<forall>(i, e) \<in> set (ts_watchers ts). \<forall>n. we_subscription e = WatchName n \<longrightarrow> n \<noteq> [] \<and> map_of (ts_cache ts) n \<noteq> None) \<and>
     (\<forall>n c. map_of (ts_cache ts) n = Some c \<longrightarrow> (cr_state c = Received \<longleftrightarrow> cr_resource c \<noteq> None))"

definition worker_ok :: "('v, 'n) AdsWorker \<Rightarrow> bool" where
  "worker_ok w \<longleftrightarrow>
     distinct (map fst (type_states w)) \<and> distinct (map fst (resource_timers w)) \<and>
     (\<forall>url ts. map_of (type_states w) url = Some ts \<longrightarrow> type_ok url ts) \<and>
     (\<forall>url n i. map_of (resource_timers w) (url, n) = Some i \<longrightarrow>
        (\<exists>ts c. map_of (type_states w) url = Some ts \<and> map_of (ts_cache ts) n = Some c \<and> is_requested c))"

fun event_result :: "'v ResourceEvent \<Rightarrow> (Error + 'v DecodedResource) option" where
  "event_result (ResourceChanged r _) = Some r"
| "event_result (AmbientError e _) = Some (Inl e)"

text \<open>What the last event on a channel said, and what a cache entry would tell a new watcher.\<close>

definition last_seen :: "nat \<Rightarrow> (nat \<times> 'v ResourceEvent) list \<Rightarrow> (Error + 'v DecodedResource) option" where
  "last_seen tx log = (case rev (filter (\<lambda>(t, _). t = tx) log) of [] \<Rightarrow> None | (_, ev) # _ \<Rightarrow> event_result ev)"

definition shown :: "'v CachedResource \<Rightarrow> (Error + 'v DecodedResource) option" where
  "shown c = (case to_event c of Some ev \<Rightarrow> event_result ev | None \<Rightarrow> None)"

lemma last_seen_append [simp]:
  "last_seen tx (log @ map (\<lambda>t. (t, ev)) txs) = (if tx \<in> set txs then event_result ev else last_seen tx log)"
proof (induction txs rule: rev_induct)
  case Nil
  then show ?case by simp
next
  case (snoc t txs)
  then show ?case by (auto simp: last_seen_def)
qed

lemma last_seen_Nil [simp]: "tx \<notin> fst ` set log \<Longrightarrow> last_seen tx log = None"
proof -
  assume "tx \<notin> fst ` set log"
  then have "filter (\<lambda>(t, _). t = tx) log = []" by (force simp: filter_empty_conv)
  then show ?thesis by (simp add: last_seen_def)
qed

definition consistent :: "('v, 'n) AdsWorker \<Rightarrow> bool" where
  "consistent w \<longleftrightarrow>
     (\<forall>url ts i e n c. map_of (type_states w) url = Some ts \<longrightarrow> (i, e) \<in> set (ts_watchers ts) \<longrightarrow>
        we_subscription e = WatchName n \<longrightarrow> map_of (ts_cache ts) n = Some c \<longrightarrow>
        last_seen (event_tx e) (delivered w) = shown c)"

text \<open>Every watcher has its own channel; \<open>U\<close> are the channels made so far.\<close>

definition channels_ok :: "nat set \<Rightarrow> ('v, 'n) AdsWorker \<Rightarrow> bool" where
  "channels_ok U w \<longleftrightarrow>
     fst ` set (delivered w) \<subseteq> U \<and>
     (\<forall>url ts i e. map_of (type_states w) url = Some ts \<longrightarrow> (i, e) \<in> set (ts_watchers ts) \<longrightarrow> event_tx e \<in> U) \<and>
     (\<forall>url ts i e url' ts' i' e'. map_of (type_states w) url = Some ts \<longrightarrow> (i, e) \<in> set (ts_watchers ts) \<longrightarrow>
        map_of (type_states w) url' = Some ts' \<longrightarrow> (i', e') \<in> set (ts_watchers ts') \<longrightarrow>
        event_tx e = event_tx e' \<longrightarrow> url = url' \<and> i = i')"

definition base_inv :: "nat set \<Rightarrow> ('v, 'n) AdsWorker \<Rightarrow> bool" where
  "base_inv U w \<longleftrightarrow> worker_ok w \<and> consistent w \<and> channels_ok U w"

text \<open>On a live stream with a timeout, every watched resource that is still awaited has a timer.\<close>

definition covered :: "('v, 'n) AdsWorker \<Rightarrow> bool" where
  "covered w \<longleftrightarrow>
     (\<forall>url ts i e n c. resource_initial_timeout w \<noteq> None \<longrightarrow> map_of (type_states w) url = Some ts \<longrightarrow>
        (i, e) \<in> set (ts_watchers ts) \<longrightarrow> we_subscription e = WatchName n \<longrightarrow> map_of (ts_cache ts) n = Some c \<longrightarrow>
        is_requested c \<longrightarrow> map_of (resource_timers w) (url, n) \<noteq> None)"

text \<open>On a live stream, the last request for a type in use says what the worker has of it.\<close>

definition last_request :: "nat \<Rightarrow> string \<Rightarrow> (nat \<times> 'n DiscoveryRequest) list \<Rightarrow> 'n DiscoveryRequest option" where
  "last_request tx url log =
     (case rev (filter (\<lambda>(t, r). t = tx \<and> req_type_url r = url) log) of [] \<Rightarrow> None | (_, r) # _ \<Rightarrow> Some r)"

definition tells :: "'v TypeState \<Rightarrow> 'n DiscoveryRequest \<Rightarrow> bool" where
  "tells ts r \<longleftrightarrow>
     req_version_info r = ts_version_info ts \<and> req_response_nonce r = ts_nonce ts \<and>
     set (req_resource_names r) = set (resource_names_for_request (ts_subscription ts))"

definition informed :: "nat \<Rightarrow> ('v, 'n) AdsWorker \<Rightarrow> bool" where
  "informed tx w \<longleftrightarrow>
     (\<forall>url ts. map_of (type_states w) url = Some ts \<longrightarrow>
        (\<exists>r. last_request tx url (written w) = Some r \<and> tells ts r))"

lemma tells_cache [simp]: "tells (ts\<lparr>ts_cache := cs\<rparr>) r = tells ts r"
  by (simp add: tells_def)

lemma last_request_snoc [simp]:
  "last_request tx url (log @ [(t, r)]) =
     (if t = tx \<and> req_type_url r = url then Some r else last_request tx url log)"
  by (auto simp: last_request_def)

subsection \<open>Storing an entry and telling its watchers\<close>

lemma set_matching_watchers:
  "tx \<in> set (matching_watchers ts n) \<longleftrightarrow>
     (\<exists>i e. (i, e) \<in> set (ts_watchers ts) \<and> subscription_matches (we_subscription e) n \<and> event_tx e = tx)"
  by (force simp: matching_watchers_def)

text \<open>
  Every change of a cache entry has this form: one entry of one type gets a state that is not \<open>Requested\<close>, its
  timer is gone, and its watchers are sent what the entry now shows.
\<close>

definition stored ::
  "string \<Rightarrow> 'v TypeState \<Rightarrow> string \<Rightarrow> 'v CachedResource \<Rightarrow> ('v, 'n) AdsWorker \<Rightarrow> ('v, 'n) AdsWorker \<Rightarrow> bool" where
  "stored url ts n c w w' \<longleftrightarrow>
     (\<exists>cs ev.
        map_of (type_states w) url = Some ts \<and>
        map_of (type_states w') = (map_of (type_states w))(url \<mapsto> ts\<lparr>ts_cache := cs\<rparr>) \<and>
        distinct (map fst (type_states w')) \<and>
        map_of cs = (map_of (ts_cache ts))(n \<mapsto> c) \<and> distinct (map fst cs) \<and>
        map_of (resource_timers w') = (map_of (resource_timers w))((url, n) := None) \<and>
        distinct (map fst (resource_timers w')) \<and>
        delivered w' = delivered w @ map (\<lambda>t. (t, ev)) (matching_watchers ts n) \<and> event_result ev = shown c \<and>
        \<not> is_requested c \<and> (cr_state c = Received \<longleftrightarrow> cr_resource c \<noteq> None) \<and>
        written w' = written w \<and> resource_initial_timeout w' = resource_initial_timeout w \<and> node w' = node w \<and>
        room w' = room w)"

lemma stored_worker_ok:
  assumes "worker_ok w" "stored url ts n c w w'"
  shows "worker_ok w'"
proof -
  from assms(2) obtain cs ev where s: "map_of (type_states w) url = Some ts"
      "map_of (type_states w') = (map_of (type_states w))(url \<mapsto> ts\<lparr>ts_cache := cs\<rparr>)"
      "distinct (map fst (type_states w'))" "map_of cs = (map_of (ts_cache ts))(n \<mapsto> c)" "distinct (map fst cs)"
      "map_of (resource_timers w') = (map_of (resource_timers w))((url, n) := None)"
      "distinct (map fst (resource_timers w'))" "cr_state c = Received \<longleftrightarrow> cr_resource c \<noteq> None"
    unfolding stored_def by blast
  have "type_ok url ts" using assms(1) s(1) by (auto simp: worker_ok_def)
  then have "type_ok url (ts\<lparr>ts_cache := cs\<rparr>)"
    using s(4,5,8) by (auto simp: type_ok_def split: if_splits)
  then have t: "type_ok u t" if "map_of (type_states w') u = Some t" for u t
    using that assms(1) unfolding s(2) by (auto simp: worker_ok_def split: if_splits)
  have "\<exists>ts' c'. map_of (type_states w') u = Some ts' \<and> map_of (ts_cache ts') m = Some c' \<and> is_requested c'"
    if i: "map_of (resource_timers w') (u, m) = Some i" for u m i
  proof -
    have ne: "(u, m) \<noteq> (url, n)" and "map_of (resource_timers w) (u, m) = Some i" using i unfolding s(6) by (auto split: if_splits)
    then obtain ts' c' where "map_of (type_states w) u = Some ts'" "map_of (ts_cache ts') m = Some c'" "is_requested c'"
      using assms(1) unfolding worker_ok_def by blast
    with ne s(1,4) show ?thesis unfolding s(2) by (cases "u = url") auto
  qed
  with t s(3,7) show ?thesis unfolding worker_ok_def by blast
qed

lemma stored_channels_ok:
  assumes "channels_ok U w" "stored url ts n c w w'"
  shows "channels_ok U w'"
proof -
  from assms(2) obtain cs ev where s: "map_of (type_states w) url = Some ts"
      "map_of (type_states w') = (map_of (type_states w))(url \<mapsto> ts\<lparr>ts_cache := cs\<rparr>)"
      "delivered w' = delivered w @ map (\<lambda>t. (t, ev)) (matching_watchers ts n)"
    unfolding stored_def by blast
  have same: "(\<exists>t. map_of (type_states w') u = Some t \<and> (i, e) \<in> set (ts_watchers t)) \<longleftrightarrow>
      (\<exists>t. map_of (type_states w) u = Some t \<and> (i, e) \<in> set (ts_watchers t))" for u i e
    using s(1) unfolding s(2) by auto
  have "set (matching_watchers ts n) \<subseteq> U"
    using assms(1) s(1) unfolding channels_ok_def by (auto simp: set_matching_watchers) 
  then have "fst ` set (delivered w') \<subseteq> U" using assms(1) unfolding s(3) channels_ok_def by auto
  moreover have "event_tx e \<in> U" if "map_of (type_states w') u = Some t" "(i, e) \<in> set (ts_watchers t)" for u t i e
    using assms(1) same [of u i e] that unfolding channels_ok_def by metis
  moreover have "u = u' \<and> i = i'" if "map_of (type_states w') u = Some t" "(i, e) \<in> set (ts_watchers t)"
      "map_of (type_states w') u' = Some t'" "(i', e') \<in> set (ts_watchers t')" "event_tx e = event_tx e'" for u t i e u' t' i' e'
    using assms(1) same [of u i e] same [of u' i' e'] that unfolding channels_ok_def by metis
  ultimately show ?thesis unfolding channels_ok_def by blast
qed

lemma channels_okD:
  assumes "channels_ok U w" "worker_ok w" "map_of (type_states w) url = Some ts" "(i, e) \<in> set (ts_watchers ts)"
    "map_of (type_states w) url' = Some ts'" "(i', e') \<in> set (ts_watchers ts')" "event_tx e = event_tx e'"
  shows "url = url' \<and> e = e'"
proof -
  have "url = url' \<and> i = i'" using assms unfolding channels_ok_def by blast
  moreover have "distinct (map fst (ts_watchers ts))" using assms(2,3) unfolding worker_ok_def type_ok_def by blast
  ultimately show ?thesis using assms(3-6) by (auto simp: eq_key_imp_eq_value)
qed

lemma stored_consistent:
  assumes "consistent w" "worker_ok w" "channels_ok U w" "stored url ts n c w w'"
  shows "consistent w'"
proof -
  from assms(4) obtain cs ev where s: "map_of (type_states w) url = Some ts"
      "map_of (type_states w') = (map_of (type_states w))(url \<mapsto> ts\<lparr>ts_cache := cs\<rparr>)"
      "map_of cs = (map_of (ts_cache ts))(n \<mapsto> c)"
      "delivered w' = delivered w @ map (\<lambda>t. (t, ev)) (matching_watchers ts n)" "event_result ev = shown c"
    unfolding stored_def by blast
  have "last_seen (event_tx e) (delivered w') = shown d"
    if t: "map_of (type_states w') u = Some t" "(i, e) \<in> set (ts_watchers t)" "we_subscription e = WatchName m"
      "map_of (ts_cache t) m = Some d" for u t i e m d
  proof (cases "u = url \<and> m = n")
    case True
    then have e: "(i, e) \<in> set (ts_watchers ts)" "d = c" using t s(3) unfolding s(2) by auto
    then have "event_tx e \<in> set (matching_watchers ts n)"
      unfolding set_matching_watchers using True t(3) by (intro exI [of _ i] exI [of _ e]) simp
    then show ?thesis by (simp add: s(4,5) e(2))
  next
    case False
    then obtain t0 where t0: "map_of (type_states w) u = Some t0" "(i, e) \<in> set (ts_watchers t0)" "map_of (ts_cache t0) m = Some d"
      using t s(1,3) unfolding s(2) by (cases "u = url") auto
    have "event_tx e \<notin> set (matching_watchers ts n)"
    proof
      assume "event_tx e \<in> set (matching_watchers ts n)"
      then obtain i' e' where "(i', e') \<in> set (ts_watchers ts)" "subscription_matches (we_subscription e') n" "event_tx e' = event_tx e"
        by (auto simp: set_matching_watchers)
      with channels_okD [OF assms(3,2) t0(1,2) s(1)] have "u = url" "e = e'" by auto
      with False t(3) \<open>subscription_matches (we_subscription e') n\<close> show False by auto
    qed
    moreover have "last_seen (event_tx e) (delivered w) = shown d"
      using assms(1) t0 t(3) unfolding consistent_def by blast
    ultimately show ?thesis by (simp add: s(4))
  qed
  then show ?thesis unfolding consistent_def by blast
qed

lemma stored_base_inv: "base_inv U w \<Longrightarrow> stored url ts n c w w' \<Longrightarrow> base_inv U w'"
  unfolding base_inv_def using stored_worker_ok stored_channels_ok stored_consistent by blast

lemma stored_covered:
  assumes "covered w" "stored url ts n c w w'"
  shows "covered w'"
proof -
  from assms(2) obtain cs where s: "map_of (type_states w) url = Some ts"
      "map_of (type_states w') = (map_of (type_states w))(url \<mapsto> ts\<lparr>ts_cache := cs\<rparr>)"
      "map_of cs = (map_of (ts_cache ts))(n \<mapsto> c)" "\<not> is_requested c"
      "map_of (resource_timers w') = (map_of (resource_timers w))((url, n) := None)"
      "resource_initial_timeout w' = resource_initial_timeout w"
    unfolding stored_def by blast
  have "map_of (resource_timers w') (u, m) \<noteq> None"
    if t: "resource_initial_timeout w' \<noteq> None" "map_of (type_states w') u = Some t" "(i, e) \<in> set (ts_watchers t)"
      "we_subscription e = WatchName m" "map_of (ts_cache t) m = Some d" "is_requested d" for u t i e m d
  proof -
    have ne: "(u, m) \<noteq> (url, n)" using t s(3,4) unfolding s(2) by (auto split: if_splits)
    then obtain t0 where "map_of (type_states w) u = Some t0" "(i, e) \<in> set (ts_watchers t0)" "map_of (ts_cache t0) m = Some d"
      using t s(1,3) unfolding s(2) by (cases "u = url") auto
    with assms(1) t(1,4,6) s(6) have "map_of (resource_timers w) (u, m) \<noteq> None" unfolding covered_def by metis
    with ne show ?thesis by (simp add: s(5))
  qed
  then show ?thesis unfolding covered_def by blast
qed

lemma stored_informed:
  assumes "informed tx w" "stored url ts n c w w'"
  shows "informed tx w'"
proof -
  from assms(2) obtain cs where s: "map_of (type_states w) url = Some ts"
      "map_of (type_states w') = (map_of (type_states w))(url \<mapsto> ts\<lparr>ts_cache := cs\<rparr>)" "written w' = written w"
    unfolding stored_def by blast
  show ?thesis using assms(1) s(1) unfolding informed_def s(2,3) by auto
qed

text \<open>Any number of such changes of one type, with measurements in between.\<close>

inductive stores :: "string \<Rightarrow> ('v, 'n) AdsWorker \<Rightarrow> ('v, 'n) AdsWorker \<Rightarrow> bool" for url where
  stores_refl: "stores url w w"
| stores_step: "stores url w w1 \<Longrightarrow> stored url ts n c w1 w2 \<Longrightarrow> stores url w w2"
| stores_measure: "stores url w w1 \<Longrightarrow> stores url w (w1\<lparr>recorder := r\<rparr>)"

lemma stores_trans: "stores url w1 w2 \<Longrightarrow> stores url w w1 \<Longrightarrow> stores url w w2"
  by (induction rule: stores.induct) (auto intro: stores.intros)

lemma worker_ok_measure [simp]: "worker_ok (w\<lparr>recorder := r\<rparr>) = worker_ok w"
  by (simp add: worker_ok_def)

lemma base_inv_measure [simp]: "base_inv U (w\<lparr>recorder := r\<rparr>) = base_inv U w"
  by (simp add: base_inv_def consistent_def channels_ok_def)

lemma covered_measure [simp]: "covered (w\<lparr>recorder := r\<rparr>) = covered w"
  by (simp add: covered_def)

lemma informed_measure [simp]: "informed tx (w\<lparr>recorder := r\<rparr>) = informed tx w"
  by (simp add: informed_def)

lemma stores_worker_ok: "stores url w w' \<Longrightarrow> worker_ok w \<Longrightarrow> worker_ok w'"
  by (induction rule: stores.induct) (auto intro: stored_worker_ok)

lemma stores_base_inv: "stores url w w' \<Longrightarrow> base_inv U w \<Longrightarrow> base_inv U w'"
  by (induction rule: stores.induct) (auto intro: stored_base_inv)

lemma stores_covered: "stores url w w' \<Longrightarrow> covered w \<Longrightarrow> covered w'"
  by (induction rule: stores.induct) (auto intro: stored_covered)

lemma stores_informed: "stores url w w' \<Longrightarrow> informed tx w \<Longrightarrow> informed tx w'"
  by (induction rule: stores.induct) (auto intro: stored_informed)

text \<open>What such changes leave alone.\<close>

lemma stores_frame:
  assumes "stores url w w'"
  shows "node w' = node w \<and> room w' = room w \<and> written w' = written w \<and>
    resource_initial_timeout w' = resource_initial_timeout w \<and>
    (\<forall>u. u \<noteq> url \<longrightarrow> map_of (type_states w') u = map_of (type_states w) u) \<and>
    (\<forall>ts. map_of (type_states w) url = Some ts \<longrightarrow> (\<exists>cs. map_of (type_states w') url = Some (ts\<lparr>ts_cache := cs\<rparr>))) \<and>
    (map_of (type_states w) url = None \<longrightarrow> map_of (type_states w') url = None)"
  using assms
proof (induction rule: stores.induct)
  case (stores_refl w)
  have "ts = ts\<lparr>ts_cache := ts_cache ts\<rparr>" for ts :: "'a TypeState" by simp
  then show ?case by metis
next
  case (stores_step w w1 ts n c w2)
  from stores_step(2) obtain cs where s: "map_of (type_states w1) url = Some ts"
      "map_of (type_states w2) = (map_of (type_states w1))(url \<mapsto> ts\<lparr>ts_cache := cs\<rparr>)"
      "written w2 = written w1" "resource_initial_timeout w2 = resource_initial_timeout w1" "node w2 = node w1" "room w2 = room w1"
    unfolding stored_def by blast
  have upd: "\<exists>cs'. (t\<lparr>ts_cache := d\<rparr>)\<lparr>ts_cache := cs\<rparr> = t\<lparr>ts_cache := cs'\<rparr>" for t :: "'a TypeState" and d by auto
  show ?case using stores_step(3) s upd by fastforce
qed simp

subsection \<open>The operations store entries\<close>

lemma set_type_simps [simp]:
  "map_of (type_states (set_type url ts w)) = (map_of (type_states w))(url \<mapsto> ts)"
  "delivered (set_type url ts w) = delivered w" "resource_timers (set_type url ts w) = resource_timers w"
  "written (set_type url ts w) = written w" "node (set_type url ts w) = node w" "room (set_type url ts w) = room w"
  "resource_initial_timeout (set_type url ts w) = resource_initial_timeout w" "recorder (set_type url ts w) = recorder w"
  "next_resource_timer_id (set_type url ts w) = next_resource_timer_id w" "sleeps (set_type url ts w) = sleeps w"
  by (simp_all add: set_type_def update_conv')

lemma send_events_simps [simp]:
  "type_states (send_events txs ev w) = type_states w"
  "delivered (send_events txs ev w) = delivered w @ map (\<lambda>t. (t, ev)) txs"
  "resource_timers (send_events txs ev w) = resource_timers w"
  "written (send_events txs ev w) = written w" "node (send_events txs ev w) = node w" "room (send_events txs ev w) = room w"
  "resource_initial_timeout (send_events txs ev w) = resource_initial_timeout w"
  "recorder (send_events txs ev w) = recorder w"
  "next_resource_timer_id (send_events txs ev w) = next_resource_timer_id w" "sleeps (send_events txs ev w) = sleeps w"
  by (simp_all add: send_events_def)

lemma sync_counts_simps [simp]:
  "type_states (sync_counts ts w) = type_states w" "delivered (sync_counts ts w) = delivered w"
  "resource_timers (sync_counts ts w) = resource_timers w" "written (sync_counts ts w) = written w"
  "node (sync_counts ts w) = node w" "room (sync_counts ts w) = room w"
  "resource_initial_timeout (sync_counts ts w) = resource_initial_timeout w"
  by (simp_all add: sync_counts_def)

lemma shown_simps [simp]:
  "shown (cr_received r acc) = Some (Inr r)" "shown (cr_does_not_exist a) = Some (Inl ResourceDoesNotExist)"
  "shown (cr_nacked rej a) = Some (Inl (Validation (ru_details rej)))" "shown cr_requested = None"
  by (simp_all add: shown_def to_event_def cr_received_def cr_does_not_exist_def cr_nacked_def cr_requested_def)

lemma entry_simps [simp]:
  "\<not> is_requested (cr_received r acc)" "\<not> is_requested (cr_does_not_exist a)" "\<not> is_requested (cr_nacked rej a)"
  "is_requested cr_requested"
  "cr_state (cr_received r acc) = Received" "cr_resource (cr_received r acc) = Some r"
  "cr_state (cr_does_not_exist a) = DoesNotExist" "cr_resource (cr_does_not_exist a) = None"
  "cr_state (cr_nacked rej a) = NACKed rej" "cr_resource (cr_nacked rej a) = None"
  "cr_state cr_requested = Requested" "cr_resource cr_requested = None"
  "cr_accepted (cr_received r acc) = Some acc" "cr_accepted (cr_does_not_exist a) = a" "cr_accepted (cr_nacked rej a) = a"
  by (simp_all add: is_requested_def cr_received_def cr_does_not_exist_def cr_nacked_def cr_requested_def)

lemma matching_watchers_cache [simp]: "matching_watchers (ts\<lparr>ts_cache := cs\<rparr>) n = matching_watchers ts n"
  by (simp add: matching_watchers_def)

lemma worker_okD:
  assumes "worker_ok w"
  shows "distinct (map fst (type_states w))" "distinct (map fst (resource_timers w))"
    "map_of (type_states w) url = Some ts \<Longrightarrow> type_ok url ts"
    "map_of (type_states w) url = Some ts \<Longrightarrow> distinct (map fst (ts_cache ts))"
    "map_of (type_states w) url = Some ts \<Longrightarrow> distinct (map fst (ts_watchers ts))"
    "map_of (type_states w) url = Some ts \<Longrightarrow> ts_type_url ts = url"
  using assms unfolding worker_ok_def type_ok_def by blast+

lemma no_timer:
  assumes "worker_ok w" "map_of (type_states w) url = Some ts" "map_of (ts_cache ts) n = Some c" "\<not> is_requested c"
  shows "map_of (resource_timers w) (url, n) = None"
proof (rule ccontr)
  assume "map_of (resource_timers w) (url, n) \<noteq> None"
  then obtain i where "map_of (resource_timers w) (url, n) = Some i" by blast
  then obtain ts' c' where "map_of (type_states w) url = Some ts'" "map_of (ts_cache ts') n = Some c'" "is_requested c'"
    using assms(1) unfolding worker_ok_def by blast
  with assms(2-4) show False by simp
qed

text \<open>One entry stored in the worker whose state of the type is \<open>ts\<close>.\<close>

lemma stored_set_type:
  assumes "worker_ok (set_type url ts w)" "map_of cs = (map_of (ts_cache ts))(n \<mapsto> c)" "distinct (map fst cs)"
    "map_of (resource_timers w') = (map_of (resource_timers w))((url, n) := None)" "distinct (map fst (resource_timers w'))"
    "type_states w' = type_states w" "written w' = written w" "node w' = node w" "room w' = room w"
    "resource_initial_timeout w' = resource_initial_timeout w"
    "delivered w' = delivered w @ map (\<lambda>t. (t, ev)) (matching_watchers ts n)" "event_result ev = shown c"
    "\<not> is_requested c" "cr_state c = Received \<longleftrightarrow> cr_resource c \<noteq> None"
  shows "stored url ts n c (set_type url ts w) (set_type url (ts\<lparr>ts_cache := cs\<rparr>) w')"
proof -
  have "distinct (map fst (type_states (set_type url (ts\<lparr>ts_cache := cs\<rparr>) w')))"
    using worker_okD(1) [OF assms(1)] assms(6) by (simp add: set_type_def update_keys)
  then show ?thesis unfolding stored_def using assms by (intro exI [of _ cs] exI [of _ ev]) simp
qed

lemma stored_dispatch:
  assumes "worker_ok (set_type url ts w)" "dispatch_resource url dn (r, acc) (ts, w) = (ts', w')"
  shows "stored url ts (dr_name r) (cr_received r acc) (set_type url ts w) (set_type url ts' w')"
proof -
  have t: "ts' = ts\<lparr>ts_cache := AList.update (dr_name r) (cr_received r acc) (ts_cache ts)\<rparr>"
    and w: "w' = send_events (matching_watchers ts (dr_name r)) (ResourceChanged (Inr r) (Some dn))
        (w\<lparr>resource_timers := AList.delete (url, dr_name r) (resource_timers w)\<rparr>)"
    using assms(2) by (simp_all add: dispatch_resource_def Let_def)
  show ?thesis unfolding t
    by (rule stored_set_type [OF assms(1), where ev = "ResourceChanged (Inr r) (Some dn)"])
      (use worker_okD(2) [OF assms(1)] worker_okD(4) [OF assms(1), of url ts] in
        \<open>simp_all add: w update_conv' delete_conv' distinct_update distinct_delete\<close>)
qed

lemma set_type_same: "map_of (type_states w) url = Some ts \<Longrightarrow> set_type url ts w = w"
  by (simp add: set_type_def update_triv)

lemma stores_dispatch_loop:
  assumes "worker_ok w0" "stores url w0 (set_type url ts w)" "fold (dispatch_resource url dn) rs (ts, w) = (ts', w')"
  shows "stores url w0 (set_type url ts' w')"
  using assms(2,3)
proof (induction rs arbitrary: ts w)
  case (Cons ra rs)
  obtain r acc where ra: "ra = (r, acc)" by fastforce
  obtain ts1 w1 where d: "dispatch_resource url dn (r, acc) (ts, w) = (ts1, w1)" by fastforce
  have "stores url w0 (set_type url ts1 w1)"
    using stores_step [OF Cons.prems(1) stored_dispatch [OF stores_worker_ok [OF Cons.prems(1) assms(1)] d]] .
  then show ?case using Cons.IH Cons.prems(2) d ra by simp
qed simp

lemma stores_dispatch: "worker_ok w \<Longrightarrow> stores url w (dispatch_resources url rs dn w)"
proof (cases "map_of (type_states w) url")
  case (Some ts)
  assume ok: "worker_ok w"
  obtain ts' w' where f: "fold (dispatch_resource url dn) rs (ts, w) = (ts', w')" by fastforce
  have "stores url w (set_type url ts w)" using Some by (simp add: set_type_same stores_refl)
  from stores_dispatch_loop [OF ok this f] show ?thesis
    using Some f by (auto simp: dispatch_resources_def sync_counts_def intro: stores_measure)
qed (simp add: dispatch_resources_def stores_refl)

lemma stores_notify: "worker_ok w \<Longrightarrow> stores url w (notify_resource_error url n rej dn w)"
proof (cases "map_of (type_states w) url")
  case (Some ts)
  assume ok: "worker_ok w"
  have same: "set_type url ts w = w" using Some by (rule set_type_same)
  let ?c = "cr_nacked rej (Option.bind (map_of (ts_cache ts) n) cr_accepted)"
  let ?cs = "AList.update n ?c (AList.delete n (ts_cache ts))"
  let ?ev = "ResourceChanged (Inl (Validation (ru_details rej))) (Some dn)"
  let ?w = "send_events (matching_watchers ts n) ?ev (w\<lparr>resource_timers := AList.delete (url, n) (resource_timers w)\<rparr>)"
  have "stored url ts n ?c (set_type url ts w) (set_type url (ts\<lparr>ts_cache := ?cs\<rparr>) ?w)"
    by (rule stored_set_type [where ev = ?ev])
      (use worker_okD(2) [OF ok] worker_okD(4) [OF ok Some] ok in
        \<open>simp_all add: same update_conv' delete_conv' distinct_update distinct_delete\<close>)
  then have "stores url w (set_type url (ts\<lparr>ts_cache := ?cs\<rparr>) ?w)"
    unfolding same using stores_refl stores_step by blast
  moreover have "notify_resource_error url n rej dn w = (set_type url (ts\<lparr>ts_cache := ?cs\<rparr>) ?w)\<lparr>recorder :=
      sync_resource_counts (ts_type_url ts) (resource_state_counts (ts\<lparr>ts_cache := ?cs\<rparr>)) (recorder w)\<rparr>"
    using Some by (cases w) (simp add: notify_resource_error_def Let_def sync_counts_def set_type_def send_events_def)
  ultimately show ?thesis by (simp add: stores_measure)
qed (simp add: notify_resource_error_def stores_refl)

lemma stores_delete_loop:
  assumes "worker_ok w0" "stores url w0 (set_type url ts w)" "fold (delete_resource dn) names (ts, w) = (ts', w')"
    "distinct names" "\<And>m. m \<in> set names \<Longrightarrow> \<exists>c. map_of (ts_cache ts) m = Some c \<and> cr_state c = Received"
  shows "stores url w0 (set_type url ts' w')"
  using assms(2-5)
proof (induction names arbitrary: ts w)
  case (Cons m names)
  let ?c = "cr_does_not_exist (Option.bind (map_of (ts_cache ts) m) cr_accepted)"
  let ?cs = "AList.update m ?c (AList.delete m (ts_cache ts))"
  let ?ev = "ResourceChanged (Inl ResourceDoesNotExist) (Some dn)"
  let ?w = "send_events (matching_watchers ts m) ?ev w"
  have d: "delete_resource dn m (ts, w) = (ts\<lparr>ts_cache := ?cs\<rparr>, ?w)" by (simp add: delete_resource_def Let_def)
  have ok: "worker_ok (set_type url ts w)" using stores_worker_ok [OF Cons.prems(1) assms(1)] .
  obtain c where "map_of (ts_cache ts) m = Some c" "cr_state c = Received" using Cons.prems(4) by auto
  then have "map_of (resource_timers w) (url, m) = None"
    using no_timer [OF ok, of url ts m c] by (simp add: is_requested_def)
  then have "stored url ts m ?c (set_type url ts w) (set_type url (ts\<lparr>ts_cache := ?cs\<rparr>) ?w)"
    by (intro stored_set_type [OF ok, where ev = ?ev])
      (use worker_okD(2) [OF ok] worker_okD(4) [OF ok, of url ts] in
        \<open>simp_all add: update_conv' delete_conv' distinct_update distinct_delete fun_upd_idem\<close>)
  then have st: "stores url w0 (set_type url (ts\<lparr>ts_cache := ?cs\<rparr>) ?w)" by (rule stores_step [OF Cons.prems(1)])
  have rest: "\<exists>c. map_of (ts_cache (ts\<lparr>ts_cache := ?cs\<rparr>)) k = Some c \<and> cr_state c = Received" if "k \<in> set names" for k
  proof -
    have "k \<noteq> m" using Cons.prems(3) that by auto
    then show ?thesis using Cons.prems(4) [of k] that by (simp add: update_conv' delete_conv')
  qed
  have "fold (delete_resource dn) names (ts\<lparr>ts_cache := ?cs\<rparr>, ?w) = (ts', w')" using Cons.prems(2) d by simp
  moreover have "distinct names" using Cons.prems(3) by simp
  ultimately show ?case using Cons.IH [OF st] rest by blast
qed simp

lemma deleted_names_received:
  assumes "distinct (map fst (ts_cache ts))"
  shows "distinct (deleted_names ts A)"
    "m \<in> set (deleted_names ts A) \<longleftrightarrow> (\<exists>c. map_of (ts_cache ts) m = Some c \<and> cr_state c = Received \<and> m \<notin> A)"
proof -
  show "distinct (deleted_names ts A)" using assms by (simp add: deleted_names_def distinct_map_filter)
  show "m \<in> set (deleted_names ts A) \<longleftrightarrow> (\<exists>c. map_of (ts_cache ts) m = Some c \<and> cr_state c = Received \<and> m \<notin> A)"
    using assms by (force simp: deleted_names_def map_of_eq_Some_iff)
qed

lemma stores_detect: "worker_ok w \<Longrightarrow> stores url w (detect_deleted_resources url A dn w)"
proof (cases "map_of (type_states w) url")
  case (Some ts)
  assume ok: "worker_ok w"
  obtain ts' w' where f: "fold (delete_resource dn) (deleted_names ts A) (ts, w) = (ts', w')" by fastforce
  have "stores url w (set_type url ts w)" using Some by (simp add: set_type_same stores_refl)
  then have "stores url w (set_type url ts' w')"
    using stores_delete_loop [OF ok _ f] deleted_names_received [OF worker_okD(4) [OF ok Some]] by blast
  then show ?thesis using Some f
    by (auto simp: detect_deleted_resources_def sync_counts_def intro: stores_measure stores_refl)
qed (simp add: detect_deleted_resources_def stores_refl)

lemma stores_notify_loop:
  "worker_ok w \<Longrightarrow> stores url w (fold (\<lambda>(n, e). notify_resource_error url n (rej n e) dn) errs w)"
proof (induction errs arbitrary: w)
  case (Cons ne errs)
  obtain n e where ne: "ne = (n, e)" by fastforce
  have s: "stores url w (notify_resource_error url n (rej n e) dn w)" using Cons.prems by (rule stores_notify)
  show ?case using stores_trans [OF Cons.IH [OF stores_worker_ok [OF s Cons.prems]] s] ne by simp
qed (simp add: stores_refl)

lemma stores_timeout: "worker_ok w \<Longrightarrow> stores url w (handle_resource_timeout url n i w)"
proof (cases "map_of (resource_timers w) (url, n)")
  case (Some j)
  assume ok: "worker_ok w"
  then obtain ts c where t: "map_of (type_states w) url = Some ts" "map_of (ts_cache ts) n = Some c" "is_requested c"
    using Some unfolding worker_ok_def by blast
  have same: "set_type url ts w = w" using t(1) by (rule set_type_same)
  let ?c = "cr_does_not_exist None"
  let ?cs = "AList.update n ?c (ts_cache ts)"
  let ?ev = "ResourceChanged (Inl ResourceDoesNotExist) None"
  let ?w = "send_events (matching_watchers ts n) ?ev (w\<lparr>resource_timers := AList.delete (url, n) (resource_timers w)\<rparr>)"
  have "stored url ts n ?c (set_type url ts w) (set_type url (ts\<lparr>ts_cache := ?cs\<rparr>) ?w)"
    by (rule stored_set_type [where ev = ?ev])
      (use worker_okD(2) [OF ok] worker_okD(4) [OF ok t(1)] ok in
        \<open>simp_all add: same update_conv' delete_conv' distinct_update distinct_delete\<close>)
  then have "stores url w (set_type url (ts\<lparr>ts_cache := ?cs\<rparr>) ?w)"
    unfolding same using stores_refl stores_step by blast
  moreover have "handle_resource_timeout url n j w = (set_type url (ts\<lparr>ts_cache := ?cs\<rparr>) ?w)\<lparr>recorder :=
      sync_resource_counts (ts_type_url ts) (resource_state_counts (ts\<lparr>ts_cache := ?cs\<rparr>)) (recorder w)\<rparr>"
    using Some t by (cases w) (simp add: handle_resource_timeout_def Let_def sync_counts_def set_type_def send_events_def)
  moreover have "i \<noteq> j \<Longrightarrow> handle_resource_timeout url n i w = w" using Some by (auto simp: handle_resource_timeout_def)
  ultimately show ?thesis by (cases "i = j") (simp_all add: stores_measure stores_refl)
qed (simp add: handle_resource_timeout_def stores_refl)

end
