(* ===== verification/Xds_Worker_Stream.thy ===== *)
theory Xds_Worker_Stream
  imports Xds_Worker_Cache
begin

text \<open>
  Watchers, responses and the stream of the ADS worker: \<open>add_watcher\<close>, \<open>remove_watcher\<close>, \<open>send_request\<close>,
  \<open>handle_command\<close>, \<open>handle_response\<close>, \<open>handle_transport_event\<close> and the event loop keep the invariants, and on a live
  stream the server has been told of every type's version, nonce and subscription and every awaited resource has a timer.
\<close>

subsection \<open>Timers and requests\<close>

definition covered_at :: "string \<Rightarrow> ('v, 'n) AdsWorker \<Rightarrow> bool" where
  "covered_at url w \<longleftrightarrow>
     (\<forall>ts n. resource_initial_timeout w \<noteq> None \<longrightarrow> map_of (type_states w) url = Some ts \<longrightarrow>
        n \<in> set (pending_names ts) \<longrightarrow> map_of (resource_timers w) (url, n) \<noteq> None)"

definition informed_at :: "nat \<Rightarrow> string \<Rightarrow> ('v, 'n) AdsWorker \<Rightarrow> bool" where
  "informed_at tx url w \<longleftrightarrow>
     (\<forall>ts. map_of (type_states w) url = Some ts \<longrightarrow> (\<exists>r. last_request tx url (written w) = Some r \<and> tells ts r))"

lemma set_pending_names:
  "n \<in> set (pending_names ts) \<longleftrightarrow>
     (\<exists>i e c. (i, e) \<in> set (ts_watchers ts) \<and> we_subscription e = WatchName n \<and>
        map_of (ts_cache ts) n = Some c \<and> is_requested c)"
proof -
  have f: "(case x of (_, watcher) \<Rightarrow> case we_subscription watcher of
         WatchName name \<Rightarrow>
           (case map_of (ts_cache ts) name of
              Some c \<Rightarrow> if is_requested c then Some name else None
            | None \<Rightarrow> None)
       | WatchAll \<Rightarrow> None) = Some n \<longleftrightarrow>
      (\<exists>i e c. x = (i, e) \<and> we_subscription e = WatchName n \<and> map_of (ts_cache ts) n = Some c \<and> is_requested c)" for x
    by (cases x) (auto split: WatcherSubscription.split option.split)
  show ?thesis unfolding pending_names_def set_map_filter mem_Collect_eq f by blast
qed

lemma covered_iff: "covered w \<longleftrightarrow> (\<forall>url. covered_at url w)"
  unfolding covered_def covered_at_def set_pending_names by blast

lemma informed_iff: "informed tx w \<longleftrightarrow> (\<forall>url. informed_at tx url w)"
  unfolding informed_def informed_at_def by blast

lemma start_timer_frame [simp]:
  "type_states (start_resource_timer url n t w) = type_states w"
  "delivered (start_resource_timer url n t w) = delivered w" "written (start_resource_timer url n t w) = written w"
  "node (start_resource_timer url n t w) = node w" "room (start_resource_timer url n t w) = room w"
  "resource_initial_timeout (start_resource_timer url n t w) = resource_initial_timeout w"
  "recorder (start_resource_timer url n t w) = recorder w"
  by (simp_all add: start_resource_timer_def Let_def)

lemma start_timers_frame [simp]:
  "type_states (fold (\<lambda>n. start_resource_timer url n t) ns w) = type_states w"
  "delivered (fold (\<lambda>n. start_resource_timer url n t) ns w) = delivered w"
  "written (fold (\<lambda>n. start_resource_timer url n t) ns w) = written w"
  "node (fold (\<lambda>n. start_resource_timer url n t) ns w) = node w"
  "room (fold (\<lambda>n. start_resource_timer url n t) ns w) = room w"
  "resource_initial_timeout (fold (\<lambda>n. start_resource_timer url n t) ns w) = resource_initial_timeout w"
  "recorder (fold (\<lambda>n. start_resource_timer url n t) ns w) = recorder w"
  by (induction ns arbitrary: w) simp_all

lemma start_timers:
  assumes "distinct (map fst (resource_timers w))"
  shows "distinct (map fst (resource_timers (fold (\<lambda>n. start_resource_timer url n t) ns w)))"
    "dom (map_of (resource_timers (fold (\<lambda>n. start_resource_timer url n t) ns w))) =
       dom (map_of (resource_timers w)) \<union> Pair url ` set ns"
proof -
  have "distinct (map fst (resource_timers (fold (\<lambda>n. start_resource_timer url n t) ns w))) \<and>
    dom (map_of (resource_timers (fold (\<lambda>n. start_resource_timer url n t) ns w))) =
       dom (map_of (resource_timers w)) \<union> Pair url ` set ns"
    using assms
  proof (induction ns arbitrary: w)
    case (Cons n ns)
    have "distinct (map fst (resource_timers (start_resource_timer url n t w)))"
      "dom (map_of (resource_timers (start_resource_timer url n t w))) = insert (url, n) (dom (map_of (resource_timers w)))"
      using Cons.prems by (auto simp: start_resource_timer_def Let_def distinct_update update_conv')
    with Cons.IH show ?case by simp
  qed simp
  then show "distinct (map fst (resource_timers (fold (\<lambda>n. start_resource_timer url n t) ns w)))"
    "dom (map_of (resource_timers (fold (\<lambda>n. start_resource_timer url n t) ns w))) =
       dom (map_of (resource_timers w)) \<union> Pair url ` set ns" by blast+
qed

lemma pending_frame [simp]:
  "type_states (start_pending_resource_timers url w) = type_states w"
  "delivered (start_pending_resource_timers url w) = delivered w"
  "written (start_pending_resource_timers url w) = written w"
  "node (start_pending_resource_timers url w) = node w" "room (start_pending_resource_timers url w) = room w"
  "resource_initial_timeout (start_pending_resource_timers url w) = resource_initial_timeout w"
  "recorder (start_pending_resource_timers url w) = recorder w"
  by (simp_all add: start_pending_resource_timers_def split: option.split)

lemma pending_timers:
  assumes "worker_ok w"
  shows "worker_ok (start_pending_resource_timers url w)" "covered_at url (start_pending_resource_timers url w)"
    "u \<noteq> url \<Longrightarrow> covered_at u (start_pending_resource_timers url w) = covered_at u w"
proof -
  let ?w = "start_pending_resource_timers url w"
  consider "?w = w" "\<And>ts. resource_initial_timeout w \<noteq> None \<Longrightarrow> map_of (type_states w) url \<noteq> Some ts"
    | t ts where "resource_initial_timeout w = Some t" "map_of (type_states w) url = Some ts"
      "?w = fold (\<lambda>n. start_resource_timer url n t) (pending_names ts) w"
    unfolding start_pending_resource_timers_def
    by (cases "resource_initial_timeout w"; cases "map_of (type_states w) url") auto
  then have "worker_ok ?w \<and> covered_at url ?w \<and> (u \<noteq> url \<longrightarrow> covered_at u ?w = covered_at u w)" for u
  proof cases
    case 1
    then show ?thesis using assms by (auto simp: covered_at_def)
  next
    case (2 t ts)
    note d = start_timers [OF worker_okD(2) [OF assms], of url t "pending_names ts"]
    have dom: "map_of (resource_timers ?w) k = None \<longleftrightarrow> map_of (resource_timers w) k = None \<and> k \<notin> Pair url ` set (pending_names ts)" for k
    proof -
      have "k \<in> dom (map_of (resource_timers ?w)) \<longleftrightarrow> k \<in> dom (map_of (resource_timers w)) \<union> Pair url ` set (pending_names ts)"
        using d(2) unfolding 2(3) by (rule arg_cong)
      then show ?thesis unfolding domIff Un_iff by blast
    qed
    have "\<exists>ts' c. map_of (type_states w) x = Some ts' \<and> map_of (ts_cache ts') m = Some c \<and> is_requested c"
      if "map_of (resource_timers ?w) (x, m) = Some i" for x m i
    proof (cases "map_of (resource_timers w) (x, m)")
      case None
      then have "x = url" "m \<in> set (pending_names ts)" using that dom [of "(x, m)"] by auto
      then show ?thesis using 2(2) by (auto simp: set_pending_names)
    next
      case (Some j)
      then show ?thesis using assms unfolding worker_ok_def by blast
    qed
    then have "worker_ok ?w" using assms d(1) unfolding worker_ok_def 2(3) [symmetric] by simp
    then show ?thesis using dom 2(2) by (auto simp: covered_at_def)
  qed
  then show "worker_ok ?w" "covered_at url ?w" "u \<noteq> url \<Longrightarrow> covered_at u ?w = covered_at u w" by blast+
qed

lemma pending_base_inv: "base_inv U w \<Longrightarrow> base_inv U (start_pending_resource_timers url w)"
  using pending_timers(1) by (auto simp: base_inv_def consistent_def channels_ok_def)

lemma pending_informed [simp]: "informed_at tx u (start_pending_resource_timers url w) = informed_at tx u w"
  by (simp add: informed_at_def)

text \<open>A request that is written tells the server everything about its type; one that fails changes nothing.\<close>

lemma write_request_cases:
  assumes "write_request C tx r w = (res, w')"
  obtains e where "res = Inl e" "w' = w" |
    "res = Inr ()" "w' = w\<lparr>written := written w @ [(tx, r)], room := room w - 1\<rparr>" "0 < room w"
  using assms by (auto simp: write_request_def split: sum.splits if_splits)

lemma written_frame:
  "worker_ok (w\<lparr>written := l, room := k\<rparr>) = worker_ok w" "base_inv U (w\<lparr>written := l, room := k\<rparr>) = base_inv U w"
  "covered_at url (w\<lparr>written := l, room := k\<rparr>) = covered_at url w"
  by (simp_all add: worker_ok_def base_inv_def consistent_def channels_ok_def covered_at_def)

lemma informed_write:
  "req_type_url r = url \<Longrightarrow>
   informed_at tx u (w\<lparr>written := written w @ [(tx, r)], room := k\<rparr>) =
     (if u = url then \<forall>ts. map_of (type_states w) url = Some ts \<longrightarrow> tells ts r else informed_at tx u w)"
  by (auto simp: informed_at_def)

lemma send_request_props:
  assumes "base_inv U w" "send_request C tx url w = (res, w')"
  shows "base_inv U w'" "type_states w' = type_states w"
    "isl res \<Longrightarrow> w' = w"
    "\<not> isl res \<Longrightarrow> u \<noteq> url \<Longrightarrow> covered_at u w' = covered_at u w"
    "\<not> isl res \<Longrightarrow> u \<noteq> url \<Longrightarrow> informed_at tx u w' = informed_at tx u w"
    "\<not> isl res \<Longrightarrow> covered_at url w'" "\<not> isl res \<Longrightarrow> informed_at tx url w'"
proof -
  have ok: "worker_ok w" using assms(1) by (simp add: base_inv_def)
  have "base_inv U w' \<and> type_states w' = type_states w \<and> (isl res \<longrightarrow> w' = w) \<and>
    (\<not> isl res \<longrightarrow> (\<forall>u. u \<noteq> url \<longrightarrow> covered_at u w' = covered_at u w \<and> informed_at tx u w' = informed_at tx u w) \<and>
      covered_at url w' \<and> informed_at tx url w')"
  proof (cases "map_of (type_states w) url")
    case None
    then show ?thesis using assms by (auto simp: send_request_def covered_at_def informed_at_def)
  next
    case (Some ts)
    let ?r = "\<lparr>req_version_info = ts_version_info ts, req_node = node w,
               req_resource_names = resource_names_for_request (ts_subscription ts), req_type_url = url,
               req_response_nonce = ts_nonce ts, req_error_detail = None\<rparr>"
    obtain res1 w1 where wr: "write_request C tx ?r w = (res1, w1)" by fastforce
    have tl: "tells ts ?r" by (simp add: tells_def)
    show ?thesis using wr
    proof (cases rule: write_request_cases)
      case (1 e)
      then show ?thesis using assms Some wr by (auto simp: send_request_def)
    next
      case 2
      then have w': "res = Inr ()" "w' = start_pending_resource_timers url w1"
        using assms(2) Some wr by (auto simp: send_request_def)
      have ok1: "worker_ok w1" using ok unfolding 2(2) by (simp add: written_frame)
      have inf: "informed_at tx u w1 = (if u = url then True else informed_at tx u w)" for u
        unfolding 2(2) using Some tl by (simp add: informed_write)
      have cov: "covered_at u w1 = covered_at u w" "base_inv U w1" "type_states w1 = type_states w" for u
        unfolding 2(2) using assms(1) by (simp_all add: written_frame)
      show ?thesis unfolding w' pending_informed
        using pending_timers(1,2) [OF ok1, of url] pending_timers(3) [OF ok1, of _ url] pending_base_inv [OF cov(2), of url] inf cov(1,3) by simp
    qed
  qed
  then show "base_inv U w'" "type_states w' = type_states w"
    "isl res \<Longrightarrow> w' = w"
    "\<not> isl res \<Longrightarrow> u \<noteq> url \<Longrightarrow> covered_at u w' = covered_at u w"
    "\<not> isl res \<Longrightarrow> u \<noteq> url \<Longrightarrow> informed_at tx u w' = informed_at tx u w"
    "\<not> isl res \<Longrightarrow> covered_at url w'" "\<not> isl res \<Longrightarrow> informed_at tx url w'" by blast+
qed

lemma send_requests_props:
  assumes "base_inv U w" "send_requests C tx urls w = (res, w')"
  shows "base_inv U w' \<and> type_states w' = type_states w \<and>
    (\<not> isl res \<longrightarrow> (\<forall>u \<in> set urls. covered_at u w' \<and> informed_at tx u w') \<and>
      (\<forall>u. covered_at u w \<longrightarrow> covered_at u w') \<and> (\<forall>u. informed_at tx u w \<longrightarrow> informed_at tx u w'))"
  using assms
proof (induction urls arbitrary: w)
  case (Cons url urls)
  obtain r1 w1 where s: "send_request C tx url w = (r1, w1)" by fastforce
  note p = send_request_props [OF Cons.prems(1) s]
  show ?case
  proof (cases r1)
    case (Inl e)
    then show ?thesis using Cons.prems p(1,2) s by auto
  next
    case (Inr x)
    then have r: "send_requests C tx urls w1 = (res, w')" and ni: "\<not> isl r1" using Cons.prems(2) s by simp_all
    have "covered_at u w \<Longrightarrow> covered_at u w1" "informed_at tx u w \<Longrightarrow> informed_at tx u w1" for u
      using p(4-7) [OF ni] by (cases "u = url"; simp)+
    then show ?thesis using Cons.IH [OF p(1) r] p(2) p(6,7) [OF ni] by auto
  qed
qed simp

subsection \<open>Watchers come and go\<close>

lemma set_update_sub: "p \<in> set (AList.update k v xs) \<Longrightarrow> p = (k, v) \<or> p \<in> set xs"
  by (induction xs) (auto split: if_splits)

lemma in_update: "(k, v) \<in> set (AList.update k v xs)"
  by (induction xs) auto

lemma set_delete_sub: "set (AList.delete k xs) \<subseteq> set xs"
  by (auto simp: AList.delete_eq)

lemma base_invD:
  assumes "base_inv U w"
  shows "worker_ok w" "consistent w" "channels_ok U w"
  using assms by (simp_all add: base_inv_def)

lemma channels_mono: "channels_ok U w \<Longrightarrow> U \<subseteq> V \<Longrightarrow> channels_ok V w"
  unfolding channels_ok_def by blast

text \<open>What \<open>add_watcher\<close> does to the worker, in one equation per case of the cache.\<close>

definition state_for :: "'v WatchArgs \<Rightarrow> ('v, 'n) AdsWorker \<Rightarrow> 'v TypeState" where
  "state_for a w = (case map_of (type_states w) (wa_type_url a) of Some ts \<Rightarrow> ts
     | None \<Rightarrow> type_state_new (wa_type_url a) (wa_decoder a) (wa_all_required a))"

definition cache_with :: "'v WatchArgs \<Rightarrow> 'v TypeState \<Rightarrow> (string \<times> 'v CachedResource) list" where
  "cache_with a ts =
     (if wa_name a \<noteq> [] \<and> map_of (ts_cache ts) (wa_name a) = None
      then AList.update (wa_name a) cr_requested (ts_cache ts) else ts_cache ts)"

definition watchers_with :: "'v WatchArgs \<Rightarrow> 'v TypeState \<Rightarrow> (WatcherId \<times> WatcherEntry) list" where
  "watchers_with a ts =
     AList.update (wa_watcher_id a) \<lparr>event_tx = wa_event_tx a, we_subscription = from_name (wa_name a)\<rparr> (ts_watchers ts)"

definition state_with :: "'v WatchArgs \<Rightarrow> 'v TypeState \<Rightarrow> 'v TypeState" where
  "state_with a ts = ts\<lparr>ts_cache := cache_with a ts, ts_watchers := watchers_with a ts,
     ts_subscription := mode_of (watchers_with a ts)\<rparr>"

definition greeting :: "'v WatchArgs \<Rightarrow> 'v TypeState \<Rightarrow> (nat \<times> 'v ResourceEvent) list" where
  "greeting a ts = (case (if wa_name a = [] then None else Option.bind (map_of (ts_cache ts) (wa_name a)) to_event) of
     Some e \<Rightarrow> [(wa_event_tx a, e)] | None \<Rightarrow> [])"

lemma add_watcher_eq:
  assumes "add_watcher a w = (changed, w')"
  shows "changed = (\<not> mode_eq (ts_subscription (state_with a (state_for a w))) (ts_subscription (state_for a w)))"
    "type_states w' = AList.update (wa_type_url a) (state_with a (state_for a w)) (type_states w)"
    "delivered w' = delivered w @ greeting a (state_for a w)"
    "resource_timers w' = resource_timers w" "written w' = written w" "node w' = node w" "room w' = room w"
    "resource_initial_timeout w' = resource_initial_timeout w"
    "recorder w' = (if wa_name a \<noteq> [] \<and> map_of (ts_cache (state_for a w)) (wa_name a) = None
       then recorder (sync_counts (state_with a (state_for a w)) w) else recorder w)"
    "sleeps w' = sleeps w"
proof -
  let ?ts = "state_for a w"
  have req: "to_event (cr_requested :: 'a CachedResource) = None" by (simp add: to_event_def cr_requested_def)
  consider "wa_name a = []" | "wa_name a \<noteq> []" "map_of (ts_cache ?ts) (wa_name a) = None"
    | c where "wa_name a \<noteq> []" "map_of (ts_cache ?ts) (wa_name a) = Some c" by blast
  then have "add_watcher a w = (\<not> mode_eq (ts_subscription (state_with a ?ts)) (ts_subscription ?ts),
     (let w1 = set_type (wa_type_url a) (state_with a ?ts) (w\<lparr>delivered := delivered w @ greeting a ?ts\<rparr>)
      in if wa_name a \<noteq> [] \<and> map_of (ts_cache ?ts) (wa_name a) = None then sync_counts (state_with a ?ts) w1 else w1))"
  proof cases
    case 1
    then show ?thesis
      by (simp add: add_watcher_def Let_def state_for_def [symmetric] from_name_def recalculate_eq state_with_def
          cache_with_def watchers_with_def greeting_def)
  next
    case 2
    then show ?thesis
      by (simp add: add_watcher_def Let_def state_for_def [symmetric] from_name_def recalculate_eq state_with_def
          cache_with_def watchers_with_def greeting_def req)
  next
    case (3 c)
    then show ?thesis
      by (cases "to_event c")
        (simp_all add: add_watcher_def Let_def state_for_def [symmetric] from_name_def recalculate_eq state_with_def
          cache_with_def watchers_with_def greeting_def send_events_def)
  qed
  with assms have c: "changed = (\<not> mode_eq (ts_subscription (state_with a ?ts)) (ts_subscription ?ts))"
    and w': "w' = (let w1 = set_type (wa_type_url a) (state_with a ?ts) (w\<lparr>delivered := delivered w @ greeting a ?ts\<rparr>)
      in if wa_name a \<noteq> [] \<and> map_of (ts_cache ?ts) (wa_name a) = None then sync_counts (state_with a ?ts) w1 else w1)"
    by (metis Pair_inject)+
  show "changed = (\<not> mode_eq (ts_subscription (state_with a ?ts)) (ts_subscription ?ts))"
    "type_states w' = AList.update (wa_type_url a) (state_with a ?ts) (type_states w)"
    "delivered w' = delivered w @ greeting a ?ts"
    "resource_timers w' = resource_timers w" "written w' = written w" "node w' = node w" "room w' = room w"
    "resource_initial_timeout w' = resource_initial_timeout w"
    "recorder w' = (if wa_name a \<noteq> [] \<and> map_of (ts_cache ?ts) (wa_name a) = None
       then recorder (sync_counts (state_with a ?ts) w) else recorder w)" "sleeps w' = sleeps w"
    using c unfolding w' by (simp_all add: Let_def set_type_def sync_counts_def)
qed

text \<open>The state a watch meets: that of a type in use, or a new one without watchers.\<close>

definition type_ok_or_new :: "string \<Rightarrow> 'v TypeState \<Rightarrow> bool" where
  "type_ok_or_new url ts \<longleftrightarrow> type_ok url ts \<or>
     (ts_type_url ts = url \<and> ts_watchers ts = [] \<and> ts_cache ts = [] \<and> ts_subscription ts = Named [])"

lemma state_for_ok: "worker_ok w \<Longrightarrow> type_ok_or_new (wa_type_url a) (state_for a w)"
  by (auto simp: state_for_def type_ok_or_new_def type_state_new_def worker_ok_def split: option.split)

lemma map_of_cache_with:
  "map_of (cache_with a ts) = (if wa_name a \<noteq> [] \<and> map_of (ts_cache ts) (wa_name a) = None
     then (map_of (ts_cache ts))(wa_name a \<mapsto> cr_requested) else map_of (ts_cache ts))"
  by (simp add: cache_with_def update_conv')

lemma watchers_with_cases:
  "(i, e) \<in> set (watchers_with a ts) \<Longrightarrow>
     (i, e) \<in> set (ts_watchers ts) \<or>
     i = wa_watcher_id a \<and> event_tx e = wa_event_tx a \<and> we_subscription e = from_name (wa_name a)"
  using set_update_sub unfolding watchers_with_def by fastforce

lemma type_ok_state_with:
  assumes "type_ok_or_new (wa_type_url a) ts"
  shows "type_ok (wa_type_url a) (state_with a ts)"
proof -
  have d: "distinct (map fst (ts_watchers ts))" "distinct (map fst (ts_cache ts))" "ts_type_url ts = wa_type_url a"
    and n: "\<And>i e n. (i, e) \<in> set (ts_watchers ts) \<Longrightarrow> we_subscription e = WatchName n \<Longrightarrow>
        n \<noteq> [] \<and> map_of (ts_cache ts) n \<noteq> None"
    and r: "\<And>n c. map_of (ts_cache ts) n = Some c \<Longrightarrow> (cr_state c = Received \<longleftrightarrow> cr_resource c \<noteq> None)"
    using assms unfolding type_ok_or_new_def type_ok_def by fastforce+
  have "n \<noteq> [] \<and> map_of (cache_with a ts) n \<noteq> None"
    if "(i, e) \<in> set (watchers_with a ts)" "we_subscription e = WatchName n" for i e n
    using watchers_with_cases [OF that(1)] that(2) n
    by (auto simp: from_name_def map_of_cache_with split: if_splits)
  moreover have "watchers_with a ts \<noteq> []" using in_update unfolding watchers_with_def by force
  moreover have "distinct (map fst (watchers_with a ts))" "distinct (map fst (cache_with a ts))"
    using d(1,2) by (simp_all add: watchers_with_def cache_with_def distinct_update)
  moreover have "cr_state c = Received \<longleftrightarrow> cr_resource c \<noteq> None" if "map_of (cache_with a ts) n = Some c" for n c
    using that r [of n c] by (auto simp only: map_of_cache_with fun_upd_apply option.inject entry_simps split: if_splits)
  ultimately show ?thesis using d(3) unfolding type_ok_def state_with_def by (auto simp del: map_of_eq_Some_iff not_None_eq)
qed

lemma add_watcher_base_inv:
  assumes inv: "base_inv U w" and fresh: "wa_event_tx a \<notin> U" and add: "add_watcher a w = (changed, w')"
  shows "base_inv (insert (wa_event_tx a) U) w'"
proof -
  let ?url = "wa_type_url a" and ?ts = "state_for a w" and ?tx = "wa_event_tx a"
  note ok = base_invD(1) [OF inv] and eqs = add_watcher_eq [OF add]
  have types: "map_of (type_states w') = (map_of (type_states w))(?url \<mapsto> state_with a ?ts)" by (simp add: eqs(2) update_conv')
  note tok = state_for_ok [OF ok, of a]
  have old: "map_of (type_states w) ?url = Some ?ts" if "(i, e) \<in> set (ts_watchers ?ts)" for i e
    using that by (auto simp: state_for_def type_state_new_def split: option.splits)
  have old2: "map_of (type_states w) ?url = Some ?ts" if "map_of (ts_cache ?ts) n = Some c" for n c
    using that by (auto simp: state_for_def type_state_new_def split: option.splits)
  have "\<exists>ts c. map_of (type_states w') u = Some ts \<and> map_of (ts_cache ts) n = Some c \<and> is_requested c"
    if tm: "map_of (resource_timers w) (u, n) = Some i" for u n i
  proof -
    obtain ts c where "map_of (type_states w) u = Some ts" "map_of (ts_cache ts) n = Some c" "is_requested c"
      using ok tm unfolding worker_ok_def by blast
    then show ?thesis by (cases "u = ?url") (auto simp: types state_with_def map_of_cache_with state_for_def)
  qed
  moreover have "type_ok u t" if "map_of (type_states w') u = Some t" for u t
    using that worker_okD(3) [OF ok, of u t] type_ok_state_with [OF tok] unfolding types by (auto split: if_splits)
  moreover have "distinct (map fst (type_states w'))"
    using worker_okD(1) [OF ok] by (simp only: eqs(2) distinct_update)
  ultimately have "worker_ok w'" using worker_okD(2) [OF ok] unfolding worker_ok_def eqs(4) by blast
  moreover
  have watch: "(\<exists>t. map_of (type_states w) u = Some t \<and> (i, e) \<in> set (ts_watchers t)) \<or>
      (u = ?url \<and> i = wa_watcher_id a \<and> event_tx e = ?tx \<and> we_subscription e = from_name (wa_name a))"
    if "map_of (type_states w') u = Some t" "(i, e) \<in> set (ts_watchers t)" for u t i e
    using that old watchers_with_cases [of i e a ?ts] by (cases "u = ?url") (auto simp: types state_with_def)
  have in_U: "event_tx e \<in> U" if "map_of (type_states w) u = Some t" "(i, e) \<in> set (ts_watchers t)" for u t i e
    using base_invD(3) [OF inv] that unfolding channels_ok_def by blast
  have "channels_ok (insert ?tx U) w'"
    unfolding channels_ok_def
  proof (intro conjI allI impI)
    show "fst ` set (delivered w') \<subseteq> insert ?tx U"
      using base_invD(3) [OF inv] unfolding eqs(3) channels_ok_def by (auto simp: greeting_def split: option.splits)
    show "event_tx e \<in> insert ?tx U" if "map_of (type_states w') u = Some t" "(i, e) \<in> set (ts_watchers t)" for u t i e
      using watch [OF that] in_U by auto
    fix u t i e u' t' i' e'
    assume "map_of (type_states w') u = Some t" "(i, e) \<in> set (ts_watchers t)"
      "map_of (type_states w') u' = Some t'" "(i', e') \<in> set (ts_watchers t')" "event_tx e = event_tx e'"
    then have "u = u' \<and> i = i'"
      using watch [of u t i e] watch [of u' t' i' e'] in_U fresh base_invD(3) [OF inv] unfolding channels_ok_def by metis
    then show "u = u'" "i = i'" by blast+
  qed
  moreover have "consistent w'"
    unfolding consistent_def
  proof (intro allI impI)
    fix u t i e n c
    assume t: "map_of (type_states w') u = Some t" "(i, e) \<in> set (ts_watchers t)" "we_subscription e = WatchName n"
      "map_of (ts_cache t) n = Some c"
    show "last_seen (event_tx e) (delivered w') = shown c"
    proof (cases "event_tx e = ?tx")
      case True
      have noU: "?tx \<notin> fst ` set (delivered w)" using fresh base_invD(3) [OF inv] unfolding channels_ok_def by blast
      have "u = ?url \<and> we_subscription e = from_name (wa_name a)"
        using watch [OF t(1,2)] in_U [of u _ i e] True fresh by metis
      then have new: "u = ?url" "wa_name a \<noteq> []" "n = wa_name a" using t(3) by (auto simp: from_name_def split: if_splits)
      then have c: "map_of (cache_with a ?ts) n = Some c" using t(1,4) by (auto simp: types state_with_def)
      have one: "last_seen ?tx (delivered w @ [(?tx, ev)]) = event_result ev" for ev
        using last_seen_append [of ?tx "delivered w" ev "[?tx]"] by simp
      show ?thesis
      proof (cases "map_of (ts_cache ?ts) n")
        case None
        then show ?thesis using c new noU by (simp add: True eqs(3) greeting_def map_of_cache_with)
      next
        case (Some d)
        then have "d = c" using c new by (simp add: map_of_cache_with)
        then show ?thesis using Some new noU by (simp add: True eqs(3) greeting_def shown_def one split: option.split)
      qed
    next
      case False
      then obtain t0 where t0: "map_of (type_states w) u = Some t0" "(i, e) \<in> set (ts_watchers t0)" using watch [OF t(1,2)] by blast
      have "map_of (ts_cache t0) n = Some c"
      proof (cases "u = ?url")
        case True
        then have "?ts = t0" using t0(1) by (simp add: state_for_def)
        moreover have "map_of (ts_cache t0) n \<noteq> None"
          using worker_okD(3) [OF ok t0(1)] t0(2) t(3) unfolding type_ok_def by fastforce
        ultimately show ?thesis using t(1,4) True by (auto simp: types state_with_def map_of_cache_with split: if_splits)
      next
        case False
        then show ?thesis using t(1,4) t0(1) by (simp add: types)
      qed
      then have "last_seen (event_tx e) (delivered w) = shown c"
        using base_invD(2) [OF inv] t0 t(3) unfolding consistent_def by blast
      moreover have "last_seen (event_tx e) (delivered w @ greeting a ?ts) = last_seen (event_tx e) (delivered w)"
        using False last_seen_append [of "event_tx e" "delivered w" _ "[?tx]"] by (simp add: greeting_def split: option.split)
      ultimately show ?thesis by (simp add: eqs(3))
    qed
  qed
  ultimately show ?thesis by (simp add: base_inv_def)
qed

lemma map_of_filter_case: "map_of (filter (\<lambda>(k, _). P k) xs) k = (if P k then map_of xs k else None)"
  by (induction xs) auto

lemma find_type:
  assumes "distinct (map fst xs)" "find P xs = Some (url, ts)"
  shows "map_of xs url = Some ts" "P (url, ts)"
proof -
  show "P (url, ts)" using assms(2) by (auto simp: find_Some_iff)
  have "(url, ts) \<in> set xs" using assms(2) by (auto simp: find_Some_iff)
  then show "map_of xs url = Some ts" using assms(1) by simp
qed

text \<open>The state a type is left in when a watcher goes.\<close>

definition state_without :: "WatcherId \<Rightarrow> 'v TypeState \<Rightarrow> 'v TypeState" where
  "state_without i ts = ts\<lparr>ts_watchers := AList.delete i (ts_watchers ts),
     ts_subscription := mode_of (AList.delete i (ts_watchers ts))\<rparr>"

lemma remove_watcher_cases:
  assumes "worker_ok w" "remove_watcher i w = (res, w')"
  obtains "res = None" "w' = w"
  | url ts where "map_of (type_states w) url = Some ts" "ts_watchers (state_without i ts) = []"
      "res = Some (url, \<not> mode_eq (ts_subscription (state_without i ts)) (ts_subscription ts))"
      "w' = w\<lparr>type_states := AList.delete url (type_states w),
              recorder := sync_resource_counts url [] (recorder w),
              resource_timers := filter (\<lambda>(key, _). fst key \<noteq> url) (resource_timers w)\<rparr>"
  | url ts where "map_of (type_states w) url = Some ts" "ts_watchers (state_without i ts) \<noteq> []"
      "res = Some (url, \<not> mode_eq (ts_subscription (state_without i ts)) (ts_subscription ts))"
      "w' = set_type url (state_without i ts) w"
proof (cases "find (\<lambda>(_, ts). map_of (ts_watchers ts) i \<noteq> None) (type_states w)")
  case None
  then show ?thesis using assms(2) that(1) by (simp add: remove_watcher_def)
next
  case (Some p)
  obtain url ts where p: "p = (url, ts)" by fastforce
  have t: "map_of (type_states w) url = Some ts" using find_type(1) [OF worker_okD(1) [OF assms(1)]] Some p by blast
  have u: "ts_type_url ts = url" using worker_okD(6) [OF assms(1) t] .
  have eq: "remove_watcher i w = (Some (url, \<not> mode_eq (ts_subscription (state_without i ts)) (ts_subscription ts)),
      if ts_watchers (state_without i ts) = []
      then w\<lparr>type_states := AList.delete url (type_states w),
             recorder := sync_resource_counts url [] (recorder w),
             resource_timers := filter (\<lambda>(key, _). fst key \<noteq> url) (resource_timers w)\<rparr>
      else set_type url (state_without i ts) w)"
    using Some p u by (simp add: remove_watcher_def Let_def recalculate_eq state_without_def)
  show ?thesis
  proof (cases "ts_watchers (state_without i ts) = []")
    case True
    then show ?thesis using that(2) [OF t] eq assms(2) by simp
  next
    case False
    then show ?thesis using that(3) [OF t] eq assms(2) by simp
  qed
qed

lemma type_ok_without:
  assumes "type_ok url ts" "ts_watchers (state_without i ts) \<noteq> []"
  shows "type_ok url (state_without i ts)"
proof -
  have "\<forall>(j, e) \<in> set (AList.delete i (ts_watchers ts)). \<forall>n. we_subscription e = WatchName n \<longrightarrow>
      n \<noteq> [] \<and> map_of (ts_cache ts) n \<noteq> None"
    using assms(1) set_delete_sub [of i "ts_watchers ts"] unfolding type_ok_def by (meson subsetD)
  then show ?thesis using assms unfolding type_ok_def state_without_def by (simp add: distinct_delete)
qed

text \<open>Fewer watchers and fewer types keep what is said of all of them.\<close>

lemma fewer_watchers:
  assumes "consistent w" "channels_ok U w" "delivered w' = delivered w"
    "\<And>u t. map_of (type_states w') u = Some t \<Longrightarrow>
       \<exists>t0. map_of (type_states w) u = Some t0 \<and> ts_cache t = ts_cache t0 \<and> set (ts_watchers t) \<subseteq> set (ts_watchers t0)"
  shows "consistent w'" "channels_ok U w'"
proof -
  have orig: "\<exists>t0. map_of (type_states w) u = Some t0 \<and> ts_cache t = ts_cache t0 \<and> (i, e) \<in> set (ts_watchers t0)"
    if "map_of (type_states w') u = Some t" "(i, e) \<in> set (ts_watchers t)" for u t i e
    using assms(4) [OF that(1)] that(2) by blast
  show "consistent w'"
    unfolding consistent_def assms(3)
  proof (intro allI impI)
    fix u t i e n c
    assume t: "map_of (type_states w') u = Some t" "(i, e) \<in> set (ts_watchers t)" "we_subscription e = WatchName n"
      "map_of (ts_cache t) n = Some c"
    then obtain t0 where "map_of (type_states w) u = Some t0" "ts_cache t = ts_cache t0" "(i, e) \<in> set (ts_watchers t0)"
      using orig [OF t(1,2)] by blast
    then show "last_seen (event_tx e) (delivered w) = shown c"
      using assms(1) t(3,4) unfolding consistent_def by (metis (no_types))
  qed
  show "channels_ok U w'"
    unfolding channels_ok_def assms(3)
  proof (intro conjI allI impI)
    show "fst ` set (delivered w) \<subseteq> U" using assms(2) unfolding channels_ok_def by blast
    show "event_tx e \<in> U" if "map_of (type_states w') u = Some t" "(i, e) \<in> set (ts_watchers t)" for u t i e
      using orig [OF that] assms(2) unfolding channels_ok_def by blast
    fix u t i e u' t' i' e'
    assume a: "map_of (type_states w') u = Some t" "(i, e) \<in> set (ts_watchers t)"
      "map_of (type_states w') u' = Some t'" "(i', e') \<in> set (ts_watchers t')" "event_tx e = event_tx e'"
    obtain t0 t1 where "map_of (type_states w) u = Some t0" "(i, e) \<in> set (ts_watchers t0)"
      "map_of (type_states w) u' = Some t1" "(i', e') \<in> set (ts_watchers t1)"
      using orig [OF a(1,2)] orig [OF a(3,4)] by blast
    with assms(2) a(5) show "u = u'" "i = i'" unfolding channels_ok_def by blast+
  qed
qed

lemma remove_watcher_base_inv:
  assumes "base_inv U w" "remove_watcher i w = (res, w')"
  shows "base_inv U w'"
  using base_invD(1) [OF assms(1)] assms(2)
proof (cases rule: remove_watcher_cases)
  case 1
  then show ?thesis using assms(1) by simp
next
  case (2 url ts)
  note ok = base_invD(1) [OF assms(1)]
  have types: "map_of (type_states w') = (map_of (type_states w))(url := None)" by (simp add: 2(4) delete_conv')
  have timers: "map_of (resource_timers w') k = (if fst k = url then None else map_of (resource_timers w) k)" for k
    unfolding 2(4) using map_of_filter_case [of "\<lambda>k. fst k \<noteq> url" "resource_timers w" k] by simp
  have "worker_ok w'"
    unfolding worker_ok_def
  proof (intro conjI allI impI)
    show "distinct (map fst (type_states w'))" using worker_okD(1) [OF ok] by (simp add: 2(4) distinct_delete)
    show "distinct (map fst (resource_timers w'))" using worker_okD(2) [OF ok] by (simp add: 2(4) distinct_map_filter)
    show "type_ok u t" if "map_of (type_states w') u = Some t" for u t
      using that worker_okD(3) [OF ok] unfolding types by (auto split: if_splits)
    fix u n j
    assume "map_of (resource_timers w') (u, n) = Some j"
    then have "u \<noteq> url" "map_of (resource_timers w) (u, n) = Some j" unfolding timers by (auto split: if_splits)
    then obtain t c where "map_of (type_states w) u = Some t" "map_of (ts_cache t) n = Some c" "is_requested c"
      using ok unfolding worker_ok_def by blast
    with \<open>u \<noteq> url\<close> show "\<exists>ts c. map_of (type_states w') u = Some ts \<and> map_of (ts_cache ts) n = Some c \<and> is_requested c"
      unfolding types by auto
  qed
  moreover have "consistent w'" "channels_ok U w'"
    by (rule fewer_watchers [OF base_invD(2,3) [OF assms(1)]]; auto simp: types 2(4) delete_conv' split: if_splits)+
  ultimately show ?thesis by (simp add: base_inv_def)
next
  case (3 url ts)
  note ok = base_invD(1) [OF assms(1)]
  have types: "map_of (type_states w') = (map_of (type_states w))(url \<mapsto> state_without i ts)" by (simp add: 3(4))
  have frame: "resource_timers w' = resource_timers w" "delivered w' = delivered w" by (simp_all add: 3(4))
  have cache: "ts_cache (state_without i ts) = ts_cache ts" by (simp add: state_without_def)
  have "worker_ok w'"
    unfolding worker_ok_def
  proof (intro conjI allI impI)
    show "distinct (map fst (type_states w'))" using worker_okD(1) [OF ok] by (simp add: 3(4) set_type_def distinct_update)
    show "distinct (map fst (resource_timers w'))" using worker_okD(2) [OF ok] by (simp add: frame)
    show "type_ok u t" if "map_of (type_states w') u = Some t" for u t
      using that worker_okD(3) [OF ok] type_ok_without [OF worker_okD(3) [OF ok 3(1)] 3(2)] unfolding types by (auto split: if_splits)
    fix u n j
    assume "map_of (resource_timers w') (u, n) = Some j"
    then obtain t c where "map_of (type_states w) u = Some t" "map_of (ts_cache t) n = Some c" "is_requested c"
      using ok unfolding worker_ok_def frame by blast
    then show "\<exists>ts c. map_of (type_states w') u = Some ts \<and> map_of (ts_cache ts) n = Some c \<and> is_requested c"
      using 3(1) cache by (cases "u = url") (auto simp: types)
  qed
  moreover have "\<exists>t0. map_of (type_states w) u = Some t0 \<and> ts_cache t = ts_cache t0 \<and> set (ts_watchers t) \<subseteq> set (ts_watchers t0)"
    if "map_of (type_states w') u = Some t" for u t
    using that 3(1) set_delete_sub [of i "ts_watchers ts"] by (cases "u = url") (auto simp: types state_without_def)
  then have "consistent w'" "channels_ok U w'" using fewer_watchers [OF base_invD(2,3) [OF assms(1)] frame(2)] by blast+
  ultimately show ?thesis by (simp add: base_inv_def)
qed

lemma mode_eq_names:
  "mode_eq a b \<Longrightarrow> set (resource_names_for_request a) = set (resource_names_for_request b)"
  by (cases a; cases b) auto

subsection \<open>Commands of watchers\<close>

text \<open>
  What holds between commands: the worker is well-formed and its watchers are told what it has; a live stream has timers
  for what is awaited and has been told every subscription; without one no timer runs.
\<close>

definition stream_inv :: "nat option \<Rightarrow> ('v, 'n) AdsWorker \<Rightarrow> bool" where
  "stream_inv live w \<longleftrightarrow>
     (case live of None \<Rightarrow> resource_timers w = [] | Some tx \<Rightarrow> \<forall>u. covered_at u w \<and> informed_at tx u w)"

lemma set_type_other:
  assumes "map_of (type_states w') = (map_of (type_states w))(url := x)" "resource_initial_timeout w' = resource_initial_timeout w"
    "written w' = written w" "\<And>n. u \<noteq> url \<Longrightarrow> map_of (resource_timers w') (u, n) = map_of (resource_timers w) (u, n)" "u \<noteq> url"
  shows "covered_at u w' = covered_at u w" "informed_at tx u w' = informed_at tx u w"
  using assms by (auto simp: covered_at_def informed_at_def)

lemma handle_watch:
  assumes inv: "base_inv U w" and str: "stream_inv live w" and fresh: "wa_event_tx a \<notin> U"
    and h: "handle_command C live (Watch a) w = (res, w')"
  shows "base_inv (insert (wa_event_tx a) U) w'" "\<not> isl res \<Longrightarrow> stream_inv live w'"
proof -
  let ?url = "wa_type_url a"
  obtain changed w1 where add: "add_watcher a w = (changed, w1)" by fastforce
  note eqs = add_watcher_eq [OF add] and inv1 = add_watcher_base_inv [OF inv fresh add]
  have types: "map_of (type_states w1) = (map_of (type_states w))(?url \<mapsto> state_with a (state_for a w))"
    by (simp add: eqs(2) update_conv')
  show "base_inv (insert (wa_event_tx a) U) w'" and "\<not> isl res \<Longrightarrow> stream_inv live w'"
  proof (atomize (full), cases live)
    case None
    then have "res = Inr ()" "w' = w1" using h add by simp_all
    then show "base_inv (insert (wa_event_tx a) U) w' \<and> (\<not> isl res \<longrightarrow> stream_inv live w')"
      using None inv1 str by (simp add: stream_inv_def eqs(4))
  next
    case (Some tx)
    have other: "covered_at u w1 = covered_at u w" "informed_at tx u w1 = informed_at tx u w" if "u \<noteq> ?url" for u
      using set_type_other [OF types eqs(8,5) _ that] eqs(4) by simp_all
    show "base_inv (insert (wa_event_tx a) U) w' \<and> (\<not> isl res \<longrightarrow> stream_inv live w')"
    proof (cases changed)
      case True
      then have s: "send_request C tx ?url w1 = (res, w')" using h add Some by simp
      note p = send_request_props [OF inv1 s]
      have "covered_at u w' \<and> informed_at tx u w'" if "\<not> isl res" for u
        using p(4-7) [OF that] other [of u] str Some by (cases "u = ?url") (simp_all add: stream_inv_def)
      then show ?thesis using p(1) Some by (simp add: stream_inv_def)
    next
      case False
      then have r: "res = Inr ()" "w' = start_pending_resource_timers ?url w1" using h add Some by simp_all
      note ok1 = base_invD(1) [OF inv1]
      have same: "mode_eq (ts_subscription (state_with a (state_for a w))) (ts_subscription (state_for a w))"
        using False eqs(1) by simp
      have "map_of (type_states w) ?url = Some (state_for a w)"
      proof (rule ccontr)
        assume "map_of (type_states w) ?url \<noteq> Some (state_for a w)"
        then have new: "state_for a w = type_state_new ?url (wa_decoder a) (wa_all_required a)"
          by (auto simp: state_for_def split: option.splits)
        have "wa_name a \<noteq> [] \<Longrightarrow> set (watched_names (watchers_with a (state_for a w))) = {wa_name a}"
          by (auto simp: set_watched_names new watchers_with_def type_state_new_def from_name_def)
        with same show False
          by (cases "wa_name a = []")
            (auto simp: state_with_def mode_of_def watchers_with_def type_state_new_def new from_name_def)
      qed
      then have "informed_at tx ?url w1"
        using str Some mode_eq_names [OF same]
        by (simp add: stream_inv_def informed_at_def types eqs(5) tells_def state_with_def)
      then have "covered_at u w' \<and> informed_at tx u w'" for u
        using r pending_timers(2) [OF ok1, of ?url] pending_timers(3) [OF ok1, of u ?url] other [of u] str Some
        by (cases "u = ?url") (simp_all add: stream_inv_def)
      then show ?thesis using r pending_base_inv [OF inv1] Some by (simp add: stream_inv_def)
    qed
  qed
qed

lemma handle_unwatch:
  assumes inv: "base_inv U w" and str: "stream_inv live w" and h: "handle_command C live (Unwatch i) w = (res, w')"
  shows "base_inv U w'" "\<not> isl res \<Longrightarrow> stream_inv live w'"
proof -
  obtain r w1 where rem: "remove_watcher i w = (r, w1)" by fastforce
  note inv1 = remove_watcher_base_inv [OF inv rem]
  have str1: "(case live of None \<Rightarrow> resource_timers w1 = [] | Some tx \<Rightarrow>
      (\<forall>u. (covered_at u w1 \<or> (\<exists>b. r = Some (u, b) \<and> b)) \<and> (informed_at tx u w1 \<or> r = Some (u, True))))"
    using base_invD(1) [OF inv] rem
  proof (cases rule: remove_watcher_cases)
    case 1
    then show ?thesis using str by (auto simp: stream_inv_def split: option.splits)
  next
    case (2 url ts)
    have types: "map_of (type_states w1) = (map_of (type_states w))(url := None)" by (simp add: 2(4) delete_conv')
    have "map_of (resource_timers w1) (u, n) = map_of (resource_timers w) (u, n)" if "u \<noteq> url" for u n
      unfolding 2(4) using map_of_filter_case [of "\<lambda>k. fst k \<noteq> url" "resource_timers w" "(u, n)"] that by simp
    then have "covered_at u w1 = covered_at u w \<and> informed_at tx u w1 = informed_at tx u w" if "u \<noteq> url" for u tx
      using set_type_other [OF types _ _ _ that] 2(4) that by simp
    moreover have "covered_at url w1" "informed_at tx url w1" for tx by (simp_all add: covered_at_def informed_at_def types)
    ultimately show ?thesis using str 2(4) by (auto simp: stream_inv_def split: option.splits) metis+
  next
    case (3 url ts)
    have types: "map_of (type_states w1) = (map_of (type_states w))(url \<mapsto> state_without i ts)" by (simp add: 3(4))
    have other: "covered_at u w1 = covered_at u w \<and> informed_at tx u w1 = informed_at tx u w" if "u \<noteq> url" for u tx
      using set_type_other [OF types _ _ _ that] 3(4) that by simp
    have "set (pending_names (state_without i ts)) \<subseteq> set (pending_names ts)"
      using set_delete_sub [of i "ts_watchers ts"] unfolding set_pending_names subset_iff state_without_def by simp blast
    then have cov: "covered_at url w \<Longrightarrow> covered_at url w1" using 3(1) by (auto simp: covered_at_def types 3(4))
    have inf: "informed_at tx url w1" if "informed_at tx url w" "mode_eq (ts_subscription (state_without i ts)) (ts_subscription ts)" for tx
      using that(1) mode_eq_names [OF that(2)] 3(1)
      by (auto simp: informed_at_def types 3(4) tells_def state_without_def)
    show ?thesis
    proof (cases live)
      case None
      then show ?thesis using str 3(4) by (simp add: stream_inv_def)
    next
      case (Some tx)
      have "covered_at u w1 \<and> (informed_at tx u w1 \<or> r = Some (u, True))" for u
        using str Some other [of u] cov inf [of tx] 3(3) by (cases "u = url") (auto simp: stream_inv_def)
      then show ?thesis using Some by simp
    qed
  qed
  have h1: "(case r of Some (url, True) \<Rightarrow> (case live of None \<Rightarrow> (Inr (), w1) | Some tx \<Rightarrow> send_request C tx url w1)
      | _ \<Rightarrow> (Inr (), w1)) = (res, w')"
    using h rem by (simp split: option.splits bool.splits prod.splits)
  show "base_inv U w'" and "\<not> isl res \<Longrightarrow> stream_inv live w'"
  proof (atomize (full), cases "\<exists>url tx. r = Some (url, True) \<and> live = Some tx")
    case True
    then obtain url tx where e: "r = Some (url, True)" "live = Some tx" by blast
    then have s: "send_request C tx url w1 = (res, w')" using h1 by simp
    note p = send_request_props [OF inv1 s]
    have "covered_at u w' \<and> informed_at tx u w'" if "\<not> isl res" for u
      using p(4-7) [OF that] str1 e by (cases "u = url") auto
    then show "base_inv U w' \<and> (\<not> isl res \<longrightarrow> stream_inv live w')" using p(1) e by (simp add: stream_inv_def)
  next
    case False
    then have "w' = w1" using h1 by (auto split: option.splits bool.splits prod.splits)
    then show "base_inv U w' \<and> (\<not> isl res \<longrightarrow> stream_inv live w')"
      using inv1 str1 False by (cases live) (auto simp: stream_inv_def)
  qed
qed

lemma stores_stream_inv:
  assumes "stores url w w'" "stream_inv live w"
  shows "stream_inv live w'"
proof (cases live)
  case None
  have "stores url w w' \<Longrightarrow> resource_timers w = [] \<Longrightarrow> resource_timers w' = []"
  proof (induction rule: stores.induct)
    case (stores_step w w1 ts n c w2)
    then have "map_of (resource_timers w2) = Map.empty" unfolding stored_def by auto
    then show ?case by simp
  qed simp_all
  then show ?thesis using assms None by (simp add: stream_inv_def)
next
  case (Some tx)
  then have "covered w'" "informed tx w'"
    using assms stores_covered [OF assms(1)] stores_informed [OF assms(1)] by (simp_all add: stream_inv_def covered_iff informed_iff)
  then show ?thesis using Some by (simp add: stream_inv_def covered_iff informed_iff)
qed

lemma handle_command_inv:
  assumes "base_inv U w" "stream_inv live w" "\<And>a. cmd = Watch a \<Longrightarrow> wa_event_tx a \<notin> U"
    "handle_command C live cmd w = (res, w')"
  shows "base_inv (case cmd of Watch a \<Rightarrow> insert (wa_event_tx a) U | _ \<Rightarrow> U) w'" "\<not> isl res \<Longrightarrow> stream_inv live w'"
proof (atomize (full), cases cmd)
  case (Watch a)
  then show "base_inv (case cmd of Watch a \<Rightarrow> insert (wa_event_tx a) U | _ \<Rightarrow> U) w' \<and> (\<not> isl res \<longrightarrow> stream_inv live w')"
    using handle_watch [OF assms(1,2)] assms(3,4) by simp
next
  case (Unwatch i)
  then show "base_inv (case cmd of Watch a \<Rightarrow> insert (wa_event_tx a) U | _ \<Rightarrow> U) w' \<and> (\<not> isl res \<longrightarrow> stream_inv live w')"
    using handle_unwatch [OF assms(1,2)] assms(4) by simp
next
  case (ResourceTimerExpired url n i)
  then have "w' = handle_resource_timeout url n i w" using assms(4) by simp
  moreover have "stores url w (handle_resource_timeout url n i w)" using base_invD(1) [OF assms(1)] by (rule stores_timeout)
  ultimately show "base_inv (case cmd of Watch a \<Rightarrow> insert (wa_event_tx a) U | _ \<Rightarrow> U) w' \<and> (\<not> isl res \<longrightarrow> stream_inv live w')"
    using stores_base_inv stores_stream_inv assms(1,2) ResourceTimerExpired by auto
qed

subsection \<open>Responses and the stream\<close>

lemma map_type_simps [simp]:
  "map_of (type_states (map_type url f w)) = (\<lambda>u. if u = url then map_option f (map_of (type_states w) url) else map_of (type_states w) u)"
  "delivered (map_type url f w) = delivered w" "resource_timers (map_type url f w) = resource_timers w"
  "written (map_type url f w) = written w" "node (map_type url f w) = node w" "room (map_type url f w) = room w"
  "resource_initial_timeout (map_type url f w) = resource_initial_timeout w" "recorder (map_type url f w) = recorder w"
  by (auto simp: map_type_def split: option.split)

lemma distinct_map_type: "distinct (map fst (type_states w)) \<Longrightarrow> distinct (map fst (type_states (map_type url f w)))"
  by (simp add: map_type_def set_type_def distinct_update split: option.split)

text \<open>Changes of a type's version and nonce matter only to what the stream was told.\<close>

definition same_but_protocol :: "'v TypeState \<Rightarrow> 'v TypeState \<Rightarrow> bool" where
  "same_but_protocol t t0 \<longleftrightarrow>
     ts_type_url t = ts_type_url t0 \<and> ts_watchers t = ts_watchers t0 \<and> ts_cache t = ts_cache t0 \<and>
     ts_subscription t = ts_subscription t0"

lemma type_ok_same: "same_but_protocol t t0 \<Longrightarrow> type_ok u t0 \<Longrightarrow> type_ok u t"
  by (cases t; cases t0) (simp add: type_ok_def same_but_protocol_def del: map_of_eq_Some_iff not_None_eq)

lemma protocol_type:
  assumes "rel_option same_but_protocol (map_of (type_states w') u) (map_of (type_states w) u)"
  shows "map_of (type_states w') u = Some t \<Longrightarrow> \<exists>t0. map_of (type_states w) u = Some t0 \<and> same_but_protocol t t0"
    "map_of (type_states w) u = Some t0 \<Longrightarrow> \<exists>t. map_of (type_states w') u = Some t \<and> same_but_protocol t t0"
  using assms by (cases "map_of (type_states w) u"; cases "map_of (type_states w') u"; simp)+

lemma protocol_worker_ok:
  assumes ok: "worker_ok w"
    and types: "\<And>u. rel_option same_but_protocol (map_of (type_states w') u) (map_of (type_states w) u)"
    and dist: "distinct (map fst (type_states w'))"
    and timers: "resource_timers w' = resource_timers w"
  shows "worker_ok w'"
  unfolding worker_ok_def timers
proof (intro conjI allI impI)
  show "distinct (map fst (type_states w'))" by (rule dist)
  show "distinct (map fst (resource_timers w))" using worker_okD(2) [OF ok] .
  show "type_ok u t" if t: "map_of (type_states w') u = Some t" for u t
    using protocol_type(1) [OF types t] worker_okD(3) [OF ok] type_ok_same by blast
  fix u n j
  assume "map_of (resource_timers w) (u, n) = Some j"
  then obtain t0 c where t0: "map_of (type_states w) u = Some t0" and c: "map_of (ts_cache t0) n = Some c" "is_requested c"
    using ok unfolding worker_ok_def by blast
  obtain t where "map_of (type_states w') u = Some t" "ts_cache t = ts_cache t0"
    using protocol_type(2) [OF types t0] unfolding same_but_protocol_def by blast
  then show "\<exists>ts c. map_of (type_states w') u = Some ts \<and> map_of (ts_cache ts) n = Some c \<and> is_requested c"
    using c by auto
qed

lemma protocol_base_inv:
  assumes inv: "base_inv U w"
    and types: "\<And>u. rel_option same_but_protocol (map_of (type_states w') u) (map_of (type_states w) u)"
    and dist: "distinct (map fst (type_states w'))"
    and frame: "delivered w' = delivered w" "resource_timers w' = resource_timers w"
  shows "base_inv U w'"
proof -
  have "worker_ok w'" using protocol_worker_ok [OF base_invD(1) [OF inv] types dist frame(2)] .
  moreover have "\<exists>t0. map_of (type_states w) u = Some t0 \<and> ts_cache t = ts_cache t0 \<and> set (ts_watchers t) \<subseteq> set (ts_watchers t0)"
    if t: "map_of (type_states w') u = Some t" for u t
    using protocol_type(1) [OF types t] unfolding same_but_protocol_def by auto
  then have "consistent w'" "channels_ok U w'" using fewer_watchers [OF base_invD(2,3) [OF inv] frame(1)] by blast+
  ultimately show ?thesis by (simp add: base_inv_def)
qed

lemma protocol_covered:
  assumes "rel_option same_but_protocol (map_of (type_states w') u) (map_of (type_states w) u)"
    "resource_timers w' = resource_timers w" "resource_initial_timeout w' = resource_initial_timeout w"
  shows "covered_at u w' = covered_at u w"
proof -
  have "pending_names t = pending_names t0" if same: "same_but_protocol t t0" for t t0 :: "'a TypeState"
  proof -
    have e: "ts_cache t = ts_cache t0" "ts_watchers t = ts_watchers t0" using same by (simp_all add: same_but_protocol_def)
    show ?thesis unfolding pending_names_def e ..
  qed
  then show ?thesis using assms by (cases "map_of (type_states w) u"; cases "map_of (type_states w') u") (auto simp: covered_at_def)
qed

lemma map_type_protocol:
  assumes "\<And>t. same_but_protocol (f t) t"
  shows "rel_option same_but_protocol (map_of (type_states (map_type url f w)) u) (map_of (type_states w) u)"
proof -
  have "rel_option same_but_protocol x x" for x :: "'a TypeState option"
    by (cases x) (simp_all add: same_but_protocol_def)
  then show ?thesis using assms by (cases "map_of (type_states w) url") simp_all
qed

text \<open>
  The part of \<open>handle_response\<close> before the request that ends it: the response is counted and its nonce noted, then
  its valid resources, its invalid resources and the resources it lacks are dealt with.
\<close>

definition noted :: "nat \<Rightarrow> DiscoveryResponse \<Rightarrow> 'v TypeState \<Rightarrow> ('v, 'n) AdsWorker \<Rightarrow> ('v, 'n) AdsWorker" where
  "noted tm response ts w =
     (let d = decode_resources (ts_decoder ts) tm response
      in map_type (resp_type_url response) (\<lambda>ts. ts\<lparr>ts_nonce := resp_nonce response\<rparr>)
           (w\<lparr>recorder := record_resource_updates (ts_type_url ts) (length (valid_resources d))
                 (length (top_level_errors d) + length (per_resource_errors d)) (recorder w)\<rparr>))"

definition rejection :: "nat \<Rightarrow> DiscoveryResponse \<Rightarrow> string \<Rightarrow> RejectedUpdate" where
  "rejection tm response e = \<lparr>ru_version_info = resp_version_info response, ru_details = e, ru_last_update_attempt = tm\<rparr>"

definition dispatched :: "nat \<Rightarrow> DiscoveryResponse \<Rightarrow> nat \<Rightarrow> 'v TypeState \<Rightarrow> ('v, 'n) AdsWorker \<Rightarrow> ('v, 'n) AdsWorker" where
  "dispatched tm response dn ts w =
     dispatch_resources (resp_type_url response) (valid_resources (decode_resources (ts_decoder ts) tm response)) dn
       (noted tm response ts w)"

definition refused :: "nat \<Rightarrow> DiscoveryResponse \<Rightarrow> nat \<Rightarrow> 'v TypeState \<Rightarrow> ('v, 'n) AdsWorker \<Rightarrow> ('v, 'n) AdsWorker" where
  "refused tm response dn ts w =
     fold (\<lambda>(n, e). notify_resource_error (resp_type_url response) n (rejection tm response e) dn)
       (per_resource_errors (decode_resources (ts_decoder ts) tm response)) (dispatched tm response dn ts w)"

definition absorb :: "nat \<Rightarrow> DiscoveryResponse \<Rightarrow> nat \<Rightarrow> 'v TypeState \<Rightarrow> ('v, 'n) AdsWorker \<Rightarrow> ('v, 'n) AdsWorker" where
  "absorb tm response dn ts w =
     detect_deleted_resources (resp_type_url response)
       (set (map (dr_name \<circ> fst) (valid_resources (decode_resources (ts_decoder ts) tm response)))) dn
       (refused tm response dn ts w)"

lemma handle_response_eq:
  "map_of (type_states w) (resp_type_url response) = Some ts \<Longrightarrow>
   handle_response C tm tx response dn w =
     (let d = decode_resources (ts_decoder ts) tm response; w = absorb tm response dn ts w
      in case nack_error_message (top_level_errors d) (per_resource_errors d) of
           None \<Rightarrow> send_ack C tx response
                    (map_type (resp_type_url response) (\<lambda>ts. ts\<lparr>ts_version_info := resp_version_info response\<rparr>) w)
         | Some error \<Rightarrow> send_nack C tx response error w)"
  by (simp add: handle_response_def absorb_def refused_def dispatched_def noted_def rejection_def Let_def)

lemma noted_frame [simp]:
  "delivered (noted tm response ts w) = delivered w" "resource_timers (noted tm response ts w) = resource_timers w"
  "written (noted tm response ts w) = written w" "node (noted tm response ts w) = node w" "room (noted tm response ts w) = room w"
  "resource_initial_timeout (noted tm response ts w) = resource_initial_timeout w"
  "map_of (type_states (noted tm response ts w)) = (\<lambda>u. if u = resp_type_url response
     then map_option (\<lambda>ts. ts\<lparr>ts_nonce := resp_nonce response\<rparr>) (map_of (type_states w) u) else map_of (type_states w) u)"
  by (simp_all add: noted_def Let_def fun_eq_iff)

lemma noted_distinct: "distinct (map fst (type_states w)) \<Longrightarrow> distinct (map fst (type_states (noted tm response ts w)))"
  by (simp add: noted_def Let_def distinct_map_type)

lemma noted_protocol: "rel_option same_but_protocol (map_of (type_states (noted tm response ts w)) u) (map_of (type_states w) u)"
proof -
  have "rel_option same_but_protocol x x" for x :: "'a TypeState option"
    by (cases x) (simp_all add: same_but_protocol_def)
  moreover have "rel_option same_but_protocol (map_option (\<lambda>ts. ts\<lparr>ts_nonce := v\<rparr>) x) x" for v and x :: "'a TypeState option"
    by (cases x) (simp_all add: same_but_protocol_def)
  ultimately show ?thesis by simp
qed

lemma noted_inv:
  "worker_ok w \<Longrightarrow> worker_ok (noted tm response ts w)" "base_inv U w \<Longrightarrow> base_inv U (noted tm response ts w)"
  "covered_at u (noted tm response ts w) = covered_at u w"
proof -
  show ok: "worker_ok (noted tm response ts w)" if "worker_ok w"
    using that noted_protocol by (rule protocol_worker_ok) (use worker_okD(1) [OF that] in \<open>simp_all add: noted_distinct\<close>)
  show "base_inv U (noted tm response ts w)" if "base_inv U w"
    using that noted_protocol
    by (rule protocol_base_inv) (use worker_okD(1) [OF base_invD(1) [OF that]] in \<open>simp_all add: noted_distinct\<close>)
  show "covered_at u (noted tm response ts w) = covered_at u w" using noted_protocol by (rule protocol_covered) simp_all
qed

lemma absorb_ok:
  assumes "worker_ok w"
  shows "worker_ok (dispatched tm response dn ts w)" "worker_ok (refused tm response dn ts w)"
    "stores (resp_type_url response) (noted tm response ts w) (dispatched tm response dn ts w)"
    "stores (resp_type_url response) (dispatched tm response dn ts w) (refused tm response dn ts w)"
    "stores (resp_type_url response) (noted tm response ts w) (absorb tm response dn ts w)"
proof -
  note ok1 = noted_inv(1) [OF assms, of tm response ts]
  show s2: "stores (resp_type_url response) (noted tm response ts w) (dispatched tm response dn ts w)"
    unfolding dispatched_def using ok1 by (rule stores_dispatch)
  then show ok2: "worker_ok (dispatched tm response dn ts w)" using ok1 by (rule stores_worker_ok)
  show s3: "stores (resp_type_url response) (dispatched tm response dn ts w) (refused tm response dn ts w)"
    unfolding refused_def using ok2 by (rule stores_notify_loop)
  then show ok3: "worker_ok (refused tm response dn ts w)" using ok2 by (rule stores_worker_ok)
  have "stores (resp_type_url response) (refused tm response dn ts w) (absorb tm response dn ts w)"
    unfolding absorb_def using ok3 by (rule stores_detect)
  then show "stores (resp_type_url response) (noted tm response ts w) (absorb tm response dn ts w)"
    using s2 s3 stores_trans by blast
qed

text \<open>The request that ends it.\<close>

definition acked :: "nat \<Rightarrow> DiscoveryResponse \<Rightarrow> nat \<Rightarrow> 'v TypeState \<Rightarrow> ('v, 'n) AdsWorker \<Rightarrow> ('v, 'n) AdsWorker" where
  "acked tm response dn ts w =
     (let d = decode_resources (ts_decoder ts) tm response; w = absorb tm response dn ts w
      in if nack_error_message (top_level_errors d) (per_resource_errors d) = None
         then map_type (resp_type_url response) (\<lambda>ts. ts\<lparr>ts_version_info := resp_version_info response\<rparr>) w else w)"

lemma acked_type:
  assumes "worker_ok w" "map_of (type_states w) (resp_type_url response) = Some ts"
  shows "\<exists>cs. map_of (type_states (acked tm response dn ts w)) (resp_type_url response) =
    Some (ts\<lparr>ts_nonce := resp_nonce response, ts_cache := cs,
             ts_version_info := (if (let d = decode_resources (ts_decoder ts) tm response
                in nack_error_message (top_level_errors d) (per_resource_errors d)) = None
              then resp_version_info response else ts_version_info ts)\<rparr>)"
  using stores_frame [OF absorb_ok(5) [OF assms(1), where tm = tm and response = response and dn = dn and ts = ts]] assms(2) by (auto simp: acked_def Let_def)

lemma handle_response_sends:
  assumes "worker_ok w" "map_of (type_states w) (resp_type_url response) = Some ts"
    "handle_response C tm tx response dn w = (res, w')"
  obtains r where "write_request C tx r (acked tm response dn ts w) = (res, w')" "req_type_url r = resp_type_url response"
    "\<forall>t. map_of (type_states (acked tm response dn ts w)) (resp_type_url response) = Some t \<longrightarrow> tells t r"
    "req_node r = node w"
    "req_error_detail r = map_option (\<lambda>e. \<lparr>ed_code = 3, ed_message = e\<rparr>)
       (let d = decode_resources (ts_decoder ts) tm response in nack_error_message (top_level_errors d) (per_resource_errors d))"
proof -
  obtain cs where t: "map_of (type_states (acked tm response dn ts w)) (resp_type_url response) =
    Some (ts\<lparr>ts_nonce := resp_nonce response, ts_cache := cs,
             ts_version_info := (if (let d = decode_resources (ts_decoder ts) tm response
                in nack_error_message (top_level_errors d) (per_resource_errors d)) = None
              then resp_version_info response else ts_version_info ts)\<rparr>)"
    using acked_type [OF assms(1,2)] by blast
  have n: "node (acked tm response dn ts w) = node w"
    using stores_frame [OF absorb_ok(5) [OF assms(1), where tm = tm and response = response and dn = dn and ts = ts]] by (simp add: acked_def Let_def)
  let ?nack = "let d = decode_resources (ts_decoder ts) tm response in nack_error_message (top_level_errors d) (per_resource_errors d)"
  let ?r = "\<lparr>req_version_info = (if ?nack = None then resp_version_info response else ts_version_info ts), req_node = node w,
             req_resource_names = resource_names_for_request (ts_subscription ts), req_type_url = resp_type_url response,
             req_response_nonce = resp_nonce response, req_error_detail = map_option (\<lambda>e. \<lparr>ed_code = 3, ed_message = e\<rparr>) ?nack\<rparr>"
  have "write_request C tx ?r (acked tm response dn ts w) = (res, w')"
  proof (cases ?nack)
    case None
    then have "send_ack C tx response (acked tm response dn ts w) = (res, w')"
      using assms(3) by (simp add: handle_response_eq [OF assms(2)] acked_def Let_def)
    then show ?thesis using None unfolding send_ack_def t by (simp add: n)
  next
    case (Some e)
    then have "send_nack C tx response e (acked tm response dn ts w) = (res, w')"
      using assms(3) by (simp add: handle_response_eq [OF assms(2)] acked_def Let_def)
    then show ?thesis using Some unfolding send_nack_def t by (simp add: n)
  qed
  then show thesis by (rule that) (simp_all add: t tells_def)
qed

lemma handle_response_inv:
  assumes inv: "base_inv U w" and str: "stream_inv (Some tx) w"
    and h: "handle_response C tm tx response dn w = (res, w')"
  shows "base_inv U w'" "\<not> isl res \<Longrightarrow> stream_inv (Some tx) w'"
proof (atomize (full), cases "map_of (type_states w) (resp_type_url response)")
  case None
  then show "base_inv U w' \<and> (\<not> isl res \<longrightarrow> stream_inv (Some tx) w')"
    using assms by (simp add: handle_response_def Let_def)
next
  case (Some ts)
  let ?url = "resp_type_url response"
  let ?w1 = "noted tm response ts w" and ?w2 = "absorb tm response dn ts w" and ?w3 = "acked tm response dn ts w"
  let ?f = "\<lambda>ts. ts\<lparr>ts_version_info := resp_version_info response\<rparr>"
  note ok = base_invD(1) [OF inv]
  note s = absorb_ok(5) [OF ok, where tm = tm and response = response and dn = dn and ts = ts]
  note inv2 = stores_base_inv [OF s noted_inv(2) [OF inv]]
  have "covered_at u ?w1" for u using str by (simp add: stream_inv_def noted_inv(3))
  then have cov2: "covered_at u ?w2" for u using stores_covered [OF s] covered_iff by blast
  have inf2: "informed_at tx u ?w2" if "u \<noteq> ?url" for u
    using stores_frame [OF s] that str by (simp add: informed_at_def stream_inv_def)
  have rel: "rel_option same_but_protocol (map_of (type_states (map_type ?url ?f ?w2)) u) (map_of (type_states ?w2) u)" for u
    using map_type_protocol [of ?f ?url ?w2 u] by (simp add: same_but_protocol_def)
  have three: "?w3 = ?w2 \<or> ?w3 = map_type ?url ?f ?w2" by (simp add: acked_def Let_def)
  have "base_inv U (map_type ?url ?f ?w2)"
    by (rule protocol_base_inv [OF inv2 rel]) (use worker_okD(1) [OF base_invD(1) [OF inv2]] in \<open>simp_all add: distinct_map_type\<close>)
  then have inv3: "base_inv U ?w3" using three inv2 by metis
  have cov3: "covered_at u ?w3" for u using three cov2 [of u] protocol_covered [OF rel, of u] by fastforce
  have inf3: "informed_at tx u ?w3" if "u \<noteq> ?url" for u using three inf2 [OF that] that by (auto simp: informed_at_def)
  obtain r where r: "write_request C tx r ?w3 = (res, w')" "req_type_url r = ?url"
      "\<forall>t. map_of (type_states ?w3) ?url = Some t \<longrightarrow> tells t r"
    using handle_response_sends [OF ok Some h] by blast
  show "base_inv U w' \<and> (\<not> isl res \<longrightarrow> stream_inv (Some tx) w')"
    using r(1)
  proof (cases rule: write_request_cases)
    case (1 e)
    then show ?thesis using inv3 by simp
  next
    case 2
    have "informed_at tx u w'" for u unfolding 2(2) informed_write [OF r(2)] using inf3 r(3) by simp
    then show ?thesis using inv3 cov3 by (simp add: 2(2) written_frame stream_inv_def)
  qed
qed

definition actor_inv :: "nat set \<Rightarrow> ('v, 'n) Actor \<Rightarrow> bool" where
  "actor_inv U a \<longleftrightarrow>
     base_inv U (worker a) \<and> stream_inv (map_option writes (live_session (stream_context a))) (worker a)"

lemma base_inv_no_timers: "base_inv U w \<Longrightarrow> base_inv U (w\<lparr>resource_timers := []\<rparr>)"
  by (simp add: base_inv_def worker_ok_def consistent_def channels_ok_def)

lemma base_inv_room [simp]: "base_inv U (w\<lparr>room := k\<rparr>) = base_inv U w"
  by (simp add: base_inv_def worker_ok_def consistent_def channels_ok_def)

lemma stream_inv_room [simp]: "stream_inv live (w\<lparr>room := k\<rparr>) = stream_inv live w"
  by (simp add: stream_inv_def covered_at_def informed_at_def split: option.split)

lemma stream_inv_measure [simp]: "stream_inv live (w\<lparr>recorder := r\<rparr>) = stream_inv live w"
  by (simp add: stream_inv_def covered_at_def informed_at_def split: option.split)

lemma retire_inv:
  assumes "base_inv U (worker a)" "\<not> isl res \<Longrightarrow> actor_inv U a" "isl res \<Longrightarrow> session (stream_context a) \<noteq> None"
  shows "actor_inv U (retire_on_error (res, a))"
proof (cases res)
  case (Inl e)
  then obtain s where "session (stream_context a) = Some s" using assms(3) by auto
  then show ?thesis using assms(1) Inl
    by (simp add: retire_on_error_def actor_inv_def live_session_def stream_inv_def base_inv_no_timers)
next
  case (Inr x)
  then show ?thesis using assms(2) by (simp add: retire_on_error_def)
qed

lemma disconnected_no_error: "handle_command C None cmd w = (res, w') \<Longrightarrow> \<not> isl res"
  by (cases cmd) (auto split: option.splits bool.splits prod.splits)

lemma live_session_Some: "live_session c = Some s \<longleftrightarrow> session c = Some s \<and> cancel s"
  by (auto simp: live_session_def split: option.split)

lemma ready_inv:
  assumes "base_inv U (worker a)" "handle_transport_event C tm (TransportReady tx) a = (res, a')"
  shows "actor_inv U (retire_on_error (res, a'))"
proof -
  let ?w = "(worker a)\<lparr>type_states := map (\<lambda>(u, ts). (u, ts\<lparr>ts_nonce := []\<rparr>)) (type_states (worker a))\<rparr>"
  have m: "map_of (type_states ?w) u = map_option (\<lambda>ts. ts\<lparr>ts_nonce := []\<rparr>) (map_of (type_states (worker a)) u)" for u
    by (simp add: map_of_map)
  have rel: "rel_option same_but_protocol (map_of (type_states ?w) u) (map_of (type_states (worker a)) u)" for u
    unfolding m by (cases "map_of (type_states (worker a)) u") (simp_all add: same_but_protocol_def)
  have inv: "base_inv U ?w"
    by (rule protocol_base_inv [OF assms(1) rel])
      (use worker_okD(1) [OF base_invD(1) [OF assms(1)]] in \<open>simp_all add: comp_def case_prod_beta\<close>)
  obtain r w' where s: "send_initial_requests C tx ?w = (r, w')" by fastforce
  have eq: "res = r" "a' = a\<lparr>worker := w', stream_context := (stream_context a)\<lparr>session :=
      Some \<lparr>writes = tx, cancel = True, saw_response = False\<rparr>\<rparr>\<rparr>"
    using assms(2) s by (simp_all add: Let_def)
  note p = send_requests_props [OF inv s [unfolded send_initial_requests_def]]
  have types: "type_states w' = type_states ?w" using p by blast
  have "covered_at u w' \<and> informed_at tx u w'" if ok: "\<not> isl r" for u
  proof (cases "map_of (type_states ?w) u")
    case None
    then show ?thesis by (simp add: covered_at_def informed_at_def types)
  next
    case (Some t)
    then have "ts_watchers t \<noteq> []" using worker_okD(3) [OF base_invD(1) [OF inv]] unfolding type_ok_def by blast
    then have "u \<in> set (map fst (filter (\<lambda>(_, ts). ts_watchers ts \<noteq> []) (type_states ?w)))"
      using map_of_SomeD [OF Some] by force
    then show ?thesis using p ok by blast
  qed
  then have "\<not> isl res \<Longrightarrow> actor_inv U a'"
    using p by (simp add: eq actor_inv_def live_session_def stream_inv_def)
  then show ?thesis using p by (intro retire_inv) (simp_all add: eq)
qed

lemma response_inv:
  assumes "actor_inv U a" "handle_transport_event C tm (TransportResponse bytes dn) a = (res, a')"
  shows "actor_inv U (retire_on_error (res, a'))"
proof (cases "live_session (stream_context a)")
  case None
  then have "res = Inr ()" "a' = a" using assms(2) by simp_all
  then show ?thesis using assms(1) by (simp add: retire_on_error_def)
next
  case (Some s)
  have inv: "base_inv U (worker a)" "stream_inv (Some (writes s)) (worker a)"
    using assms(1) Some by (simp_all add: actor_inv_def)
  show ?thesis
  proof (cases "decode_response C bytes")
    case (Inl e)
    then show ?thesis using assms Some inv
      by (intro retire_inv) (auto simp: live_session_Some)
  next
    case (Inr response)
    obtain h w1 where rh: "record_healthy (healthy (stream_context a)) (worker a) = (h, w1)" by fastforce
    obtain r w2 where hr: "handle_response C tm (writes s) response dn w1 = (r, w2)" by fastforce
    have eq: "res = r" "a' = a\<lparr>worker := w2, stream_context := \<lparr>healthy = h, session = Some (s\<lparr>saw_response := True\<rparr>)\<rparr>\<rparr>"
      using assms(2) Some Inr rh hr by simp_all
    have inv1: "base_inv U w1" "stream_inv (Some (writes s)) w1"
      using rh inv by (auto simp: record_healthy_def split: if_splits)
    have live: "live_session \<lparr>healthy = h, session = Some (s\<lparr>saw_response := True\<rparr>)\<rparr> = Some (s\<lparr>saw_response := True\<rparr>)"
      using Some by (simp add: live_session_Some)
    show ?thesis unfolding eq
      by (rule retire_inv) (use handle_response_inv [OF inv1 hr] live in \<open>simp_all add: actor_inv_def\<close>)
  qed
qed

lemma failed_inv:
  assumes "base_inv U (worker a)" "handle_transport_event C tm TransportFailed a = (res, a')"
  shows "actor_inv U (retire_on_error (res, a'))"
proof -
  let ?w = "(worker a)\<lparr>resource_timers := []\<rparr>"
  let ?saw = "case session (stream_context a) of Some s \<Rightarrow> saw_response s | None \<Rightarrow> False"
  obtain h w' where hw: "(if \<not> ?saw then record_unhealthy (healthy (stream_context a)) ?w else (healthy (stream_context a), ?w)) = (h, w')"
    by fastforce
  have w': "base_inv U w' \<and> resource_timers w' = []"
  proof (cases "?saw")
    case True
    then have "w' = ?w" using hw by simp
    then show ?thesis using base_inv_no_timers [OF assms(1)] by simp
  next
    case False
    then have "record_unhealthy (healthy (stream_context a)) ?w = (h, w')" using hw by simp
    then obtain r where "w' = ?w\<lparr>recorder := r\<rparr> \<or> w' = ?w" unfolding record_unhealthy_def Let_def by (auto split: if_splits)
    then show ?thesis using base_inv_no_timers [OF assms(1)] by auto
  qed
  have "res = Inr ()" "worker a' = w'" "session (stream_context a') = None"
    using assms(2) hw by (auto simp: Let_def)
  then show ?thesis using w' by (simp add: retire_on_error_def actor_inv_def live_session_def stream_inv_def)
qed

text \<open>The channels a command brings.\<close>

fun new_channels :: "'v WorkerCommand \<Rightarrow> nat list" where
  "new_channels (Watcher (Watch a)) = [wa_event_tx a]"
| "new_channels _ = []"

lemma actor_step_inv:
  assumes "actor_inv U a" "set (new_channels cmd) \<inter> U = {}"
  shows "actor_inv (set (new_channels cmd) \<union> U) (actor_step C (i, cmd) a)"
proof (cases "running a")
  case False
  have "actor_inv (set (new_channels cmd) \<union> U) a"
    using assms(1) channels_mono [of U "worker a" "set (new_channels cmd) \<union> U"] by (simp add: actor_inv_def base_inv_def)
  then show ?thesis using False by (simp add: actor_step_def)
next
  case True
  let ?a = "a\<lparr>worker := (worker a)\<lparr>room := stream_room i\<rparr>\<rparr>"
  have inv: "actor_inv U ?a" using assms(1) by (simp add: actor_inv_def)
  have "actor_inv (set (new_channels cmd) \<union> U) (actor_command C i cmd ?a)"
  proof (cases cmd)
    case (Watcher we)
    let ?live = "map_option writes (live_session (stream_context ?a))"
    let ?V = "case we of Watch a \<Rightarrow> insert (wa_event_tx a) U | _ \<Rightarrow> U"
    have V: "set (new_channels cmd) \<union> U = ?V" by (cases we) (simp_all add: Watcher)
    obtain r w' where h: "handle_command C ?live we (worker ?a) = (r, w')" by fastforce
    have b: "base_inv U (worker ?a)" "stream_inv ?live (worker ?a)" using inv by (simp_all add: actor_inv_def)
    have "wa_event_tx x \<notin> U" if "we = Watch x" for x using assms(2) that Watcher by simp
    note p = handle_command_inv [OF b this h]
    have "isl r \<Longrightarrow> session (stream_context ?a) \<noteq> None"
    proof (cases "live_session (stream_context ?a)")
      case None
      then show "isl r \<Longrightarrow> session (stream_context ?a) \<noteq> None" using disconnected_no_error h by fastforce
    qed (simp add: live_session_Some)
    then show ?thesis unfolding V unfolding Watcher actor_command.simps using h p
      by (simp only: Let_def prod.case) (intro retire_inv, simp_all add: actor_inv_def)
  next
    case (TransportEvt ev)
    obtain r a' where h: "handle_transport_event C (now i) ev ?a = (r, a')" by fastforce
    have b: "base_inv U (worker ?a)" using inv by (simp add: actor_inv_def)
    have "actor_inv U (retire_on_error (r, a'))"
    proof (cases ev)
      case (TransportReady tx)
      then show ?thesis using ready_inv [OF b] h by blast
    next
      case (TransportResponse bytes dn)
      then show ?thesis using response_inv [OF inv] h by blast
    next
      case TransportFailed
      then show ?thesis using failed_inv [OF b] h by blast
    qed
    then show ?thesis using h by (simp add: TransportEvt)
  next
    case TransportStopped
    then show ?thesis using inv by (simp add: actor_inv_def)
  next
    case (Snapshot reply)
    then show ?thesis using inv by (simp add: actor_inv_def)
  qed
  then show ?thesis using True by (simp add: actor_step_def)
qed

end
