(* ===== verification/Xds_Worker_Metrics.thy ===== *)
theory Xds_Worker_Metrics
  imports Xds_Worker_Stream
begin

text \<open>
  The gauge of cached resources that the ADS worker reports (\<open>sync_resource_counts\<close> of \<open>RecorderHandle\<close>): after every
  command it shows, for every type and cache state, the number of cached resources in that state.
\<close>

subsection \<open>The gauge of cached resources\<close>

text \<open>The value the gauge shows for some attributes: the last one recorded.\<close>

definition gauge :: "Measurement list \<Rightarrow> (string \<times> string) list \<Rightarrow> int" where
  "gauge log attrs =
     (case rev (filter (\<lambda>m. instrument m = XDS_CLIENT_RESOURCES \<and> attributes m = attrs) log) of
        [] \<Rightarrow> 0 | m # _ \<Rightarrow> amount m)"

lemma gauge_measure:
  "gauge (measured (measure_to i v attrs r)) attrs' =
     (if i = XDS_CLIENT_RESOURCES \<and> attrs = attrs' then v else gauge (measured r) attrs')"
  by (simp add: gauge_def measure_to_def)

lemma measure_to_simps [simp]:
  "has_recorder (measure_to i v attrs r) = has_recorder r" "attr_target (measure_to i v attrs r) = attr_target r"
  "resource_counts (measure_to i v attrs r) = resource_counts r"
  "cache_state_attrs (measure_to i v attrs r) = cache_state_attrs r"
  by (auto simp: measure_to_def cache_state_attrs_def fun_eq_iff)

lemma cache_state_attrs_eq [simp]: "cache_state_attrs r u s = cache_state_attrs r u' s' \<longleftrightarrow> u = u' \<and> s = s'"
  by (simp add: cache_state_attrs_def)

definition counted :: "RecorderHandle \<Rightarrow> string \<Rightarrow> string \<rightharpoonup> int" where
  "counted r url = map_of (case_option [] id (map_of (resource_counts r) url))"

definition recorder_ok :: "RecorderHandle \<Rightarrow> bool" where
  "recorder_ok r \<longleftrightarrow>
     (\<forall>url s. gauge (measured r) (cache_state_attrs r url s) = case_option 0 id (counted r url s)) \<and>
     (\<forall>url counts. map_of (resource_counts r) url = Some counts \<longrightarrow> distinct (map fst counts))"

text \<open>The two loops of \<open>sync_resource_counts\<close>: changed states first, then the states that are gone.\<close>

definition report :: "(string \<Rightarrow> int \<Rightarrow> bool) \<Rightarrow> (int \<Rightarrow> int) \<Rightarrow> string \<Rightarrow> string \<times> int \<Rightarrow> RecorderHandle \<Rightarrow> RecorderHandle" where
  "report P h url = (\<lambda>(s, c) r. if P s c then measure_to XDS_CLIENT_RESOURCES (h c) (cache_state_attrs r url s) r else r)"

lemma report_frame:
  "resource_counts (fold (report P h url) kvs r) = resource_counts r"
  "has_recorder (fold (report P h url) kvs r) = has_recorder r"
  "cache_state_attrs (fold (report P h url) kvs r) = cache_state_attrs r"
  by (induction kvs arbitrary: r) (auto simp: report_def split: if_splits)

lemma report_gauge:
  "distinct (map fst kvs) \<Longrightarrow>
   gauge (measured (fold (report P h url) kvs r)) (cache_state_attrs r u s) =
     (case map_of kvs s of
        Some c \<Rightarrow> if u = url \<and> P s c then h c else gauge (measured r) (cache_state_attrs r u s)
      | None \<Rightarrow> gauge (measured r) (cache_state_attrs r u s))"
proof (induction kvs arbitrary: r)
  case (Cons kv kvs)
  obtain k c where kv: "kv = (k, c)" by fastforce
  have new: "map_of kvs k = None" using Cons.prems kv by (auto simp: map_of_eq_None_iff)
  have f1: "cache_state_attrs (report P h url kv r) = cache_state_attrs r"
      "gauge (measured (report P h url kv r)) (cache_state_attrs r u s) =
        (if u = url \<and> s = k \<and> P k c then h c else gauge (measured r) (cache_state_attrs r u s))"
    by (auto simp: report_def kv gauge_measure)
  show ?case using Cons.IH [of "report P h url kv r"] Cons.prems f1 new
    by (auto simp: kv split: option.splits)
qed simp

lemma distinct_count_label: "distinct (map fst counts) \<Longrightarrow> distinct (map fst (count_label s counts))"
  by (simp add: count_label_def distinct_update)

lemma count_loop:
  fixes cache :: "(string \<times> 'v CachedResource) list" and counts :: "(string \<times> int) list"
  assumes "distinct (map fst counts)"
  defines "counts' \<equiv> fold (\<lambda>(_, c). count_label (cache_state_label (cr_state c))) cache counts"
  shows "distinct (map fst counts')"
    "case_option 0 id (map_of counts' s) =
       case_option 0 id (map_of counts s) + int (length (filter (\<lambda>(_, c). cache_state_label (cr_state c) = s) cache))"
  unfolding counts'_def using assms(1)
  by (induction cache arbitrary: counts) (auto simp: distinct_count_label, auto simp: count_label_def update_conv')

lemma resource_state_counts:
  "distinct (map fst (resource_state_counts ts))"
  "case_option 0 id (map_of (resource_state_counts ts) s) =
     int (length (filter (\<lambda>(_, c). cache_state_label (cr_state c) = s) (ts_cache ts)))"
  using count_loop(1) [of "[]" "ts_cache ts"] count_loop(2) [of "[]" "ts_cache ts" s] by (simp_all add: resource_state_counts_def)

lemma sync_recorder:
  assumes "recorder_ok r" "has_recorder r" "distinct (map fst counts)"
  shows "recorder_ok (sync_resource_counts url counts r)"
    "counted (sync_resource_counts url counts r) = (counted r)(url := map_of counts)"
    "has_recorder (sync_resource_counts url counts r)"
proof -
  let ?before = "case_option [] id (map_of (resource_counts r) url)"
  let ?r1 = "fold (report (\<lambda>s c. map_of ?before s \<noteq> Some c) (\<lambda>c. c) url) counts r"
  let ?r2 = "fold (report (\<lambda>s c. map_of counts s = None) (\<lambda>_. 0) url) ?before ?r1"
  have db: "distinct (map fst ?before)" using assms(1) by (auto simp: recorder_ok_def split: option.split)
  note l1 = report_gauge [OF assms(3), of "\<lambda>s c. map_of ?before s \<noteq> Some c" "\<lambda>c. c" url r]
  note l2 = report_gauge [OF db, of "\<lambda>s c. map_of counts s = None" "\<lambda>_. 0" url ?r1, unfolded report_frame(3)]
  have eq: "sync_resource_counts url counts r = ?r2\<lparr>resource_counts := AList.update url counts (resource_counts ?r2)\<rparr>"
    unfolding sync_resource_counts_def Let_def report_def using assms(2) by simp
  have at: "cache_state_attrs (sync_resource_counts url counts r) = cache_state_attrs r"
    using report_frame(3) by (simp add: eq cache_state_attrs_def fun_eq_iff)
  show cnt: "counted (sync_resource_counts url counts r) = (counted r)(url := map_of counts)"
    by (auto simp: eq counted_def report_frame update_conv' fun_eq_iff)
  show "has_recorder (sync_resource_counts url counts r)" using assms(2) by (simp add: eq report_frame)
  have "gauge (measured ?r2) (cache_state_attrs r u s) = case_option 0 id (((counted r)(url := map_of counts)) u s)" for u s
    unfolding l2 l1 using assms(1) by (auto simp: recorder_ok_def counted_def split: option.splits)
  moreover have "distinct (map fst cs)" if "map_of (AList.update url counts (resource_counts r)) u = Some cs" for u cs
    using that assms(1,3) by (auto simp: recorder_ok_def update_conv' split: if_splits)
  ultimately show "recorder_ok (sync_resource_counts url counts r)"
    unfolding recorder_ok_def at cnt by (simp add: eq report_frame)
qed

definition gauge_inv :: "('v, 'n) AdsWorker \<Rightarrow> bool" where
  "gauge_inv w \<longleftrightarrow> (has_recorder (recorder w) \<longrightarrow> recorder_ok (recorder w) \<and>
     (\<forall>url. counted (recorder w) url =
        (case map_of (type_states w) url of Some ts \<Rightarrow> map_of (resource_state_counts ts) | None \<Rightarrow> Map.empty)))"

lemma gauge_invI:
  "gauge_inv w \<Longrightarrow> recorder w' = recorder w \<Longrightarrow>
   (\<And>url. rel_option (\<lambda>t t0. ts_cache t = ts_cache t0) (map_of (type_states w') url) (map_of (type_states w) url)) \<Longrightarrow>
   gauge_inv w'"
proof -
  assume w: "gauge_inv w" "recorder w' = recorder w"
    "\<And>url. rel_option (\<lambda>t t0. ts_cache t = ts_cache t0) (map_of (type_states w') url) (map_of (type_states w) url)"
  have "(case map_of (type_states w') u of Some ts \<Rightarrow> map_of (resource_state_counts ts) | None \<Rightarrow> Map.empty) =
      (case map_of (type_states w) u of Some ts \<Rightarrow> map_of (resource_state_counts ts) | None \<Rightarrow> Map.empty)" for u
    using w(3) [of u] by (cases "map_of (type_states w') u"; cases "map_of (type_states w) u") (simp_all add: resource_state_counts_def)
  then show "gauge_inv w'" using w(1,2) by (simp add: gauge_inv_def)
qed

lemma sync_has [simp]: "has_recorder (sync_resource_counts url counts r) = has_recorder r"
  unfolding sync_resource_counts_def Let_def by (simp add: report_frame(2) flip: report_def)

lemma gauge_set:
  assumes "gauge_inv w" "recorder w' = sync_resource_counts url (resource_state_counts ts) (recorder w)"
    "map_of (type_states w') = (map_of (type_states w))(url \<mapsto> ts)"
  shows "gauge_inv w'"
proof (cases "has_recorder (recorder w)")
  case True
  then show ?thesis
    using assms sync_recorder [OF _ True resource_state_counts(1), of url ts] by (simp add: gauge_inv_def)
qed (simp add: gauge_inv_def assms(2))

lemma gauge_clear:
  assumes "gauge_inv w" "recorder w' = sync_resource_counts url [] (recorder w)"
    "map_of (type_states w') = (map_of (type_states w))(url := None)"
  shows "gauge_inv w'"
proof (cases "has_recorder (recorder w)")
  case True
  then show ?thesis using assms sync_recorder [OF _ True, of "[]" url] by (simp add: gauge_inv_def)
qed (simp add: gauge_inv_def assms(2))

lemma other_measures [simp]:
  "has_recorder (record_connected b r) = has_recorder r" "has_recorder (record_server_failure r) = has_recorder r"
  "has_recorder (record_resource_updates u v k r) = has_recorder r"
  "counted (record_connected b r) = counted r" "counted (record_server_failure r) = counted r"
  "counted (record_resource_updates u v k r) = counted r"
  by (simp_all add: record_connected_def record_server_failure_def record_resource_updates_def counted_def Let_def fun_eq_iff)

lemma recorder_ok_measure: "i \<noteq> XDS_CLIENT_RESOURCES \<Longrightarrow> recorder_ok (measure_to i v attrs r) = recorder_ok r"
  by (simp add: recorder_ok_def gauge_measure counted_def)

lemma recorder_ok_others [simp]:
  "recorder_ok (record_connected b r) = recorder_ok r" "recorder_ok (record_server_failure r) = recorder_ok r"
  "recorder_ok (record_resource_updates u v k r) = recorder_ok r"
  by (simp_all add: record_connected_def record_server_failure_def record_resource_updates_def Let_def recorder_ok_measure
      XDS_CLIENT_CONNECTED_def XDS_CLIENT_SERVER_FAILURE_def XDS_CLIENT_RESOURCE_UPDATES_VALID_def
      XDS_CLIENT_RESOURCE_UPDATES_INVALID_def XDS_CLIENT_RESOURCES_def)

lemma gauge_frame: "gauge_inv w \<Longrightarrow> recorder w' = recorder w \<Longrightarrow> type_states w' = type_states w \<Longrightarrow> gauge_inv w'"
  by (simp add: gauge_inv_def)

lemma gauge_measured [simp]:
  "gauge_inv (w\<lparr>recorder := record_connected b (recorder w)\<rparr>) = gauge_inv w"
  "gauge_inv (w\<lparr>recorder := record_connected b (record_server_failure (recorder w))\<rparr>) = gauge_inv w"
  "gauge_inv (w\<lparr>recorder := record_resource_updates u v k (recorder w)\<rparr>) = gauge_inv w"
  by (simp_all add: gauge_inv_def)

lemma dispatch_loop_frame:
  "fold (dispatch_resource url dn) rs (ts, w) = (ts', w') \<Longrightarrow>
   recorder w' = recorder w \<and> type_states w' = type_states w \<and> ts_type_url ts' = ts_type_url ts"
proof (induction rs arbitrary: ts w)
  case (Cons ra rs)
  then show ?case by (cases ra) (fastforce simp: dispatch_resource_def Let_def send_events_def)
qed simp

lemma delete_loop_frame:
  "fold (delete_resource dn) names (ts, w) = (ts', w') \<Longrightarrow>
   recorder w' = recorder w \<and> type_states w' = type_states w \<and> ts_type_url ts' = ts_type_url ts"
proof (induction names arbitrary: ts w)
  case (Cons n names)
  show ?case using Cons.IH [of "fst (delete_resource dn n (ts, w))" "snd (delete_resource dn n (ts, w))"] Cons.prems
    by (simp add: delete_resource_def Let_def send_events_def)
qed simp

lemma type_url_eq: "worker_ok w \<Longrightarrow> map_of (type_states w) url = Some ts \<Longrightarrow> ts_type_url ts = url"
  using worker_okD(3) unfolding type_ok_def by blast

lemma gauge_dispatch:
  assumes "worker_ok w" "gauge_inv w"
  shows "gauge_inv (dispatch_resources url rs dn w)"
proof (cases "map_of (type_states w) url")
  case (Some ts)
  obtain ts' w' where f: "fold (dispatch_resource url dn) rs (ts, w) = (ts', w')" by fastforce
  then show ?thesis using dispatch_loop_frame [OF f] type_url_eq [OF assms(1) Some] Some
    by (intro gauge_set [OF assms(2), of _ url ts']) (simp_all add: dispatch_resources_def sync_counts_def)
qed (simp add: dispatch_resources_def assms)

lemma gauge_detect:
  assumes "worker_ok w" "gauge_inv w"
  shows "gauge_inv (detect_deleted_resources url A dn w)"
proof (cases "map_of (type_states w) url")
  case (Some ts)
  obtain ts' w' where f: "fold (delete_resource dn) (deleted_names ts A) (ts, w) = (ts', w')" by fastforce
  have "gauge_inv (sync_counts ts' (set_type url ts' w'))"
    using delete_loop_frame [OF f] type_url_eq [OF assms(1) Some]
    by (intro gauge_set [OF assms(2), of _ url ts']) (simp_all add: sync_counts_def)
  then show ?thesis using Some f assms(2) by (simp add: detect_deleted_resources_def)
qed (simp add: detect_deleted_resources_def assms)

lemma gauge_notify:
  assumes "worker_ok w" "gauge_inv w"
  shows "gauge_inv (notify_resource_error url n rej dn w)"
proof (cases "map_of (type_states w) url")
  case (Some ts)
  let ?ts = "ts\<lparr>ts_cache := AList.update n (cr_nacked rej (Option.bind (map_of (ts_cache ts) n) cr_accepted)) (AList.delete n (ts_cache ts))\<rparr>"
  show ?thesis using type_url_eq [OF assms(1) Some] Some
    by (intro gauge_set [OF assms(2), of _ url ?ts]) (simp_all add: notify_resource_error_def Let_def sync_counts_def send_events_def)
qed (simp add: notify_resource_error_def assms)

lemma gauge_notify_loop:
  "worker_ok w \<Longrightarrow> gauge_inv w \<Longrightarrow> gauge_inv (fold (\<lambda>(n, e). notify_resource_error url n (rej n e) dn) errs w)"
proof (induction errs arbitrary: w)
  case (Cons ne errs)
  obtain n e where ne: "ne = (n, e)" by fastforce
  show ?case using Cons.IH stores_worker_ok [OF stores_notify [OF Cons.prems(1)] Cons.prems(1)] gauge_notify [OF Cons.prems]
    by (simp add: ne)
qed simp

lemma gauge_timeout:
  assumes "worker_ok w" "gauge_inv w"
  shows "gauge_inv (handle_resource_timeout url n i w)"
proof (cases "map_of (type_states w) url")
  case None
  then show ?thesis using assms(2) by (auto simp: handle_resource_timeout_def Let_def gauge_inv_def split: option.split)
next
  case (Some ts)
  let ?ts = "ts\<lparr>ts_cache := AList.update n (cr_does_not_exist None) (ts_cache ts)\<rparr>"
  let ?w = "w\<lparr>resource_timers := AList.delete (url, n) (resource_timers w)\<rparr>"
  have "gauge_inv (send_events (matching_watchers ?ts n) (ResourceChanged (Inl ResourceDoesNotExist) None)
      (sync_counts ?ts (set_type url ?ts ?w)))"
    using type_url_eq [OF assms(1) Some]
    by (intro gauge_set [OF assms(2), of _ url ?ts]) (simp_all add: sync_counts_def send_events_def)
  moreover have "gauge_inv ?w" using assms(2) by (simp add: gauge_inv_def)
  ultimately show ?thesis using Some assms(2) by (auto simp: handle_resource_timeout_def Let_def split: option.split)
qed

lemma gauge_map_type:
  assumes "gauge_inv w" "\<And>t. ts_cache (f t) = ts_cache t"
  shows "gauge_inv (map_type url f w)"
proof (rule gauge_invI [OF assms(1)])
  have "rel_option (\<lambda>t t0. ts_cache t = ts_cache t0) x x" for x :: "'a TypeState option" by (cases x) simp_all
  then show "rel_option (\<lambda>t t0. ts_cache t = ts_cache t0) (map_of (type_states (map_type url f w)) u) (map_of (type_states w) u)" for u
    using assms(2) by (cases "map_of (type_states w) url") simp_all
qed simp

lemma pending_recorder [simp]: "recorder (start_pending_resource_timers url w) = recorder w"
proof -
  have "recorder (fold (\<lambda>name. start_resource_timer url name t) ns w) = recorder w" for t ns
    by (induction ns arbitrary: w) (simp_all add: start_resource_timer_def Let_def)
  then show ?thesis by (simp add: start_pending_resource_timers_def split: option.split)
qed

lemma write_request_recorder:
  "write_request C tx r w = (res, w') \<Longrightarrow> recorder w' = recorder w \<and> type_states w' = type_states w"
  by (elim write_request_cases) simp_all

lemma send_request_recorder:
  "send_request C tx url w = (res, w') \<Longrightarrow> recorder w' = recorder w \<and> type_states w' = type_states w"
  using write_request_recorder
  by (fastforce simp: send_request_def split: option.splits prod.splits sum.splits)

lemma send_requests_recorder:
  "send_requests C tx urls w = (res, w') \<Longrightarrow> recorder w' = recorder w \<and> type_states w' = type_states w"
proof (induction urls arbitrary: w)
  case (Cons u urls)
  then show ?case using send_request_recorder by (fastforce split: prod.splits sum.splits)
qed simp

lemma gauge_add_watcher:
  assumes "worker_ok w" "gauge_inv w" "add_watcher a w = (changed, w')"
  shows "gauge_inv w'"
proof -
  note eqs = add_watcher_eq [OF assms(3)]
  let ?ts = "state_with a (state_for a w)"
  have types: "map_of (type_states w') = (map_of (type_states w))(wa_type_url a \<mapsto> ?ts)" by (simp add: eqs(2) update_conv')
  have url: "ts_type_url ?ts = wa_type_url a"
    using type_ok_state_with [OF state_for_ok [OF assms(1)], of a] by (simp add: type_ok_def)
  show ?thesis
  proof (cases "wa_name a \<noteq> [] \<and> map_of (ts_cache (state_for a w)) (wa_name a) = None")
    case True
    then have "recorder w' = sync_resource_counts (wa_type_url a) (resource_state_counts ?ts) (recorder w)"
      using eqs(9) url by (simp add: sync_counts_def)
    then show ?thesis using gauge_set [OF assms(2) _ types] by blast
  next
    case False
    then have r: "recorder w' = recorder w" using eqs(9) by (simp only: if_False)
    have c: "ts_cache ?ts = ts_cache (state_for a w)" using False by (auto simp: state_with_def cache_with_def)
    have "(case map_of (type_states w) (wa_type_url a) of Some ts \<Rightarrow> map_of (resource_state_counts ts) | None \<Rightarrow> Map.empty) =
        map_of (resource_state_counts ?ts)"
      unfolding resource_state_counts_def c by (simp add: state_for_def type_state_new_def split: option.split)
    then show ?thesis using assms(2) by (simp add: gauge_inv_def r types)
  qed
qed

lemma gauge_remove_watcher:
  assumes "worker_ok w" "gauge_inv w" "remove_watcher i w = (r, w')"
  shows "gauge_inv w'"
  using assms(1,3)
proof (cases rule: remove_watcher_cases)
  case 1
  then show ?thesis using assms(2) by simp
next
  case (2 url ts)
  then show ?thesis
    by (intro gauge_clear [OF assms(2), of _ url]) (simp_all add: type_url_eq [OF assms(1) 2(1)] delete_conv')
next
  case (3 url ts)
  have "rel_option (\<lambda>t t0. ts_cache t = ts_cache t0) x x" for x :: "'a TypeState option" by (cases x) simp_all
  then show ?thesis using 3 by (intro gauge_invI [OF assms(2)]) (simp_all add: state_without_def)
qed

lemma gauge_command:
  assumes ok: "worker_ok w" and g: "gauge_inv w" and h: "handle_command C live cmd w = (res, w')"
  shows "gauge_inv w'"
proof (cases cmd)
  case (Watch a)
  obtain ch w1 where add: "add_watcher a w = (ch, w1)" by fastforce
  have "recorder w' = recorder w1 \<and> type_states w' = type_states w1"
    using h add Watch send_request_recorder [of C _ "wa_type_url a" w1 res w'] by (auto split: option.splits if_splits)
  then show ?thesis using gauge_frame [OF gauge_add_watcher [OF ok g add]] by blast
next
  case (Unwatch i)
  obtain r w1 where rem: "remove_watcher i w = (r, w1)" by fastforce
  have "recorder w' = recorder w1 \<and> type_states w' = type_states w1"
    using h rem Unwatch send_request_recorder [of C _ _ w1 res w'] by (auto split: option.splits bool.splits)
  then show ?thesis using gauge_frame [OF gauge_remove_watcher [OF ok g rem]] by blast
next
  case (ResourceTimerExpired u n i)
  then show ?thesis using h gauge_timeout [OF ok g] by simp blast
qed

lemma gauge_absorb:
  assumes "worker_ok w" "gauge_inv w"
  shows "gauge_inv (absorb tm response dn ts w)"
proof -
  have "gauge_inv (noted tm response ts w)"
    unfolding noted_def Let_def using assms(2) by (intro gauge_map_type) simp_all
  then have "gauge_inv (dispatched tm response dn ts w)"
    unfolding dispatched_def using noted_inv(1) [OF assms(1)] gauge_dispatch by blast
  then have "gauge_inv (refused tm response dn ts w)"
    unfolding refused_def by (rule gauge_notify_loop [OF absorb_ok(1) [OF assms(1)]])
  then show ?thesis unfolding absorb_def by (rule gauge_detect [OF absorb_ok(2) [OF assms(1)]])
qed

lemma gauge_response:
  assumes "worker_ok w" "gauge_inv w" "handle_response C tm tx response dn w = (res, w')"
  shows "gauge_inv w'"
proof (cases "map_of (type_states w) (resp_type_url response)")
  case None
  then show ?thesis using assms by (simp add: handle_response_def Let_def)
next
  case (Some ts)
  obtain r where "write_request C tx r (acked tm response dn ts w) = (res, w')"
    using handle_response_sends [OF assms(1) Some assms(3)] by blast
  moreover have "gauge_inv (acked tm response dn ts w)"
    using gauge_absorb [OF assms(1,2)] by (simp add: acked_def Let_def gauge_map_type)
  ultimately show ?thesis using gauge_frame write_request_recorder by blast
qed

lemma gauge_event:
  assumes ok: "worker_ok (worker a)" and g: "gauge_inv (worker a)" and h: "handle_transport_event C tm ev a = (res, a')"
  shows "gauge_inv (worker a')"
proof (cases ev)
  case (TransportReady tx)
  let ?w = "(worker a)\<lparr>type_states := map (\<lambda>(u, ts). (u, ts\<lparr>ts_nonce := []\<rparr>)) (type_states (worker a))\<rparr>"
  obtain r w' where s: "send_initial_requests C tx ?w = (r, w')" by fastforce
  have "rel_option (\<lambda>t t0. ts_cache t = ts_cache t0) (map_of (type_states ?w) u) (map_of (type_states (worker a)) u)" for u
    by (cases "map_of (type_states (worker a)) u") (simp_all add: map_of_map)
  then have "gauge_inv ?w" by (intro gauge_invI [OF g]) simp_all
  moreover have "recorder w' = recorder ?w \<and> type_states w' = type_states ?w"
    using send_requests_recorder s unfolding send_initial_requests_def by blast
  moreover have "worker a' = w'" using h s by (auto simp: TransportReady Let_def)
  ultimately show ?thesis using gauge_frame by blast
next
  case (TransportResponse bytes dn)
  show ?thesis
  proof (cases "live_session (stream_context a)")
    case None
    then show ?thesis using h g by (auto simp: TransportResponse)
  next
    case (Some s)
    obtain hl w1 where rh: "record_healthy (healthy (stream_context a)) (worker a) = (hl, w1)" by fastforce
    then have "worker_ok w1" "gauge_inv w1" using ok g by (auto simp: record_healthy_def split: if_splits)
    then show ?thesis using h g Some rh gauge_response [of w1]
      by (auto simp: TransportResponse split: sum.splits prod.splits)
  qed
next
  case TransportFailed
  let ?w = "(worker a)\<lparr>resource_timers := []\<rparr>"
  have "gauge_inv ?w" using g by (simp add: gauge_inv_def)
  moreover from this have "gauge_inv w'" if "record_unhealthy b ?w = (h, w')" for b h w'
    using that by (auto simp: record_unhealthy_def gauge_inv_def split: if_splits)
  ultimately show ?thesis using h
    by (cases "record_unhealthy (healthy (stream_context a)) ?w")
      (fastforce simp: TransportFailed Let_def split: prod.splits if_splits)
qed

lemma gauge_step:
  assumes "actor_inv U a" "gauge_inv (worker a)"
  shows "gauge_inv (worker (actor_step C (i, cmd) a))"
proof (cases "running a")
  case True
  let ?a = "a\<lparr>worker := (worker a)\<lparr>room := stream_room i\<rparr>\<rparr>"
  have ok: "worker_ok (worker ?a)" using assms(1) base_invD(1) [of U "worker ?a"] by (simp add: actor_inv_def)
  have g: "gauge_inv (worker ?a)" using assms(2) by (simp add: gauge_inv_def)
  have ret: "gauge_inv (worker (retire_on_error (r, b)))" if "gauge_inv (worker b)" for r and b :: "('a, 'b) Actor"
    using that by (auto simp: retire_on_error_def gauge_inv_def split: sum.split option.split)
  have "gauge_inv (worker (actor_command C i cmd ?a))"
  proof (cases cmd)
    case (Watcher we)
    obtain r w' where h: "handle_command C (map_option writes (live_session (stream_context ?a))) we (worker ?a) = (r, w')" by fastforce
    show ?thesis using h gauge_command [OF ok g h] unfolding Watcher actor_command.simps
      by (simp only: Let_def prod.case) (rule ret, simp)
  next
    case (TransportEvt ev)
    obtain r a' where h: "handle_transport_event C (now i) ev ?a = (r, a')" by fastforce
    show ?thesis using ret [OF gauge_event [OF ok g h]] by (simp add: TransportEvt h)
  qed (use g in simp_all)
  then show ?thesis using True by (simp add: actor_step_def)
qed (use assms in \<open>simp add: actor_step_def\<close>)

end
