(* ===== verification/Xds_Worker_Loop.thy ===== *)
theory Xds_Worker_Loop
  imports Xds_Worker_Metrics
begin

text \<open>
  The timer tasks of the ADS worker and its event loop as a machine with an invariant: every timer was spawned with the
  configured timeout, and the invariants of the other theories hold after every sequence of commands.
\<close>

subsection \<open>Timer tasks\<close>

text \<open>A timer that is new after a step was spawned by it, with the configured timeout.\<close>

definition timers_grow :: "('v, 'n) AdsWorker \<Rightarrow> ('v, 'n) AdsWorker \<Rightarrow> bool" where
  "timers_grow w w' \<longleftrightarrow>
     set (sleeps w) \<subseteq> set (sleeps w') \<and> resource_initial_timeout w' = resource_initial_timeout w \<and>
     (\<forall>url n j. map_of (resource_timers w') (url, n) = Some j \<longrightarrow>
        map_of (resource_timers w) (url, n) = Some j \<or>
        (\<exists>t. resource_initial_timeout w = Some t \<and> (url, n, j, t) \<in> set (sleeps w')))"

lemma timers_grow_trans [trans]: "timers_grow w w1 \<Longrightarrow> timers_grow w1 w2 \<Longrightarrow> timers_grow w w2"
proof -
  assume a: "timers_grow w w1" "timers_grow w1 w2"
  have s: "set (sleeps w) \<subseteq> set (sleeps w1)" "set (sleeps w1) \<subseteq> set (sleeps w2)"
    "resource_initial_timeout w1 = resource_initial_timeout w" "resource_initial_timeout w2 = resource_initial_timeout w"
    using a by (auto simp: timers_grow_def)
  have "map_of (resource_timers w) (url, n) = Some j \<or> (\<exists>t. resource_initial_timeout w = Some t \<and> (url, n, j, t) \<in> set (sleeps w2))"
    if "map_of (resource_timers w2) (url, n) = Some j" for url n j
  proof -
    have "map_of (resource_timers w1) (url, n) = Some j \<or> (\<exists>t. resource_initial_timeout w = Some t \<and> (url, n, j, t) \<in> set (sleeps w2))"
      using a(2) that s(3) unfolding timers_grow_def by simp
    moreover have "map_of (resource_timers w1) (url, n) = Some j \<Longrightarrow>
        map_of (resource_timers w) (url, n) = Some j \<or> (\<exists>t. resource_initial_timeout w = Some t \<and> (url, n, j, t) \<in> set (sleeps w1))"
      using a(1) unfolding timers_grow_def by blast
    ultimately show ?thesis using s(2) by blast
  qed
  then show "timers_grow w w2" using s unfolding timers_grow_def by auto
qed

lemma timers_shrink:
  assumes "sleeps w' = sleeps w" "resource_initial_timeout w' = resource_initial_timeout w"
    "\<And>k j. map_of (resource_timers w') k = Some j \<Longrightarrow> map_of (resource_timers w) k = Some j"
  shows "timers_grow w w'"
  using assms by (simp add: timers_grow_def)

lemma timers_same [simp]:
  "sleeps w' = sleeps w \<Longrightarrow> resource_initial_timeout w' = resource_initial_timeout w \<Longrightarrow> resource_timers w' = resource_timers w \<Longrightarrow>
   timers_grow w w'"
  by (simp add: timers_grow_def)

lemma timers_deleted: "map_of (AList.delete k0 ts) k = Some j \<Longrightarrow> map_of ts k = Some j"
  by (simp add: delete_conv' split: if_splits)

lemma timers_pending: "timers_grow w (start_pending_resource_timers url w)"
proof -
  have "timers_grow w (fold (\<lambda>name. start_resource_timer url name t) ns w)" if "resource_initial_timeout w = Some t" for t ns
    using that
  proof (induction ns arbitrary: w)
    case (Cons n ns)
    have "timers_grow w (start_resource_timer url n t w)"
      using Cons.prems by (auto simp: start_resource_timer_def Let_def timers_grow_def update_conv')
    moreover have "resource_initial_timeout (start_resource_timer url n t w) = Some t"
      using Cons.prems by (simp add: start_resource_timer_def Let_def)
    then have "timers_grow (start_resource_timer url n t w)
        (fold (\<lambda>name. start_resource_timer url name t) ns (start_resource_timer url n t w))" by (rule Cons.IH)
    ultimately show ?case using timers_grow_trans by simp
  qed auto
  then show ?thesis by (auto simp: start_pending_resource_timers_def split: option.split)
qed

lemma timers_write: "write_request C tx r w = (res, w') \<Longrightarrow> timers_grow w w'"
  by (elim write_request_cases) auto

lemma timers_send_request:
  assumes "send_request C tx url w = (res, w')"
  shows "timers_grow w w'"
proof (cases "map_of (type_states w) url")
  case (Some ts)
  let ?r = "\<lparr>req_version_info = ts_version_info ts, req_node = node w,
             req_resource_names = resource_names_for_request (ts_subscription ts), req_type_url = url,
             req_response_nonce = ts_nonce ts, req_error_detail = None\<rparr>"
  obtain r w1 where wr: "write_request C tx ?r w = (r, w1)" by fastforce
  have "w' = w1 \<or> w' = start_pending_resource_timers url w1"
    using assms Some wr by (cases r) (simp_all add: send_request_def)
  then show ?thesis using timers_write [OF wr] timers_grow_trans [OF timers_write [OF wr] timers_pending, of url] by auto
qed (use assms in \<open>simp add: send_request_def\<close>)

lemma timers_send_requests: "send_requests C tx urls w = (res, w') \<Longrightarrow> timers_grow w w'"
proof (induction urls arbitrary: w)
  case (Cons u urls)
  obtain r w1 where s: "send_request C tx u w = (r, w1)" by fastforce
  show ?case
  proof (cases r)
    case (Inl e)
    then show ?thesis using Cons.prems s timers_send_request [OF s] by simp
  next
    case (Inr x)
    then have "timers_grow w1 w'" using Cons s by simp
    then show ?thesis using timers_grow_trans [OF timers_send_request [OF s]] by blast
  qed
qed auto

lemma sync_type_timers:
  "sleeps (sync_counts ts w) = sleeps w" "sleeps (set_type url ts w) = sleeps w" "sleeps (send_events txs ev w) = sleeps w"
  by (simp_all add: sync_counts_def set_type_def send_events_def)

lemma timers_dispatch_loop: "fold (dispatch_resource url dn) rs (ts, w) = (ts', w') \<Longrightarrow> timers_grow w w'"
proof (induction rs arbitrary: ts w)
  case (Cons ra rs)
  obtain ts1 w1 where d: "dispatch_resource url dn ra (ts, w) = (ts1, w1)" by fastforce
  then have "timers_grow w w1"
    by (intro timers_shrink) (auto simp: dispatch_resource_def Let_def send_events_def split: prod.splits dest: timers_deleted)
  moreover have "timers_grow w1 w'" using Cons d by simp
  ultimately show ?case by (rule timers_grow_trans)
qed auto

lemma timers_delete_loop: "fold (delete_resource dn) names (ts, w) = (ts', w') \<Longrightarrow> timers_grow w w'"
proof (induction names arbitrary: ts w)
  case (Cons n names)
  obtain ts1 w1 where d: "delete_resource dn n (ts, w) = (ts1, w1)" by fastforce
  then have "timers_grow w w1" by (auto simp: delete_resource_def Let_def send_events_def)
  moreover have "timers_grow w1 w'" using Cons d by simp
  ultimately show ?case by (rule timers_grow_trans)
qed auto

lemma timers_sync: "timers_grow w w' \<Longrightarrow> timers_grow w (sync_counts ts (set_type url ts w'))"
  by (simp add: timers_grow_def sync_type_timers)

lemma timers_dispatch: "timers_grow w (dispatch_resources url rs dn w)"
  by (auto simp: dispatch_resources_def split: option.split prod.split intro: timers_sync [OF timers_dispatch_loop])

lemma timers_detect: "timers_grow w (detect_deleted_resources url A dn w)"
  by (auto simp: detect_deleted_resources_def split: option.split prod.split intro: timers_sync [OF timers_delete_loop])

lemma timers_notify: "timers_grow w (notify_resource_error url n rej dn w)"
  by (auto simp: notify_resource_error_def Let_def sync_type_timers split: option.split intro!: timers_shrink dest: timers_deleted)

lemma timers_notify_loop: "timers_grow w (fold (\<lambda>(n, e). notify_resource_error url n (rej n e) dn) errs w)"
  by (induction errs arbitrary: w) (auto intro: timers_grow_trans timers_notify)

lemma timers_timeout: "timers_grow w (handle_resource_timeout url n i w)"
  by (auto simp: handle_resource_timeout_def Let_def sync_type_timers split: option.split intro!: timers_shrink dest: timers_deleted)

lemma timers_map_type: "timers_grow w (map_type url f w)"
  by (auto simp: map_type_def sync_type_timers split: option.split)

lemma timers_absorb: "timers_grow w (absorb tm response dn ts w)"
proof -
  have "timers_grow w (w\<lparr>recorder := r\<rparr>)" for r by simp
  then have "timers_grow w (noted tm response ts w)"
    unfolding noted_def Let_def by (rule timers_grow_trans [OF _ timers_map_type])
  also have "timers_grow (noted tm response ts w) (dispatched tm response dn ts w)"
    unfolding dispatched_def by (rule timers_dispatch)
  also have "timers_grow (dispatched tm response dn ts w) (refused tm response dn ts w)"
    unfolding refused_def by (rule timers_notify_loop)
  also have "timers_grow (refused tm response dn ts w) (absorb tm response dn ts w)"
    unfolding absorb_def by (rule timers_detect)
  finally show ?thesis .
qed

lemma timers_response:
  assumes "worker_ok w" "handle_response C tm tx response dn w = (res, w')"
  shows "timers_grow w w'"
proof (cases "map_of (type_states w) (resp_type_url response)")
  case None
  then show ?thesis using assms by (simp add: handle_response_def Let_def)
next
  case (Some ts)
  obtain r where r: "write_request C tx r (acked tm response dn ts w) = (res, w')"
    using handle_response_sends [OF assms(1) Some assms(2)] by blast
  have "timers_grow w (acked tm response dn ts w)"
    unfolding acked_def Let_def using timers_absorb timers_grow_trans [OF timers_absorb timers_map_type] by (auto split: if_split)
  then show ?thesis using timers_write [OF r] by (rule timers_grow_trans)
qed

lemma timers_command:
  assumes "worker_ok w" "handle_command C live cmd w = (res, w')"
  shows "timers_grow w w'"
proof (cases cmd)
  case (Watch a)
  obtain ch w1 where add: "add_watcher a w = (ch, w1)" by fastforce
  have g: "timers_grow w w1" using add_watcher_eq(4,8,10) [OF add] by simp
  have "timers_grow w1 w'"
  proof (cases live)
    case None
    then show ?thesis using assms(2) add Watch by simp
  next
    case (Some tx)
    then show ?thesis using assms(2) add Watch timers_send_request timers_pending by (auto split: if_splits)
  qed
  then show ?thesis by (rule timers_grow_trans [OF g])
next
  case (Unwatch i)
  obtain r w1 where rem: "remove_watcher i w = (r, w1)" by fastforce
  have g: "timers_grow w w1"
    using assms(1) rem
  proof (cases rule: remove_watcher_cases)
    case (2 url ts)
    have "map_of (resource_timers w) k = Some j"
      if "map_of (filter (\<lambda>(key, _). fst key \<noteq> url) (resource_timers w)) k = Some j" for k j
      using that by (simp add: map_of_filter_case [of "\<lambda>key. fst key \<noteq> url"] split: if_splits)
    then show ?thesis unfolding 2(4) by (intro timers_shrink) simp_all
  qed (simp_all add: sync_type_timers)
  have "w' = w1 \<or> (\<exists>tx url. send_request C tx url w1 = (res, w'))"
    using assms(2) rem Unwatch by (auto split: option.splits bool.splits)
  then have "timers_grow w1 w'" using timers_send_request by auto
  then show ?thesis by (rule timers_grow_trans [OF g])
next
  case (ResourceTimerExpired u n i)
  then show ?thesis using assms(2) timers_timeout by auto
qed

lemma timers_event:
  assumes ok: "worker_ok (worker a)" and h: "handle_transport_event C tm ev a = (res, a')"
  shows "timers_grow (worker a) (worker a')"
proof (cases ev)
  case (TransportReady tx)
  let ?w = "(worker a)\<lparr>type_states := map (\<lambda>(u, ts). (u, ts\<lparr>ts_nonce := []\<rparr>)) (type_states (worker a))\<rparr>"
  obtain r w' where s: "send_initial_requests C tx ?w = (r, w')" by fastforce
  have "timers_grow (worker a) ?w" by simp
  moreover have "timers_grow ?w w'" using s unfolding send_initial_requests_def by (rule timers_send_requests)
  moreover have "worker a' = w'" using h s by (auto simp: TransportReady Let_def)
  ultimately show ?thesis using timers_grow_trans by blast
next
  case (TransportResponse bytes dn)
  show ?thesis
  proof (cases "live_session (stream_context a)")
    case None
    then show ?thesis using h by (auto simp: TransportResponse)
  next
    case (Some s)
    obtain hl w1 where rh: "record_healthy (healthy (stream_context a)) (worker a) = (hl, w1)" by fastforce
    then have w1: "worker_ok w1" "timers_grow (worker a) w1" using ok by (auto simp: record_healthy_def split: if_splits)
    show ?thesis
    proof (cases "decode_response C bytes")
      case (Inr response)
      obtain r w2 where hr: "handle_response C tm (writes s) response dn w1 = (r, w2)" by fastforce
      have "worker a' = w2" using h Some rh Inr hr by (auto simp: TransportResponse)
      then show ?thesis using timers_grow_trans [OF w1(2) timers_response [OF w1(1) hr]] by simp
    qed (use h Some in \<open>auto simp: TransportResponse\<close>)
  qed
next
  case TransportFailed
  have "timers_grow (worker a) w'" if "record_unhealthy b ((worker a)\<lparr>resource_timers := []\<rparr>) = (h, w')" for b h w'
    using that by (intro timers_shrink) (auto simp: record_unhealthy_def split: if_splits)
  moreover have "timers_grow (worker a) ((worker a)\<lparr>resource_timers := []\<rparr>)" by (rule timers_shrink) simp_all
  ultimately show ?thesis using h
    by (cases "record_unhealthy (healthy (stream_context a)) ((worker a)\<lparr>resource_timers := []\<rparr>)")
      (fastforce simp: TransportFailed Let_def split: prod.splits if_splits)
qed

lemma timers_step:
  assumes "actor_inv U a"
  shows "timers_grow (worker a) (worker (actor_step C (i, cmd) a))"
proof (cases "running a")
  case True
  let ?a = "a\<lparr>worker := (worker a)\<lparr>room := stream_room i\<rparr>\<rparr>"
  have ok: "worker_ok (worker ?a)" using assms base_invD(1) [of U "worker ?a"] by (simp add: actor_inv_def)
  have ret: "timers_grow w (worker (retire_on_error (r, b)))" if "timers_grow w (worker b)" for w r and b :: "('a, 'b) Actor"
    using that by (auto simp: retire_on_error_def timers_grow_def split: sum.split option.split)
  have "timers_grow (worker ?a) (worker (actor_command C i cmd ?a))"
  proof (cases cmd)
    case (Watcher we)
    obtain r w' where h: "handle_command C (map_option writes (live_session (stream_context ?a))) we (worker ?a) = (r, w')" by fastforce
    show ?thesis using h timers_command [OF ok h] unfolding Watcher actor_command.simps
      by (simp only: Let_def prod.case) (rule ret, simp)
  next
    case (TransportEvt ev)
    obtain r a' where h: "handle_transport_event C (now i) ev ?a = (r, a')" by fastforce
    show ?thesis using ret [OF timers_event [OF ok h]] by (simp add: TransportEvt h)
  qed simp_all
  then have "timers_grow (worker a) (worker (actor_command C i cmd ?a))"
    by (rule timers_grow_trans [rotated]) simp
  then show ?thesis using True by (simp add: actor_step_def)
qed (simp add: actor_step_def)

text \<open>Every watcher is made with a channel of its own, as \<open>XdsClient::watch\<close> does.\<close>

definition fresh_channels :: "(input \<times> 'v WorkerCommand) list \<Rightarrow> bool" where
  "fresh_channels cmds \<longleftrightarrow> distinct (concat (map (new_channels \<circ> snd) cmds))"

definition started :: "string list \<Rightarrow> 'n \<Rightarrow> nat option \<Rightarrow> string option \<Rightarrow> bool \<Rightarrow> ('v, 'n) Actor" where
  "started servers n timeout target present = actor_start servers (worker_new n timeout target present)"

lemma started_inv: "actor_inv {} (started servers n timeout target present)"
  by (cases servers)
    (simp_all add: started_def actor_start_def actor_inv_def worker_new_def base_inv_def worker_ok_def consistent_def
      channels_ok_def live_session_def stream_inv_def)

lemma recorder_ok_new:
  "recorder_ok (set_server s (recorder_new present target))" "recorder_ok (recorder_new present target)"
  by (simp_all add: recorder_ok_def gauge_def counted_def set_server_def recorder_new_def)

lemma started_gauge: "gauge_inv (worker (started servers n timeout target present))"
proof -
  have "counted (set_server s (recorder_new present t)) u = Map.empty" "counted (recorder_new present t) u = Map.empty" for s t u
    by (simp_all add: counted_def set_server_def recorder_new_def)
  then show ?thesis
    by (cases servers) (simp_all add: started_def actor_start_def worker_new_def gauge_inv_def recorder_ok_new)
qed

definition timers_spawned :: "('v, 'n) AdsWorker \<Rightarrow> bool" where
  "timers_spawned w \<longleftrightarrow>
     (\<forall>url n j. map_of (resource_timers w) (url, n) = Some j \<longrightarrow>
        (\<exists>t. resource_initial_timeout w = Some t \<and> (url, n, j, t) \<in> set (sleeps w)))"

lemma timers_spawned_grow:
  assumes "timers_spawned w" "timers_grow w w'"
  shows "timers_spawned w'"
  unfolding timers_spawned_def
proof (intro allI impI)
  fix url n j
  assume "map_of (resource_timers w') (url, n) = Some j"
  then consider "map_of (resource_timers w) (url, n) = Some j"
    | t where "resource_initial_timeout w = Some t" "(url, n, j, t) \<in> set (sleeps w')"
    using assms(2) unfolding timers_grow_def by blast
  then show "\<exists>t. resource_initial_timeout w' = Some t \<and> (url, n, j, t) \<in> set (sleeps w')"
    using assms unfolding timers_spawned_def timers_grow_def by cases (simp, blast, simp)
qed

text \<open>What holds of the event loop after every command.\<close>

definition loop_inv :: "nat set \<Rightarrow> ('v, 'n) Actor \<Rightarrow> bool" where
  "loop_inv U a \<longleftrightarrow> actor_inv U a \<and> gauge_inv (worker a) \<and> timers_spawned (worker a)"

lemma loop_step:
  assumes "loop_inv U a" "set (new_channels cmd) \<inter> U = {}"
  shows "loop_inv (set (new_channels cmd) \<union> U) (actor_step C (i, cmd) a)"
  using assms actor_step_inv gauge_step timers_spawned_grow [OF _ timers_step] unfolding loop_inv_def by blast

text \<open>The loop as a machine that also keeps the channels made so far; only fresh channels may come.\<close>

definition tracked_step ::
  "'n xds_codec \<Rightarrow> input \<times> 'v WorkerCommand \<Rightarrow> nat set \<times> ('v, 'n) Actor \<Rightarrow> (nat set \<times> ('v, 'n) Actor) option" where
  "tracked_step C e = (\<lambda>(U, a). Some (set (new_channels (snd e)) \<union> U, actor_step C e a))"

definition fresh_command :: "nat set \<times> ('v, 'n) Actor \<Rightarrow> input \<times> 'v WorkerCommand \<Rightarrow> bool" where
  "fresh_command = (\<lambda>(U, _) e. set (new_channels (snd e)) \<inter> U = {})"

interpretation worker_loop: invariant_machine "tracked_step C" "\<lambda>(U, a). loop_inv U a" fresh_command
  by unfold_locales (auto simp: tracked_step_def fresh_command_def intro: loop_step)

lemma run_tracked:
  "run (tracked_step C) cmds (U, a) =
     Some (set (concat (map (new_channels \<circ> snd) cmds)) \<union> U, fold (actor_step C) cmds a)"
  by (induction cmds arbitrary: U a) (auto simp: tracked_step_def)

lemma fresh_admissible:
  "fresh_channels cmds \<Longrightarrow> set (concat (map (new_channels \<circ> snd) cmds)) \<inter> U = {} \<Longrightarrow>
   admissible (tracked_step C) fresh_command cmds (U, a)"
proof (induction cmds arbitrary: U a)
  case (Cons e cmds)
  have "fresh_channels cmds" "set (concat (map (new_channels \<circ> snd) cmds)) \<inter> (set (new_channels (snd e)) \<union> U) = {}"
    using Cons.prems by (auto simp: fresh_channels_def)
  then have "admissible (tracked_step C) fresh_command cmds (set (new_channels (snd e)) \<union> U, actor_step C e a)"
    by (rule Cons.IH)
  moreover have "fresh_command (U, a) e" using Cons.prems(2) by (auto simp: fresh_command_def)
  moreover have "tracked_step C e (U, a) = Some (set (new_channels (snd e)) \<union> U, actor_step C e a)" by (simp add: tracked_step_def)
  ultimately show ?case by simp
qed simp

lemma started_loop: "loop_inv {} (started servers n timeout target present)"
  unfolding loop_inv_def
  by (intro conjI started_inv started_gauge, cases servers)
    (simp_all add: started_def actor_start_def worker_new_def timers_spawned_def)

lemma reachable_inv:
  assumes "fresh_channels cmds"
  obtains V where "loop_inv V (fold (actor_step C) cmds (started servers n timeout target present))"
proof -
  let ?a = "started servers n timeout target present"
  have "admissible (tracked_step C) fresh_command cmds ({}, ?a)" using assms by (rule fresh_admissible) simp
  then have "case (set (concat (map (new_channels \<circ> snd) cmds)) \<union> {}, fold (actor_step C) cmds ?a) of (U, a) \<Rightarrow> loop_inv U a"
    by (rule worker_loop.run_inv [rotated]) (simp_all only: run_tracked prod.case started_loop)
  then show thesis using that by simp
qed

end
