(* ===== verification/Xds_Worker_Properties.thy ===== *)
theory Xds_Worker_Properties
  imports Xds_Worker_Loop
begin

text \<open>
  What the ADS worker promises to its watchers, to the server and to the monitoring, after any sequence of commands: the
  properties, each with a concrete run of the event loop where its hypotheses hold.
\<close>

subsection \<open>What a response does to the cache\<close>

definition entry :: "('v, 'n) AdsWorker \<Rightarrow> string \<Rightarrow> string \<Rightarrow> 'v CachedResource option" where
  "entry w url n = Option.bind (map_of (type_states w) url) (\<lambda>ts. map_of (ts_cache ts) n)"

text \<open>The last of the values a list gives a key.\<close>

definition last_for :: "('k \<times> 'a) list \<Rightarrow> 'k \<Rightarrow> 'a option" where
  "last_for xs = map_of (rev xs)"

lemma last_for_simps [simp]:
  "last_for [] k = None"
  "last_for (x # xs) k = (case last_for xs k of Some v \<Rightarrow> Some v | None \<Rightarrow> if fst x = k then Some (snd x) else None)"
  by (auto simp: last_for_def map_add_def split: option.split)

lemma last_for_None: "last_for xs k = None \<longleftrightarrow> k \<notin> fst ` set xs"
  by (simp add: last_for_def map_of_eq_None_iff)

definition valid_for :: "'v decoded_response \<Rightarrow> string \<Rightarrow> ('v DecodedResource \<times> AcceptedResource) option" where
  "valid_for d = last_for (map (\<lambda>ra. (dr_name (fst ra), ra)) (valid_resources d))"

definition error_for :: "'v decoded_response \<Rightarrow> string \<Rightarrow> string option" where
  "error_for d = last_for (per_resource_errors d)"

text \<open>
  The entry of a name after a response: rejected if the response held an invalid resource of that name, received if it
  held a valid one, deleted if it held none and had to be complete, and as it was otherwise.
\<close>

definition response_entry :: "'v TypeState \<Rightarrow> nat \<Rightarrow> DiscoveryResponse \<Rightarrow> string \<Rightarrow> 'v CachedResource option" where
  "response_entry ts tm response n =
     (let d = decode_resources (ts_decoder ts) tm response; old = map_of (ts_cache ts) n
      in case error_for d n of
           Some e \<Rightarrow> Some (cr_nacked \<lparr>ru_version_info = resp_version_info response, ru_details = e, ru_last_update_attempt = tm\<rparr>
                       (case valid_for d n of Some (_, accepted) \<Rightarrow> Some accepted | None \<Rightarrow> Option.bind old cr_accepted))
         | None \<Rightarrow>
             (case valid_for d n of
                Some (r, accepted) \<Rightarrow> Some (cr_received r accepted)
              | None \<Rightarrow>
                  (case old of
                     Some c \<Rightarrow> Some (if ts_all_required ts \<and> cr_state c = Received then cr_does_not_exist (cr_accepted c) else c)
                   | None \<Rightarrow> None)))"

lemma dispatch_loop_cache:
  "fold (dispatch_resource url dn) rs (ts, w) = (ts', w') \<Longrightarrow>
   map_of (ts_cache ts') n =
     (case last_for (map (\<lambda>ra. (dr_name (fst ra), ra)) rs) n of
        Some (r, accepted) \<Rightarrow> Some (cr_received r accepted) | None \<Rightarrow> map_of (ts_cache ts) n)"
proof (induction rs arbitrary: ts w)
  case (Cons ra rs)
  obtain r a where ra: "ra = (r, a)" by fastforce
  show ?case using Cons.IH Cons.prems unfolding ra
    by (auto simp: dispatch_resource_def Let_def update_conv' split: option.split)
qed simp

lemma dispatch_entry:
  "map_of (type_states w) url = Some ts \<Longrightarrow>
   entry (dispatch_resources url rs dn w) url n =
     (case last_for (map (\<lambda>ra. (dr_name (fst ra), ra)) rs) n of
        Some (r, accepted) \<Rightarrow> Some (cr_received r accepted) | None \<Rightarrow> entry w url n)"
  using dispatch_loop_cache [of url dn rs ts w _ _ n]
  by (cases "fold (dispatch_resource url dn) rs (ts, w)") (simp add: dispatch_resources_def entry_def update_conv' split: option.split)

lemma notify_entry:
  "map_of (type_states w) url = Some ts \<Longrightarrow>
   entry (notify_resource_error url n rej dn w) url m =
     (if m = n then Some (cr_nacked rej (Option.bind (entry w url n) cr_accepted)) else entry w url m)"
  by (simp add: notify_resource_error_def Let_def entry_def update_conv' delete_conv')

lemma notify_type:
  "map_of (type_states w) url = Some ts \<Longrightarrow> \<exists>ts'. map_of (type_states (notify_resource_error url n rej dn w)) url = Some ts'"
  by (simp add: notify_resource_error_def Let_def)

lemma notify_loop_entry:
  "map_of (type_states w) url = Some ts \<Longrightarrow>
   entry (fold (\<lambda>(n, e). notify_resource_error url n (rej e) dn) errs w) url n =
     (case last_for errs n of
        Some e \<Rightarrow> Some (cr_nacked (rej e) (Option.bind (entry w url n) cr_accepted)) | None \<Rightarrow> entry w url n)"
proof (induction errs arbitrary: w ts)
  case (Cons ke errs)
  obtain k e where ke: "ke = (k, e)" by fastforce
  obtain ts' where "map_of (type_states (notify_resource_error url k (rej e) dn w)) url = Some ts'"
    using notify_type [OF Cons.prems] by blast
  then show ?case using Cons.IH notify_entry [OF Cons.prems]
    by (auto simp: ke cr_nacked_def split: option.split)
qed simp

lemma delete_loop_cache:
  "fold (delete_resource dn) names (ts, w) = (ts', w') \<Longrightarrow>
   map_of (ts_cache ts') n =
     (if n \<in> set names then Some (cr_does_not_exist (Option.bind (map_of (ts_cache ts) n) cr_accepted))
      else map_of (ts_cache ts) n)"
proof (induction names arbitrary: ts w)
  case (Cons m names)
  show ?case using Cons.IH Cons.prems
    by (auto simp: delete_resource_def Let_def update_conv' delete_conv' cr_does_not_exist_def)
qed simp

lemma detect_entry:
  assumes "worker_ok w" "map_of (type_states w) url = Some ts"
  shows "entry (detect_deleted_resources url A dn w) url n =
     (case entry w url n of
        Some c \<Rightarrow> Some (if ts_all_required ts \<and> cr_state c = Received \<and> n \<notin> A then cr_does_not_exist (cr_accepted c) else c)
      | None \<Rightarrow> None)"
  using delete_loop_cache [of dn "deleted_names ts A" ts w _ _ n] assms(2)
    deleted_names_received(2) [OF worker_okD(4) [OF assms], of n A]
  by (cases "fold (delete_resource dn) (deleted_names ts A) (ts, w)")
    (auto simp: detect_deleted_resources_def entry_def update_conv' split: option.split)

lemma absorb_entry:
  assumes "worker_ok w" "map_of (type_states w) (resp_type_url response) = Some ts"
  shows "entry (absorb tm response dn ts w) (resp_type_url response) n = response_entry ts tm response n"
proof -
  let ?url = "resp_type_url response"
  let ?d = "decode_resources (ts_decoder ts) tm response"
  note s = absorb_ok [OF assms(1), where tm = tm and response = response and dn = dn and ts = ts]
  have t1: "map_of (type_states (noted tm response ts w)) ?url = Some (ts\<lparr>ts_nonce := resp_nonce response\<rparr>)" using assms(2) by simp
  obtain c2 where t2: "map_of (type_states (dispatched tm response dn ts w)) ?url =
      Some (ts\<lparr>ts_nonce := resp_nonce response, ts_cache := c2\<rparr>)"
    using stores_frame [OF s(3)] t1 by auto
  obtain c3 where t3: "map_of (type_states (refused tm response dn ts w)) ?url =
      Some (ts\<lparr>ts_nonce := resp_nonce response, ts_cache := c3\<rparr>)"
    using stores_frame [OF s(4)] t2 by auto
  have e1: "entry (noted tm response ts w) ?url n = map_of (ts_cache ts) n" using assms(2) by (simp add: entry_def)
  have e2: "entry (dispatched tm response dn ts w) ?url n =
      (case valid_for ?d n of Some (r, accepted) \<Rightarrow> Some (cr_received r accepted) | None \<Rightarrow> map_of (ts_cache ts) n)"
    unfolding dispatched_def dispatch_entry [OF t1] e1 valid_for_def ..
  have e3: "entry (refused tm response dn ts w) ?url n =
      (case error_for ?d n of
        Some e \<Rightarrow> Some (cr_nacked (rejection tm response e) (Option.bind (entry (dispatched tm response dn ts w) ?url n) cr_accepted))
      | None \<Rightarrow> entry (dispatched tm response dn ts w) ?url n)"
    unfolding refused_def notify_loop_entry [OF t2] error_for_def ..
  have A: "n \<in> set (map (dr_name \<circ> fst) (valid_resources ?d)) \<longleftrightarrow> valid_for ?d n \<noteq> None"
    by (simp add: valid_for_def last_for_None image_image del: not_None_eq)
  show ?thesis
    unfolding absorb_def detect_entry [OF s(2) t3] A e3 e2 response_entry_def Let_def rejection_def
    by (auto simp: cr_nacked_def cr_received_def split: option.split)
qed

section \<open>Properties\<close>

definition reached ::
  "'n xds_codec \<Rightarrow> string list \<Rightarrow> 'n \<Rightarrow> nat option \<Rightarrow> string option \<Rightarrow> bool \<Rightarrow> (input \<times> 'v WorkerCommand) list \<Rightarrow> ('v, 'n) Actor" where
  "reached C servers n timeout target present cmds = fold (actor_step C) cmds (started servers n timeout target present)"

lemma reachedE:
  assumes "fresh_channels cmds" "a = reached C servers n timeout target present cmds"
  obtains V where "loop_inv V a" "actor_inv V a" "base_inv V (worker a)" "worker_ok (worker a)"
    "stream_inv (map_option writes (live_session (stream_context a))) (worker a)"
proof -
  obtain V where "loop_inv V a"
    using reachable_inv [OF assms(1), of C servers n timeout target present] assms(2) unfolding reached_def by blast
  then show ?thesis using that [of V] base_invD(1) [of V "worker a"] by (simp add: loop_inv_def actor_inv_def)
qed

text \<open>
  Property C2. After any commands, whatever the server and the transport did: every watcher of a name has an entry in the cache, and the
  last event sent on its channel is what the entry shows: nothing while it is awaited, the resource that is cached, that it
  does not exist, or why it was rejected.
\<close>

theorem watchers_up_to_date:
  assumes "fresh_channels cmds" "a = reached C servers n timeout target present cmds"
    and "map_of (type_states (worker a)) url = Some ts" "(i, e) \<in> set (ts_watchers ts)" "we_subscription e = WatchName name"
  shows "\<exists>c. map_of (ts_cache ts) name = Some c \<and>
    last_seen (event_tx e) (delivered (worker a)) =
      (case cr_state c of
         Requested \<Rightarrow> None
       | Received \<Rightarrow> map_option Inr (cr_resource c)
       | DoesNotExist \<Rightarrow> Some (Inl ResourceDoesNotExist)
       | NACKed rejected \<Rightarrow> Some (Inl (Validation (ru_details rejected)))) \<and>
    (cr_state c = Received \<longleftrightarrow> cr_resource c \<noteq> None)"
proof -
  obtain V where inv: "base_inv V (worker a)" using reachedE [OF assms(1,2)] by blast
  then have ok: "type_ok url ts" using worker_okD(3) [OF base_invD(1) [OF inv] assms(3)] by blast
  then have "map_of (ts_cache ts) name \<noteq> None" using assms(4,5) unfolding type_ok_def by blast
  then obtain c where c: "map_of (ts_cache ts) name = Some c" by blast
  then have "cr_state c = Received \<longleftrightarrow> cr_resource c \<noteq> None" using ok unfolding type_ok_def by blast
  moreover have "last_seen (event_tx e) (delivered (worker a)) = shown c"
    using base_invD(2) [OF inv] assms(3-5) c unfolding consistent_def by blast
  moreover have "shown c = (case cr_state c of
         Requested \<Rightarrow> None
       | Received \<Rightarrow> map_option Inr (cr_resource c)
       | DoesNotExist \<Rightarrow> Some (Inl ResourceDoesNotExist)
       | NACKed rejected \<Rightarrow> Some (Inl (Validation (ru_details rejected))))"
    by (auto simp: shown_def to_event_def split: ResourceState.split option.split)
  ultimately show ?thesis using c by simp
qed

lemma names_of_mode:
  assumes "ts_watchers ts \<noteq> []"
  shows "resource_names_for_request (mode_of (ts_watchers ts)) = [] \<longleftrightarrow> (\<exists>i e. (i, e) \<in> set (ts_watchers ts) \<and> we_subscription e = WatchAll)"
    "(\<nexists>i e. (i, e) \<in> set (ts_watchers ts) \<and> we_subscription e = WatchAll) \<Longrightarrow>
     set (resource_names_for_request (mode_of (ts_watchers ts))) = {n. \<exists>i e. (i, e) \<in> set (ts_watchers ts) \<and> we_subscription e = WatchName n}"
proof -
  obtain i e where "(i, e) \<in> set (ts_watchers ts)" using assms by (cases "ts_watchers ts") auto
  then have ne: "we_subscription e = WatchAll \<or> watched_names (ts_watchers ts) \<noteq> []"
    using set_watched_names [of "ts_watchers ts"] by (cases "we_subscription e") auto
  have wild: "list_ex (\<lambda>(_, entry). is_wildcard (we_subscription entry)) (ts_watchers ts) \<longleftrightarrow>
      (\<exists>i e. (i, e) \<in> set (ts_watchers ts) \<and> we_subscription e = WatchAll)"
    by (force simp: list_ex_iff elim: is_wildcard.elims)
  show "resource_names_for_request (mode_of (ts_watchers ts)) = [] \<longleftrightarrow> (\<exists>i e. (i, e) \<in> set (ts_watchers ts) \<and> we_subscription e = WatchAll)"
    using ne wild \<open>(i, e) \<in> set (ts_watchers ts)\<close> by (auto simp: mode_of_def)
  show "set (resource_names_for_request (mode_of (ts_watchers ts))) = {n. \<exists>i e. (i, e) \<in> set (ts_watchers ts) \<and> we_subscription e = WatchName n}"
    if "\<nexists>i e. (i, e) \<in> set (ts_watchers ts) \<and> we_subscription e = WatchAll"
    using that wild set_watched_names [of "ts_watchers ts"] by (auto simp: mode_of_def)
qed

text \<open>
  Property C5. On a live stream the server knows what the client wants: the last request for every type in use carries the type's
  accepted version and last nonce, it names no resource exactly if some watcher watches all of them (the wildcard), and
  otherwise exactly the names watched.
\<close>

theorem server_informed:
  assumes "fresh_channels cmds" "a = reached C servers n timeout target present cmds"
    and "live_session (stream_context a) = Some s" "map_of (type_states (worker a)) url = Some ts"
  shows "\<exists>r. last_request (writes s) url (written (worker a)) = Some r \<and>
    req_version_info r = ts_version_info ts \<and> req_response_nonce r = ts_nonce ts \<and>
    (req_resource_names r = [] \<longleftrightarrow> (\<exists>i e. (i, e) \<in> set (ts_watchers ts) \<and> we_subscription e = WatchAll)) \<and>
    (req_resource_names r \<noteq> [] \<longrightarrow>
       set (req_resource_names r) = {name. \<exists>i e. (i, e) \<in> set (ts_watchers ts) \<and> we_subscription e = WatchName name})"
proof -
  obtain V where inv: "worker_ok (worker a)" "stream_inv (Some (writes s)) (worker a)"
    using reachedE [OF assms(1,2)] unfolding assms(3) option.map by blast
  then obtain r where r: "last_request (writes s) url (written (worker a)) = Some r" "tells ts r"
    using assms(4) by (auto simp: stream_inv_def informed_at_def)
  have t: "ts_subscription ts = mode_of (ts_watchers ts)" "ts_watchers ts \<noteq> []"
    using worker_okD(3) [OF inv(1) assms(4)] by (simp_all add: type_ok_def)
  have "set (req_resource_names r) = set (resource_names_for_request (mode_of (ts_watchers ts)))"
    "req_version_info r = ts_version_info ts" "req_response_nonce r = ts_nonce ts"
    using r(2) by (simp_all add: tells_def t(1))
  note eqs = this
  have "req_resource_names r = [] \<longleftrightarrow> resource_names_for_request (mode_of (ts_watchers ts)) = []"
    using eqs(1) by (metis set_empty)
  then have wild: "req_resource_names r = [] \<longleftrightarrow> (\<exists>i e. (i, e) \<in> set (ts_watchers ts) \<and> we_subscription e = WatchAll)"
    using names_of_mode(1) [OF t(2)] by simp
  then have "req_resource_names r \<noteq> [] \<longrightarrow>
      set (req_resource_names r) = {name. \<exists>i e. (i, e) \<in> set (ts_watchers ts) \<and> we_subscription e = WatchName name}"
    using eqs(1) names_of_mode(2) [OF t(2)] by simp
  with r(1) eqs(2,3) wild show ?thesis by (intro exI [of _ r] conjI)
qed

text \<open>
  Property C11. No watcher waits for ever on a live stream: with a timeout configured, for a watcher that has been told nothing a timer task
  with that timeout was spawned, and when it expires the watcher is told that the resource does not exist.
\<close>

theorem awaited_resource_resolves:
  assumes "fresh_channels cmds" "a = reached C servers n timeout target present cmds" "running a"
    and "resource_initial_timeout (worker a) = Some t" "live_session (stream_context a) = Some s"
    and "map_of (type_states (worker a)) url = Some ts" "(i, e) \<in> set (ts_watchers ts)" "we_subscription e = WatchName name"
      "last_seen (event_tx e) (delivered (worker a)) = None"
  shows "\<exists>j. (url, name, j, t) \<in> set (sleeps (worker a)) \<and>
    last_seen (event_tx e) (delivered (worker (actor_step C (x, Watcher (ResourceTimerExpired url name j)) a))) =
      Some (Inl ResourceDoesNotExist)"
proof -
  obtain V where loop: "loop_inv V a" and inv: "base_inv V (worker a)" "stream_inv (Some (writes s)) (worker a)"
    using reachedE [OF assms(1,2)] unfolding assms(5) option.map by blast
  note ok = base_invD(1) [OF inv(1)]
  have tok: "type_ok url ts" using worker_okD(3) [OF ok assms(6)] .
  obtain c where c: "map_of (ts_cache ts) name = Some c" using tok assms(7,8) unfolding type_ok_def by blast
  have "shown c = None" using base_invD(2) [OF inv(1)] assms(6-9) c unfolding consistent_def by fastforce
  moreover have "cr_state c = Received \<longleftrightarrow> cr_resource c \<noteq> None" using tok c unfolding type_ok_def by blast
  ultimately have req: "is_requested c"
    by (auto simp: shown_def to_event_def is_requested_def split: ResourceState.splits option.splits)
  then have "name \<in> set (pending_names ts)" using assms(7,8) c by (auto simp: set_pending_names)
  then obtain j where j: "map_of (resource_timers (worker a)) (url, name) = Some j"
    using inv(2) assms(4,6) unfolding stream_inv_def covered_at_def by simp blast
  then have "(url, name, j, t) \<in> set (sleeps (worker a))"
    using loop assms(4) by (auto simp: loop_inv_def timers_spawned_def)
  moreover have "event_tx e \<in> set (matching_watchers ts name)" using assms(7,8) by (force simp: set_matching_watchers)
  ultimately show ?thesis using j c req assms(3,6)
    by (intro exI [of _ j])
      (simp add: actor_step_def Let_def retire_on_error_def handle_resource_timeout_def send_events_def)
qed

text \<open>
  Property C32. A timer that expires late does no harm: without a live stream, or when the resource is not awaited any more, the expiration of
  any timer of that name changes no cache entry, and sends nothing to watchers or the server.
\<close>

theorem timeout_only_awaited:
  assumes "fresh_channels cmds" "a = reached C servers n timeout target present cmds"
    and "live_session (stream_context a) = None \<or>
      \<not> (\<exists>ts c. map_of (type_states (worker a)) url = Some ts \<and> map_of (ts_cache ts) name = Some c \<and> cr_state c = Requested)"
  shows "let a' = actor_step C (x, Watcher (ResourceTimerExpired url name j)) a
    in delivered (worker a') = delivered (worker a) \<and> type_states (worker a') = type_states (worker a) \<and>
       written (worker a') = written (worker a) \<and> stream_context a' = stream_context a"
proof -
  obtain V where ok: "worker_ok (worker a)"
    and str: "stream_inv (map_option writes (live_session (stream_context a))) (worker a)"
    using reachedE [OF assms(1,2)] by blast
  have "map_of (resource_timers (worker a)) (url, name) = None"
  proof (cases "live_session (stream_context a)")
    case None
    then show ?thesis using str by (simp add: stream_inv_def)
  next
    case (Some s)
    then have none: "\<not> (\<exists>ts c. map_of (type_states (worker a)) url = Some ts \<and> map_of (ts_cache ts) name = Some c \<and> cr_state c = Requested)"
      using assms(3) by simp
    show ?thesis
    proof (rule ccontr)
      assume "map_of (resource_timers (worker a)) (url, name) \<noteq> None"
      then obtain k where "map_of (resource_timers (worker a)) (url, name) = Some k" by blast
      then show False using none ok unfolding worker_ok_def is_requested_def by blast
    qed
  qed
  then show ?thesis by (simp add: actor_step_def Let_def retire_on_error_def handle_resource_timeout_def)
qed

lemma nack_None: "nack_error_message t p = None \<longleftrightarrow> t = [] \<and> p = []"
  by (simp add: nack_error_message_def Let_def)

text \<open>Whether every resource of a response decodes.\<close>

definition all_valid :: "'v TypeState \<Rightarrow> DiscoveryResponse \<Rightarrow> bool" where
  "all_valid ts response \<longleftrightarrow>
     (\<forall>r \<in> set (resp_resources response). case ts_decoder ts (any_value r) of Success _ _ \<Rightarrow> True | _ \<Rightarrow> False)"

lemma decode_errors:
  "top_level_errors (fold (decode_resource dec v tm) rs d) = [] \<and> per_resource_errors (fold (decode_resource dec v tm) rs d) = [] \<longleftrightarrow>
   top_level_errors d = [] \<and> per_resource_errors d = [] \<and>
   (\<forall>r \<in> set rs. case dec (any_value r) of Success _ _ \<Rightarrow> True | _ \<Rightarrow> False)"
  by (induction rs arbitrary: d) (auto simp: decode_resource_def split: DecodeResult.splits)

lemma nack_valid:
  "(let d = decode_resources (ts_decoder ts) tm response in nack_error_message (top_level_errors d) (per_resource_errors d)) = None \<longleftrightarrow>
   all_valid ts response"
  by (simp add: Let_def nack_None decode_resources_def decode_errors all_valid_def)

text \<open>A response on the live stream, in the event loop.\<close>

lemma response_step:
  assumes "actor_inv V a" "running a" "live_session (stream_context a) = Some s" "decode_response C bytes = Inr response"
    and "map_of (type_states (worker a)) (resp_type_url response) = Some ts"
    and "a' = actor_step C (x, TransportEvt (TransportResponse bytes dn)) a"
  obtains w res w' where "worker_ok w" "type_states w = type_states (worker a)" "written w = written (worker a)"
    "room w = stream_room x" "node w = node (worker a)" "handle_response C (now x) (writes s) response dn w = (res, w')"
    "type_states (worker a') = type_states w'" "written (worker a') = written w'" "delivered (worker a') = delivered w'"
    "\<not> isl res \<longrightarrow> live_session (stream_context a') = Some (s\<lparr>saw_response := True\<rparr>)" "running a'"
proof -
  let ?w0 = "(worker a)\<lparr>room := stream_room x\<rparr>"
  obtain h w where rh: "record_healthy (healthy (stream_context a)) ?w0 = (h, w)" by fastforce
  obtain res w' where hr: "handle_response C (now x) (writes s) response dn w = (res, w')" by fastforce
  have "base_inv V ?w0" using assms(1) by (simp add: actor_inv_def)
  then have ok: "worker_ok ?w0" by (rule base_invD(1))
  have s: "session (stream_context a) = Some s" "cancel s" using assms(3) by (simp_all add: live_session_Some)
  let ?a = "a\<lparr>worker := w', stream_context := \<lparr>healthy = h, session = Some (s\<lparr>saw_response := True\<rparr>)\<rparr>\<rparr>"
  have a': "a' = retire_on_error (res, ?a)"
    using assms(2-4,6) rh hr by (simp add: actor_step_def Let_def)
  have w: "worker_ok w \<and> type_states w = type_states (worker a) \<and> written w = written (worker a) \<and> room w = stream_room x \<and>
      node w = node (worker a)"
    using rh ok by (auto simp: record_healthy_def split: if_splits)
  show thesis
  proof (rule that [of w res w'])
    show "type_states (worker a') = type_states w'" "written (worker a') = written w'" "delivered (worker a') = delivered w'"
      unfolding a' by (cases res; simp add: retire_on_error_def)+
    show "\<not> isl res \<longrightarrow> live_session (stream_context a') = Some (s\<lparr>saw_response := True\<rparr>)"
      using s unfolding a' by (cases res) (simp_all add: retire_on_error_def live_session_def)
    show "running a'" using assms(2) unfolding a' by (cases res) (simp_all add: retire_on_error_def)
  qed (use w hr in simp_all)
qed

lemma handle_response_types:
  assumes "worker_ok w" "map_of (type_states w) (resp_type_url response) = Some ts"
    "handle_response C tm tx response dn w = (res, w')"
  shows "\<exists>ts'. map_of (type_states w') (resp_type_url response) = Some ts' \<and>
      (\<forall>n. map_of (ts_cache ts') n = response_entry ts tm response n) \<and> ts_watchers ts' = ts_watchers ts \<and>
      ts_nonce ts' = resp_nonce response \<and>
      ts_version_info ts' = (if all_valid ts response then resp_version_info response else ts_version_info ts)"
    "u \<noteq> resp_type_url response \<Longrightarrow> map_of (type_states w') u = map_of (type_states w) u"
proof -
  let ?url = "resp_type_url response"
  obtain r where "write_request C tx r (acked tm response dn ts w) = (res, w')"
    using handle_response_sends [OF assms] by blast
  then have types: "type_states w' = type_states (acked tm response dn ts w)" by (elim write_request_cases) simp_all
  obtain cs where t: "map_of (type_states (acked tm response dn ts w)) ?url =
    Some (ts\<lparr>ts_nonce := resp_nonce response, ts_cache := cs,
             ts_version_info := (if all_valid ts response then resp_version_info response else ts_version_info ts)\<rparr>)"
    using acked_type [OF assms(1,2), of tm dn] unfolding nack_valid by blast
  have "entry (acked tm response dn ts w) ?url n = response_entry ts tm response n" for n
    using absorb_entry [OF assms(1,2), of tm dn n]
    by (cases "map_of (type_states (absorb tm response dn ts w)) ?url") (simp_all add: acked_def Let_def entry_def)
  then have "map_of cs n = response_entry ts tm response n" for n using t by (simp add: entry_def)
  then show "\<exists>ts'. map_of (type_states w') ?url = Some ts' \<and>
      (\<forall>n. map_of (ts_cache ts') n = response_entry ts tm response n) \<and> ts_watchers ts' = ts_watchers ts \<and>
      ts_nonce ts' = resp_nonce response \<and>
      ts_version_info ts' = (if all_valid ts response then resp_version_info response else ts_version_info ts)"
    using t types by simp
  show "map_of (type_states w') u = map_of (type_states w) u" if "u \<noteq> ?url"
    using stores_frame [OF absorb_ok(5) [OF assms(1), where tm = tm and response = response and dn = dn and ts = ts]] that
    by (simp add: types acked_def Let_def)
qed

lemma response_types:
  assumes "fresh_channels cmds" "a = reached C servers n timeout target present cmds" "running a"
    and "live_session (stream_context a) = Some s" "decode_response C bytes = Inr response"
    and "map_of (type_states (worker a)) (resp_type_url response) = Some ts"
    and "a' = actor_step C (x, TransportEvt (TransportResponse bytes dn)) a"
  shows "\<exists>ts'. map_of (type_states (worker a')) (resp_type_url response) = Some ts' \<and>
      (\<forall>name. map_of (ts_cache ts') name = response_entry ts (now x) response name) \<and> ts_watchers ts' = ts_watchers ts \<and>
      ts_nonce ts' = resp_nonce response \<and>
      ts_version_info ts' = (if all_valid ts response then resp_version_info response else ts_version_info ts) \<and>
      (\<forall>u. u \<noteq> resp_type_url response \<longrightarrow> map_of (type_states (worker a')) u = map_of (type_states (worker a)) u)" "running a'"
proof -
  obtain V where "actor_inv V a" using reachedE [OF assms(1,2)] by blast
  then obtain w res w' where w: "worker_ok w" "type_states w = type_states (worker a)"
      "handle_response C (now x) (writes s) response dn w = (res, w')" "type_states (worker a') = type_states w'" "running a'"
    by (rule response_step [OF _ assms(3-7)])
  have ts: "map_of (type_states w) (resp_type_url response) = Some ts" using assms(6) w(2) by simp
  show "running a'" by (rule w(5))
  show "\<exists>ts'. map_of (type_states (worker a')) (resp_type_url response) = Some ts' \<and>
      (\<forall>name. map_of (ts_cache ts') name = response_entry ts (now x) response name) \<and> ts_watchers ts' = ts_watchers ts \<and>
      ts_nonce ts' = resp_nonce response \<and>
      ts_version_info ts' = (if all_valid ts response then resp_version_info response else ts_version_info ts) \<and>
      (\<forall>u. u \<noteq> resp_type_url response \<longrightarrow> map_of (type_states (worker a')) u = map_of (type_states (worker a)) u)"
    using handle_response_types(1) [OF w(1) ts w(3)] handle_response_types(2) [OF w(1) ts w(3)] w(2,4) by simp
qed

text \<open>
  Property C10. A response for a type in use on the live stream: afterwards every name of the type has exactly the cache entry that the response
  gives it, rejected, received, deleted or as before; the nonce is that of the response, the version too if every resource was
  valid and else the last accepted one; watchers and other types stay as they are.
\<close>

theorem response_cached:
  assumes "fresh_channels cmds" "a = reached C servers n timeout target present cmds" "running a"
    and "live_session (stream_context a) = Some s" "decode_response C bytes = Inr response"
    and "map_of (type_states (worker a)) (resp_type_url response) = Some ts"
    and "a' = actor_step C (x, TransportEvt (TransportResponse bytes dn)) a"
  shows "\<exists>ts'. map_of (type_states (worker a')) (resp_type_url response) = Some ts' \<and>
      (\<forall>name. map_of (ts_cache ts') name = response_entry ts (now x) response name) \<and> ts_watchers ts' = ts_watchers ts \<and>
      ts_nonce ts' = resp_nonce response \<and>
      ts_version_info ts' = (if all_valid ts response then resp_version_info response else ts_version_info ts) \<and>
      (\<forall>u. u \<noteq> resp_type_url response \<longrightarrow> map_of (type_states (worker a')) u = map_of (type_states (worker a)) u)"
  by (rule response_types(1) [OF assms])

text \<open>
  Property C20. Every response for a type in use is answered at once with one request that carries its nonce: an ACK with its version if every
  resource was valid, else a NACK with the last accepted version and the error; the stream stays live.
\<close>

theorem response_acknowledged:
  assumes "fresh_channels cmds" "a = reached C servers n timeout target present cmds" "running a"
    and "live_session (stream_context a) = Some s" "decode_response C bytes = Inr response"
    and "map_of (type_states (worker a)) (resp_type_url response) = Some ts"
    and "a' = actor_step C (x, TransportEvt (TransportResponse bytes dn)) a"
    and "0 < stream_room x" "\<And>r. \<exists>b. encode_request C r = Inr b"
  shows "\<exists>r. written (worker a') = written (worker a) @ [(writes s, r)] \<and>
      req_type_url r = resp_type_url response \<and> req_response_nonce r = resp_nonce response \<and>
      req_version_info r = (if all_valid ts response then resp_version_info response else ts_version_info ts) \<and>
      (req_error_detail r = None \<longleftrightarrow> all_valid ts response) \<and> req_node r = node (worker a) \<and>
      live_session (stream_context a') = Some (s\<lparr>saw_response := True\<rparr>)"
proof -
  obtain V where "actor_inv V a" using reachedE [OF assms(1,2)] by blast
  then obtain w res w' where w: "worker_ok w" "type_states w = type_states (worker a)" "written w = written (worker a)"
      "room w = stream_room x" "node w = node (worker a)" "handle_response C (now x) (writes s) response dn w = (res, w')"
      "type_states (worker a') = type_states w'" "written (worker a') = written w'" "delivered (worker a') = delivered w'"
      "\<not> isl res \<longrightarrow> live_session (stream_context a') = Some (s\<lparr>saw_response := True\<rparr>)"
    by (rule response_step [OF _ assms(3-7)])
  have ts: "map_of (type_states w) (resp_type_url response) = Some ts" using assms(6) w(2) by simp
  let ?w = "acked (now x) response dn ts w"
  obtain r where r: "write_request C (writes s) r ?w = (res, w')" "req_type_url r = resp_type_url response"
      "\<forall>t. map_of (type_states ?w) (resp_type_url response) = Some t \<longrightarrow> tells t r" "req_node r = node w"
      "req_error_detail r = map_option (\<lambda>e. \<lparr>ed_code = 3, ed_message = e\<rparr>)
       (let d = decode_resources (ts_decoder ts) (now x) response in nack_error_message (top_level_errors d) (per_resource_errors d))"
    by (rule handle_response_sends [OF w(1) ts w(6)])
  have fr: "room ?w = room w" "written ?w = written w"
    using stores_frame [OF absorb_ok(5) [OF w(1), where tm = "now x" and response = response and dn = dn and ts = ts]]
    by (simp_all add: acked_def Let_def)
  obtain b where "encode_request C r = Inr b" using assms(9) by blast
  then have "res = Inr ()" "w' = ?w\<lparr>written := written ?w @ [(writes s, r)], room := room ?w - 1\<rparr>"
    using r(1) fr w(4) assms(8) by (auto simp: write_request_def)
  moreover have "req_error_detail r = None \<longleftrightarrow> all_valid ts response"
    unfolding r(5) by (simp flip: nack_valid [of ts "now x"])
  moreover have "req_response_nonce r = resp_nonce response \<and>
      req_version_info r = (if all_valid ts response then resp_version_info response else ts_version_info ts)"
    using acked_type [OF w(1) ts, of "now x" dn] r(3) unfolding nack_valid tells_def by fastforce
  ultimately show ?thesis using w(3,5,8,10) r(2,4) fr by (intro exI [of _ r]) simp
qed

text \<open>
  Property C21. The gauge of resources that monitoring sees is exact after every command: for every type and cache state its last value is the
  number of cached resources of the type in that state, zero for a type that is not in use.
\<close>

theorem resource_gauge_exact:
  assumes "fresh_channels cmds" "a = reached C servers n timeout target present cmds" "has_recorder (recorder (worker a))"
  shows "gauge (measured (recorder (worker a))) (cache_state_attrs (recorder (worker a)) url label) =
    (case map_of (type_states (worker a)) url of
       None \<Rightarrow> 0
     | Some ts \<Rightarrow> int (length (filter (\<lambda>(_, c). cache_state_label (cr_state c) = label) (ts_cache ts))))"
proof -
  obtain V where "loop_inv V a" using reachedE [OF assms(1,2)] by blast
  then show ?thesis using assms(3)
    by (cases "map_of (type_states (worker a)) url")
      (simp_all add: loop_inv_def gauge_inv_def recorder_ok_def resource_state_counts(2))
qed

definition snapshot_key :: "ResourceSnapshot \<Rightarrow> string \<times> string" where
  "snapshot_key s = (rs_type_url s, rs_name s)"

lemma snapshot_keys_distinct:
  "\<lbrakk>distinct (map fst types); \<And>u ts. (u, ts) \<in> set types \<Longrightarrow> ts_type_url ts = u \<and> distinct (map fst (ts_cache ts))\<rbrakk> \<Longrightarrow>
   distinct (map snapshot_key (concat (map (ts_snapshot \<circ> snd) types)))"
proof (induction types)
  case (Cons p types)
  obtain u ts where p: "p = (u, ts)" by fastforce
  have t: "ts_type_url ts = u" "distinct (map fst (ts_cache ts))" using Cons.prems(2) [of u ts] p by auto
  have "map snapshot_key (ts_snapshot ts) =
      map (\<lambda>n. (u, n)) (map fst (filter (\<lambda>(n, _). mode_includes (ts_subscription ts) n) (ts_cache ts)))"
    by (simp add: ts_snapshot_def snapshot_key_def t(1) case_prod_beta)
  then have d: "distinct (map snapshot_key (ts_snapshot ts))" "snapshot_key ` set (ts_snapshot ts) \<subseteq> {u} \<times> UNIV"
    using t(2) by (simp_all add: distinct_map inj_on_def distinct_map_filter flip: list.set_map) auto
  have "fst (snapshot_key s) \<noteq> u" if "(v, ts') \<in> set types" "s \<in> set (ts_snapshot ts')" for s v ts'
    using Cons.prems(1) Cons.prems(2) [of v ts'] that p by (force simp: ts_snapshot_def snapshot_key_def)
  then have "snapshot_key ` set (ts_snapshot ts) \<inter> snapshot_key ` set (concat (map (ts_snapshot \<circ> snd) types)) = {}"
    using d(2) by fastforce
  moreover have "distinct (map snapshot_key (concat (map (ts_snapshot \<circ> snd) types)))"
    using Cons.prems by (intro Cons.IH) auto
  ultimately show ?case using d(1) by (simp add: p comp_def)
qed simp

lemma includes_mode:
  "mode_includes (mode_of ws) name \<longleftrightarrow>
   (\<exists>i e. (i, e) \<in> set ws \<and> (we_subscription e = WatchAll \<or> we_subscription e = WatchName name))"
proof -
  have "list_ex (\<lambda>(_, entry). is_wildcard (we_subscription entry)) ws \<longleftrightarrow> (\<exists>i e. (i, e) \<in> set ws \<and> we_subscription e = WatchAll)"
    by (force simp: list_ex_iff elim: is_wildcard.elims)
  then show ?thesis using set_watched_names [of ws] by (auto simp: mode_of_def)
qed

text \<open>
  A snapshot is sorted by type and name, has no resource twice, and shows exactly the cached resources that some watcher is
  subscribed to, with their status, the last accepted version and the rejected update.
\<close>

theorem snapshot_exact:
  assumes "fresh_channels cmds" "a = reached C servers n timeout target present cmds"
  shows "sorted (map snapshot_key (worker_snapshot (worker a))) \<and> distinct (map snapshot_key (worker_snapshot (worker a))) \<and>
    (\<forall>s. s \<in> set (worker_snapshot (worker a)) \<longleftrightarrow>
       (\<exists>ts c. map_of (type_states (worker a)) (rs_type_url s) = Some ts \<and> map_of (ts_cache ts) (rs_name s) = Some c \<and>
          (\<exists>i e. (i, e) \<in> set (ts_watchers ts) \<and> (we_subscription e = WatchAll \<or> we_subscription e = WatchName (rs_name s))) \<and>
          rs_status s = state_status (cr_state c) \<and> rs_accepted s = cr_accepted c \<and>
          rs_rejected s = (case cr_state c of NACKed r \<Rightarrow> Some r | _ \<Rightarrow> None)))"
proof (intro conjI allI)
  obtain V where ok: "worker_ok (worker a)" using reachedE [OF assms] by blast
  let ?xs = "concat (map (ts_snapshot \<circ> snd) (type_states (worker a)))"
  have types: "ts_type_url ts = u \<and> distinct (map fst (ts_cache ts)) \<and> ts_subscription ts = mode_of (ts_watchers ts)"
    if "(u, ts) \<in> set (type_states (worker a))" for u ts
    using worker_okD(3) [OF ok] that worker_okD(1) [OF ok] by (simp add: type_ok_def)
  have eq: "worker_snapshot (worker a) = sort_key snapshot_key ?xs" by (simp add: worker_snapshot_def snapshot_key_def [abs_def])
  show "sorted (map snapshot_key (worker_snapshot (worker a)))" unfolding eq by (rule sorted_sort_key)
  have "distinct (map snapshot_key ?xs)" using types worker_okD(1) [OF ok] by (intro snapshot_keys_distinct) auto
  then show "distinct (map snapshot_key (worker_snapshot (worker a)))" unfolding eq by (simp add: distinct_map)
  fix s
  show "s \<in> set (worker_snapshot (worker a)) \<longleftrightarrow>
       (\<exists>ts c. map_of (type_states (worker a)) (rs_type_url s) = Some ts \<and> map_of (ts_cache ts) (rs_name s) = Some c \<and>
          (\<exists>i e. (i, e) \<in> set (ts_watchers ts) \<and> (we_subscription e = WatchAll \<or> we_subscription e = WatchName (rs_name s))) \<and>
          rs_status s = state_status (cr_state c) \<and> rs_accepted s = cr_accepted c \<and>
          rs_rejected s = (case cr_state c of NACKed r \<Rightarrow> Some r | _ \<Rightarrow> None))" (is "_ \<longleftrightarrow> ?R")
  proof -
    have "s \<in> set (ts_snapshot ts) \<longleftrightarrow> rs_type_url s = u \<and> (\<exists>c. map_of (ts_cache ts) (rs_name s) = Some c \<and>
          (\<exists>i e. (i, e) \<in> set (ts_watchers ts) \<and> (we_subscription e = WatchAll \<or> we_subscription e = WatchName (rs_name s))) \<and>
          rs_status s = state_status (cr_state c) \<and> rs_accepted s = cr_accepted c \<and>
          rs_rejected s = (case cr_state c of NACKed r \<Rightarrow> Some r | _ \<Rightarrow> None))"
      if t: "(u, ts) \<in> set (type_states (worker a))" for u ts
      using types [OF t] by (cases s) (auto simp: ts_snapshot_def includes_mode image_iff)
    then show ?thesis
      using worker_okD(1) [OF ok] unfolding eq by (force simp: map_of_eq_Some_iff)
  qed
qed

lemma watch_greets:
  assumes "handle_command C live (Watch wa) w = (res, w')"
  shows "delivered w' = delivered w @ greeting wa (state_for wa w)"
proof -
  obtain changed w1 where add: "add_watcher wa w = (changed, w1)" by fastforce
  have "delivered y = delivered x" if "send_request C tx url x = (r, y)" for tx url x r y
    using that by (auto simp: send_request_def write_request_def split: option.splits sum.splits if_splits)
  then have "delivered w' = delivered w1"
    using assms add by (auto split: option.splits if_splits)
  then show ?thesis using add_watcher_eq(3) [OF add] by simp
qed

lemma actor_watch_greets:
  "running a \<Longrightarrow>
   delivered (worker (actor_step C (y, Watcher (Watch wa)) a)) = delivered (worker a) @ greeting wa (state_for wa (worker a))"
proof -
  assume run: "running a"
  let ?w = "(worker a)\<lparr>room := stream_room y\<rparr>"
  obtain r w' where h: "handle_command C (map_option writes (live_session (stream_context a))) (Watch wa) ?w = (r, w')" by fastforce
  have "state_for wa ?w = state_for wa (worker a)" by (simp add: state_for_def)
  then show ?thesis using watch_greets [OF h] run h
    by (cases r) (simp_all add: actor_step_def Let_def retire_on_error_def split: option.split)
qed

definition absent :: "'v TypeState \<Rightarrow> DiscoveryResponse \<Rightarrow> string \<Rightarrow> bool" where
  "absent ts response name \<longleftrightarrow>
     (\<forall>r \<in> set (resp_resources response).
        case ts_decoder ts (any_value r) of
          Success _ v \<Rightarrow> dr_name v \<noteq> name | ResourceError m _ \<Rightarrow> m \<noteq> name | TopLevelError _ \<Rightarrow> True)"

lemma absent_loop:
  "\<forall>r \<in> set rs. (case dec (any_value r) of
       Success _ v \<Rightarrow> dr_name v \<noteq> name | ResourceError m _ \<Rightarrow> m \<noteq> name | TopLevelError _ \<Rightarrow> True) \<Longrightarrow>
   name \<notin> (dr_name \<circ> fst) ` set (valid_resources d) \<Longrightarrow> name \<notin> fst ` set (per_resource_errors d) \<Longrightarrow>
   name \<notin> (dr_name \<circ> fst) ` set (valid_resources (fold (decode_resource dec v tm) rs d)) \<and>
   name \<notin> fst ` set (per_resource_errors (fold (decode_resource dec v tm) rs d))"
proof (induction rs arbitrary: d)
  case (Cons r rs)
  have "name \<notin> (dr_name \<circ> fst) ` set (valid_resources (decode_resource dec v tm r d))"
    "name \<notin> fst ` set (per_resource_errors (decode_resource dec v tm r d))"
    using Cons.prems by (auto simp: decode_resource_def split: DecodeResult.splits)
  then show ?case using Cons.IH Cons.prems(1) by simp
qed simp

lemma absent_entry:
  assumes "absent ts response name" "ts_all_required ts" "map_of (ts_cache ts) name = Some c" "cr_state c = Received"
  shows "response_entry ts tm response name = Some (cr_does_not_exist (cr_accepted c))"
proof -
  let ?d = "decode_resources (ts_decoder ts) tm response"
  have "name \<notin> (dr_name \<circ> fst) ` set (valid_resources ?d) \<and> name \<notin> fst ` set (per_resource_errors ?d)"
    unfolding decode_resources_def using assms(1) by (intro absent_loop) (simp_all add: absent_def)
  then have "valid_for ?d name = None" "error_for ?d name = None"
    by (simp_all add: valid_for_def error_for_def last_for_None image_image comp_def)
  then show ?thesis using assms(2-4) by (simp add: response_entry_def Let_def)
qed

text \<open>
  Property C38. A resource that nobody watches any more, of a type that is still in use, stays in the cache. A complete response without it
  marks it as deleted, although the last request told the server not to send it: the next watcher of the name is told at
  once that the resource does not exist, before the server is asked.
\<close>

theorem unsubscribed_resource_reported_missing:
  assumes "fresh_channels cmds" "a = reached C servers n timeout target present cmds" "running a"
    and "live_session (stream_context a) = Some s" "decode_response C bytes = Inr response"
    and "map_of (type_states (worker a)) (resp_type_url response) = Some ts"
    and "ts_all_required ts" "map_of (ts_cache ts) name = Some c" "cr_state c = Received" "absent ts response name"
    and "\<forall>(i, e) \<in> set (ts_watchers ts). we_subscription e \<noteq> WatchAll \<and> we_subscription e \<noteq> WatchName name"
    and "a' = actor_step C (x, TransportEvt (TransportResponse bytes dn)) a"
    and "wa_type_url wa = resp_type_url response" "wa_name wa = name" "name \<noteq> []"
  shows "(\<exists>r. last_request (writes s) (resp_type_url response) (written (worker a)) = Some r \<and> name \<notin> set (req_resource_names r)) \<and>
    last_seen (wa_event_tx wa) (delivered (worker (actor_step C (y, Watcher (Watch wa)) a'))) = Some (Inl ResourceDoesNotExist)"
proof
  obtain V where inv: "worker_ok (worker a)" "stream_inv (Some (writes s)) (worker a)"
    using reachedE [OF assms(1,2)] unfolding assms(4) option.map by blast
  then obtain r where r: "last_request (writes s) (resp_type_url response) (written (worker a)) = Some r" "tells ts r"
    using assms(6) by (auto simp: stream_inv_def informed_at_def)
  have t: "ts_subscription ts = mode_of (ts_watchers ts)" "ts_watchers ts \<noteq> []"
    using worker_okD(3) [OF inv(1) assms(6)] by (simp_all add: type_ok_def)
  have "name \<notin> set (req_resource_names r)"
    using r(2) names_of_mode(2) [OF t(2)] assms(11) by (auto simp: tells_def t(1))
  then show "\<exists>r. last_request (writes s) (resp_type_url response) (written (worker a)) = Some r \<and> name \<notin> set (req_resource_names r)"
    using r(1) by blast
  obtain ts' where ts': "map_of (type_states (worker a')) (resp_type_url response) = Some ts'"
      "map_of (ts_cache ts') name = response_entry ts (now x) response name"
    using response_types(1) [OF assms(1-6,12)] by blast
  have run: "running a'" by (rule response_types(2) [OF assms(1-6,12)])
  have st: "state_for wa (worker a') = ts'" using ts'(1) assms(13) by (simp add: state_for_def)
  have "greeting wa ts' = map (\<lambda>t. (t, ResourceChanged (Inl ResourceDoesNotExist) None)) [wa_event_tx wa]"
    using ts'(2) assms(14,15) absent_entry [OF assms(10,7-9)]
    by (simp add: greeting_def to_event_def cr_does_not_exist_def)
  then show "last_seen (wa_event_tx wa) (delivered (worker (actor_step C (y, Watcher (Watch wa)) a'))) = Some (Inl ResourceDoesNotExist)"
    unfolding actor_watch_greets [OF run] st by (simp only: last_seen_append) simp
qed

definition example_resource :: "(byte, byte) Resource" where
  "example_resource =
     \<lparr>TYPE_URL = ''t'', ALL_RESOURCES_REQUIRED_IN_SOTW = True,
      res_deserialize = (\<lambda>bytes. case bytes of [] \<Rightarrow> Inl (Decode ''empty'') | b # _ \<Rightarrow> Inr b),
      res_name = (\<lambda>b. if b = 1 then ''a'' else ''b''),
      res_validate = (\<lambda>b. if b = 3 then Inl (Validation ''bad'') else Inr b)\<rparr>"

definition example_codec :: "unit xds_codec" where
  "example_codec =
     \<lparr>encode_request = (\<lambda>_. Inr []),
      decode_response = (\<lambda>bytes. Inr \<lparr>resp_version_info = ''1'',
         resp_resources = map (\<lambda>b. \<lparr>any_type_url = ''t'', any_value = [b]\<rparr>) bytes, resp_type_url = ''t'', resp_nonce = ''n''\<rparr>)\<rparr>"

definition example_input :: input where "example_input = \<lparr>now = 1, stream_room = 10\<rparr>"

definition example_run :: "byte WorkerCommand list \<Rightarrow> (byte, unit) Actor" where
  "example_run cmds = reached example_codec [''s''] () (Some 15) None True (map (\<lambda>c. (example_input, c)) cmds)"

definition example_watch :: "string \<Rightarrow> nat \<Rightarrow> byte WorkerCommand" where
  "example_watch name tx = Watcher (Watch (watch_args example_resource name tx tx))"

text \<open>Two names are watched, the stream opens and a response brings both.\<close>

definition example_cmds :: "byte WorkerCommand list" where
  "example_cmds = [example_watch ''a'' 1, TransportEvt (TransportReady 7), example_watch ''b'' 2,
     TransportEvt (TransportResponse [1, 2] 0)]"

definition example_actor :: "(byte, unit) Actor" where "example_actor = example_run example_cmds"

definition type_t :: "(byte, unit) Actor \<Rightarrow> byte TypeState" where
  "type_t a = the (map_of (type_states (worker a)) ''t'')"

lemma type_t: "\<not> Option.is_none (map_of (type_states (worker a)) ''t'') \<Longrightarrow> map_of (type_states (worker a)) ''t'' = Some (type_t a)"
  by (cases "map_of (type_states (worker a)) ''t''") (simp_all add: type_t_def)

lemma example_fresh: "fresh_channels (map (\<lambda>c. (example_input, c)) example_cmds)" by code_simp

lemma example_reached: "example_actor = reached example_codec [''s''] () (Some 15) None True (map (\<lambda>c. (example_input, c)) example_cmds)"
  by (simp add: example_actor_def example_run_def)

lemma example_live: "live_session (stream_context example_actor) = Some \<lparr>writes = 7, cancel = True, saw_response = True\<rparr>"
  by code_simp

lemma example_type: "map_of (type_states (worker example_actor)) ''t'' = Some (type_t example_actor)"
  by (rule type_t) code_simp

definition example_watcher :: "string \<Rightarrow> nat \<Rightarrow> WatcherEntry" where
  "example_watcher name tx = \<lparr>event_tx = tx, we_subscription = WatchName name\<rparr>"

lemma example_watching: "(1, example_watcher ''a'' 1) \<in> set (ts_watchers (type_t example_actor))"
  by code_simp

theorem watchers_up_to_date_witness:
  "\<exists>c. map_of (ts_cache (type_t example_actor)) ''a'' = Some c \<and>
    last_seen 1 (delivered (worker example_actor)) =
      (case cr_state c of
         Requested \<Rightarrow> None
       | Received \<Rightarrow> map_option Inr (cr_resource c)
       | DoesNotExist \<Rightarrow> Some (Inl ResourceDoesNotExist)
       | NACKed rejected \<Rightarrow> Some (Inl (Validation (ru_details rejected)))) \<and>
    (cr_state c = Received \<longleftrightarrow> cr_resource c \<noteq> None)"
  using watchers_up_to_date [OF example_fresh example_reached example_type example_watching]
  by (simp add: example_watcher_def)

theorem server_informed_witness:
  "\<exists>r. last_request 7 ''t'' (written (worker example_actor)) = Some r \<and>
    req_version_info r = ts_version_info (type_t example_actor) \<and> req_response_nonce r = ts_nonce (type_t example_actor)"
  using server_informed [OF example_fresh example_reached example_live example_type] by auto

text \<open>The same before the response.\<close>

definition waiting_cmds :: "byte WorkerCommand list" where
  "waiting_cmds = [example_watch ''a'' 1, TransportEvt (TransportReady 7), example_watch ''b'' 2]"

definition waiting_actor :: "(byte, unit) Actor" where "waiting_actor = example_run waiting_cmds"

lemma waiting_fresh: "fresh_channels (map (\<lambda>c. (example_input, c)) waiting_cmds)" by code_simp

lemma waiting_reached: "waiting_actor = reached example_codec [''s''] () (Some 15) None True (map (\<lambda>c. (example_input, c)) waiting_cmds)"
  by (simp add: waiting_actor_def example_run_def)

lemma waiting_facts:
  "running waiting_actor" "resource_initial_timeout (worker waiting_actor) = Some 15"
  "live_session (stream_context waiting_actor) = Some \<lparr>writes = 7, cancel = True, saw_response = False\<rparr>"
  "last_seen 1 (delivered (worker waiting_actor)) = None"
  "(1, example_watcher ''a'' 1) \<in> set (ts_watchers (type_t waiting_actor))"
  by code_simp+

lemma waiting_type: "map_of (type_states (worker waiting_actor)) ''t'' = Some (type_t waiting_actor)"
  by (rule type_t) code_simp

theorem awaited_resource_resolves_witness:
  "\<exists>j. (''t'', ''a'', j, 15) \<in> set (sleeps (worker waiting_actor)) \<and>
    last_seen 1 (delivered (worker (actor_step example_codec (example_input, Watcher (ResourceTimerExpired ''t'' ''a'' j)) waiting_actor))) =
      Some (Inl ResourceDoesNotExist)"
  using awaited_resource_resolves [OF waiting_fresh waiting_reached waiting_facts(1-3) waiting_type waiting_facts(5), of "''a''" example_input]
    waiting_facts(4) by (simp add: example_watcher_def)

definition failed_actor :: "(byte, unit) Actor" where
  "failed_actor = example_run (waiting_cmds @ [TransportEvt TransportFailed])"

theorem timeout_only_awaited_witness:
  "delivered (worker (actor_step example_codec (example_input, Watcher (ResourceTimerExpired ''t'' ''a'' 0)) failed_actor)) =
   delivered (worker failed_actor)"
proof -
  have "fresh_channels (map (\<lambda>c. (example_input, c)) (waiting_cmds @ [TransportEvt TransportFailed]))" by code_simp
  moreover have "failed_actor = reached example_codec [''s''] () (Some 15) None True
      (map (\<lambda>c. (example_input, c)) (waiting_cmds @ [TransportEvt TransportFailed]))"
    by (simp add: failed_actor_def example_run_def)
  moreover have "live_session (stream_context failed_actor) = None" by code_simp
  ultimately show ?thesis using timeout_only_awaited [of _ failed_actor example_codec] by (simp add: Let_def)
qed

definition example_response :: "byte list \<Rightarrow> DiscoveryResponse" where
  "example_response bytes = \<lparr>resp_version_info = ''1'',
     resp_resources = map (\<lambda>b. \<lparr>any_type_url = ''t'', any_value = [b]\<rparr>) bytes, resp_type_url = ''t'', resp_nonce = ''n''\<rparr>"

lemma example_decode: "decode_response example_codec bytes = Inr (example_response bytes)"
  by (simp add: example_codec_def example_response_def)

lemma example_response_type: "resp_type_url (example_response bytes) = ''t''"
  by (simp add: example_response_def)

theorem response_cached_witness:
  "\<exists>ts'. map_of (type_states (worker (actor_step example_codec (example_input, TransportEvt (TransportResponse [1, 3] 0)) waiting_actor))) ''t'' =
      Some ts' \<and>
    map_of (ts_cache ts') ''b'' = response_entry (type_t waiting_actor) 1 (example_response [1, 3]) ''b'' \<and>
    ts_nonce ts' = ''n'' \<and> ts_version_info ts' = []"
proof -
  have "\<not> all_valid (type_t waiting_actor) (example_response [1, 3])" "ts_version_info (type_t waiting_actor) = []"
    "now example_input = 1" "resp_nonce (example_response [1, 3]) = ''n''"
    by code_simp+
  then show ?thesis
    using response_cached [OF waiting_fresh waiting_reached waiting_facts(1,3) example_decode [of "[1, 3]"], of "type_t waiting_actor" _ example_input 0]
      waiting_type by (auto simp: example_response_type)
qed

theorem response_acknowledged_witness:
  "\<exists>r. written (worker (actor_step example_codec (example_input, TransportEvt (TransportResponse [1, 3] 0)) waiting_actor)) =
      written (worker waiting_actor) @ [(7, r)] \<and>
    req_type_url r = ''t'' \<and> req_response_nonce r = ''n'' \<and> req_version_info r = [] \<and> req_error_detail r \<noteq> None"
proof -
  have "\<not> all_valid (type_t waiting_actor) (example_response [1, 3])" "ts_version_info (type_t waiting_actor) = []"
    "0 < stream_room example_input" "resp_nonce (example_response [1, 3]) = ''n''"
    by code_simp+
  moreover have "\<exists>b. encode_request example_codec r = Inr b" for r by (simp add: example_codec_def)
  ultimately show ?thesis
    using response_acknowledged [OF waiting_fresh waiting_reached waiting_facts(1,3) example_decode [of "[1, 3]"], of "type_t waiting_actor" _ example_input 0]
      waiting_type by (auto simp: example_response_type)
qed

theorem resource_gauge_exact_witness:
  "gauge (measured (recorder (worker example_actor))) (cache_state_attrs (recorder (worker example_actor)) ''t'' ''acked'') =
    int (length (filter (\<lambda>(_, c). cache_state_label (cr_state c) = ''acked'') (ts_cache (type_t example_actor))))"
proof -
  have "has_recorder (recorder (worker example_actor))" by code_simp
  then show ?thesis using resource_gauge_exact [OF example_fresh example_reached, of "''t''" "''acked''"] example_type by simp
qed

theorem snapshot_exact_witness:
  "sorted (map snapshot_key (worker_snapshot (worker example_actor))) \<and> distinct (map snapshot_key (worker_snapshot (worker example_actor)))"
  using snapshot_exact [OF example_fresh example_reached] by blast

text \<open>The second name is given up, and a response without it arrives.\<close>

definition unwatched_cmds :: "byte WorkerCommand list" where
  "unwatched_cmds = example_cmds @ [Watcher (Unwatch 2)]"

definition unwatched_actor :: "(byte, unit) Actor" where "unwatched_actor = example_run unwatched_cmds"

lemma unwatched_facts:
  "fresh_channels (map (\<lambda>c. (example_input, c)) unwatched_cmds)" "running unwatched_actor"
  "live_session (stream_context unwatched_actor) = Some \<lparr>writes = 7, cancel = True, saw_response = True\<rparr>"
  "ts_all_required (type_t unwatched_actor)" "cr_state (the (map_of (ts_cache (type_t unwatched_actor)) ''b'')) = Received"
  "absent (type_t unwatched_actor) (example_response [1]) ''b''"
  "\<not> Option.is_none (map_of (ts_cache (type_t unwatched_actor)) ''b'')"
  "list_all (\<lambda>(i, e). we_subscription e \<noteq> WatchAll \<and> we_subscription e \<noteq> WatchName ''b'') (ts_watchers (type_t unwatched_actor))"
  by code_simp+

theorem unsubscribed_resource_reported_missing_witness:
  "last_seen 3 (delivered (worker (actor_step example_codec (example_input, example_watch ''b'' 3)
     (actor_step example_codec (example_input, TransportEvt (TransportResponse [1] 0)) unwatched_actor)))) =
   Some (Inl ResourceDoesNotExist)"
proof -
  let ?wa = "watch_args example_resource ''b'' 3 3"
  have re: "unwatched_actor = reached example_codec [''s''] () (Some 15) None True (map (\<lambda>c. (example_input, c)) unwatched_cmds)"
    by (simp add: unwatched_actor_def example_run_def)
  have ty: "map_of (type_states (worker unwatched_actor)) (resp_type_url (example_response [1])) = Some (type_t unwatched_actor)"
    unfolding example_response_type by (rule type_t) code_simp
  have c: "map_of (ts_cache (type_t unwatched_actor)) ''b'' = Some (the (map_of (ts_cache (type_t unwatched_actor)) ''b''))"
    using unwatched_facts(7) by (simp add: Option.is_none_def)
  have w: "\<forall>(i, e) \<in> set (ts_watchers (type_t unwatched_actor)). we_subscription e \<noteq> WatchAll \<and> we_subscription e \<noteq> WatchName ''b''"
    using unwatched_facts(8) by (simp add: list_all_iff)
  have a: "wa_type_url ?wa = resp_type_url (example_response [1])" "wa_name ?wa = ''b''" "wa_event_tx ?wa = 3"
    by (simp_all add: watch_args_def example_resource_def example_response_type)
  show ?thesis
    using unsubscribed_resource_reported_missing [OF unwatched_facts(1) re unwatched_facts(2,3) example_decode ty unwatched_facts(4) c
        unwatched_facts(5,6) w refl a(1,2), where x = example_input and dn = 0 and y = example_input]
    by (simp add: a(3) example_watch_def)
qed

end
