(* ===== verification/Spec2Isabelle.thy ===== *)
theory Spec2Isabelle
  imports Grpc_Response Grpc_Timeout Metadata_Encoding Grpc_Web Pick_First Subchannel Subchannel_Sharing Recv_Validator
    Xds_Resources Xds_Worker_Properties
begin

text \<open>
  A verification development of the gRPC implementation in Rust: the \<open>tonic\<close> crates (the established client and server
  stack), the new \<open>grpc\<close> crate with its xDS part \<open>grpc-xds\<close>, and the xDS transport client \<open>xds-client\<close>.

  \<^bold>\<open>The program's parts and how they interact.\<close> A \<open>tonic\<close> server encodes messages into length-prefixed frames of an HTTP
  body and ends it with a status in the trailers; the client decodes frames, messages and status again. Both sides
  negotiate compression by headers; metadata, timeouts and statuses travel as headers; \<open>tonic-web\<close> wraps the same
  bodies for browsers. In the \<open>grpc\<close> crate a channel has a load-balancing policy, which turns resolved addresses into
  subchannels, connects them and gives the channel a picker; call streams are wrapped in a validator. With xDS, the
  \<open>xds-client\<close> worker subscribes to resources of a management server and hands them to watchers; \<open>grpc-xds\<close> validates
  them, chooses the virtual host for the channel's authority, matches calls against its routes, and resolves the graph
  of clusters that the routes name.

  \<^bold>\<open>Conventions.\<close> A byte is an \<open>8 word\<close> and a text a \<open>string\<close> of one character per byte; \<open>usize\<close> is \<open>nat\<close> unless
  wrap-around matters, fixed-width numbers that reach the wire keep their width. A Rust \<open>Result\<close> is a sum (\<open>Inl\<close> the
  error), a panic is the \<open>None\<close> of an option, a struct a record and an enum a datatype. Mutable state is passed
  explicitly; handlers are functions from state to state and effects go to a log in the state. A \<open>HashMap\<close> is a map
  or, where the code iterates over it, an association list whose order stands for the unspecified order of iteration.
  Code outside the repository (the \<open>http\<close>, \<open>base64\<close>, \<open>percent_encoding\<close>, \<open>flate2\<close>, \<open>zstd\<close> and \<open>regex\<close> crates, generated
  protobuf types, timers, sockets and random numbers) enters as parameters: the records \<open>ext\<close>, \<open>http\<close>, \<open>regex_lib\<close>,
  \<open>proto_lib\<close> and \<open>xds_codec\<close>, with what is documented of it as named predicates (\<open>header_map_laws\<close>, \<open>base64_laws\<close>,
  \<open>http_laws\<close>, \<open>codec_laws\<close>, \<open>compression_laws\<close>, \<open>header_name_laws\<close>), each shown to hold for a concrete instance.

  \<^bold>\<open>The theories.\<close>

  \<^item> \<open>Prelude\<close> holds the shared parts of the standard library (decimal numbers, \<open>split\<close>, big-endian fields, ASCII case) and
    the locale \<open>invariant_machine\<close> for invariants of state machines over sequences of events. \<open>Extern\<close> holds the
    third-party parameters and their laws.

  \<^item> \<open>Status_Code\<close> and \<open>Status\<close> (\<open>tonic/src/status.rs\<close>): the codes, the status value, \<open>add_header\<close>, \<open>from_header_map\<close>,
    \<open>infer_grpc_status\<close> and the conversions from errors. Statuses survive their headers; a call is successful exactly if
    its trailers say so; when \<open>from_header_map\<close> panics is stated exactly.

  \<^item> \<open>Compression\<close> (\<open>codec/compression.rs\<close>): enabling encodings, negotiation by headers, compress and decompress with the
    size limit. What is negotiated is enabled on both sides; unknown encodings are rejected.

  \<^item> \<open>Codec\<close>, \<open>Codec_Encode\<close>, \<open>Codec_Decode\<close> (\<open>codec/mod.rs\<close>, \<open>buffer.rs\<close>, \<open>encode.rs\<close>, \<open>decode.rs\<close>): buffers, framing, batching,
    the \<open>Streaming\<close> reader. \<open>Grpc_Response\<close> composes both sides: what a server sends the client reads, however the
    transport cuts the bytes. The reader is total; a client that polls \<open>length src + 3\<close> times has seen the end, since every
    poll consumes a poll of the source except the last three (the buffered rest, the trailers, the end).

  \<^item> \<open>Metadata_Encoding\<close> (\<open>tonic/src/metadata/encoding.rs\<close>), \<open>Grpc_Timeout\<close> (\<open>request.rs\<close>, \<open>service/grpc_timeout.rs\<close>) and
    \<open>Grpc_Web\<close> (\<open>tonic-web/src/call.rs\<close>): binary and ASCII values, the timeout header with its rounding, and the gRPC-Web
    body adapter with base64 text and trailers as a frame.

  \<^item> \<open>Grpc_Core\<close>, \<open>Lb_Common\<close>, \<open>Pick_First\<close>, \<open>Subchannel\<close>, \<open>Subchannel_Sharing\<close> (\<open>grpc/src/client\<close>): authorities and
    security levels, the policy interface, the pick-first policy with happy eyeballs, the subchannel state machine, and
    sharing of subchannels by address. The policy never panics on what subchannels send, tries the addresses in order,
    reports failure when all failed, and announces exactly its own state. This theory proves that the subchannels keep
    the contract the policy relies on.

  \<^item> \<open>Recv_Validator\<close> (\<open>grpc/src/client/stream_util.rs\<close>): a faulty stream is cut to a well-formed one, a correct one passes.

  \<^item> \<open>Grpc_Metadata\<close> (\<open>grpc/src/metadata\<close>): the entry vector implements a map from keys to value lists (locale
    \<open>multimap\<close>, interpreted as \<open>md\<close>), and metadata survives the conversion to HTTP headers and back.

  \<^item> \<open>Xds_Matching\<close> and \<open>Xds_Resources\<close> (\<open>grpc-xds/src/resource\<close>, \<open>routing\<close>, \<open>xds_config.rs\<close>): matchers, virtual host
    selection and validation of listeners, routes, clusters and endpoints.

  \<^item> \<open>Cluster_Graph\<close> (\<open>grpc-xds/src/dependency_manager\<close>): the depth-first walk with memoisation, cycle cutting and the
    depth limit 16, and its equivalence with a plain recursion. The recursion terminates by the depth that is left.

  \<^item> \<open>Xds_Worker\<close> (\<open>xds-client/src/client/worker.rs\<close> with \<open>message.rs\<close>, \<open>resource/mod.rs\<close>, \<open>client/watch.rs\<close>,
    \<open>client/snapshot.rs\<close>, \<open>error.rs\<close> and \<open>metrics.rs\<close>): the ADS worker as an event loop (\<open>actor_step\<close>, the body of
    \<open>AdsWorker::run\<close>) over commands of watchers, timers and the transport task; channels are numbers and their contents
    logs. \<open>Xds_Worker_Cache\<close> and \<open>Xds_Worker_Stream\<close> prove its invariants handler by handler, \<open>Xds_Worker_Metrics\<close> that
    the gauge follows the cache, \<open>Xds_Worker_Loop\<close> that they hold after every sequence of commands (an interpretation of
    \<open>invariant_machine\<close>), and \<open>Xds_Worker_Properties\<close> what follows: watchers see what the cache holds, the server is told
    what is subscribed and accepted, no watcher waits for ever, and responses are cached and acknowledged as they should.

  \<^bold>\<open>Bounds and fuel.\<close> No definition uses fuel: loops are structural recursions over their input, and the one recursion
  that is not (\<open>visit\<close> of the cluster graph) has a termination proof. Poll-driven components take the list of polls of
  their source, which is finite; what they return after its end is stated. Timer identifiers of the ADS worker wrap
  around at 64 bits; its properties do not depend on their being unique over time.

  \<^bold>\<open>Not modelled, and why.\<close> Sockets, TLS, the tokio runtime, hyper and tower services, and the bodies of spawned tasks
  beyond the events they send: they are the environment of the state machines. Generated protobuf code and the code
  generators, whose output depends on descriptors outside the repository. The transport task of the xDS client and its
  backoff, which computes with floating-point numbers: the worker meets its events as commands. The remaining load-balancing policies, the xDS
  channel of \<open>tonic-xds\<close>, the server transports of the \<open>grpc\<close> crate, rich error details, health and reflection services,
  examples, interoperability programs and benchmarks. \<open>Debug\<close> and \<open>Display\<close> instances are modelled only where their text
  reaches the peer or the caller.
\<close>

section \<open>Subchannels and the policy that uses them\<close>



section \<open>From the virtual host to its clusters\<close>

text \<open>
  Property C14. The snapshot of a channel: if the virtual host for the authority is found in the listener's route
  configuration, the snapshot can be made and its virtual host is that one (never a panic), and if the
  cluster graph is walked from the clusters its routes name, every such cluster is watched, and configured or
  waiting for something that has not arrived.
\<close>

theorem snapshot_covers_routes:
  assumes host: "find_virtual_host_index target (virtual_hosts (arc_value rc)) = Some i"
    and src: "route_source listener = Rds (rc_name (arc_value rc)) \<or> route_source listener = Inline rc"
    and roots: "set roots = cluster_names (virtual_hosts (arc_value rc) ! i)"
  shows "\<exists>config. try_new listener rc i (cluster_configs (walk ca roots notes node_id)) = Some config \<and>
    virtual_host config = Some (virtual_hosts (arc_value rc) ! i) \<and>
    (\<forall>r \<in> set (routes (virtual_hosts (arc_value rc) ! i)). \<forall>c \<in> set (action_clusters (route_action r)).
       c \<in> watch_clusters (required_watches (walk ca roots notes node_id)) \<and>
       (xc_clusters config c \<noteq> None \<or> pending_below (walker_env ca notes node_id) c))"
proof -
  have i: "i < length (virtual_hosts (arc_value rc))" using host by (rule find_virtual_host_index_bound)
  have new: "try_new listener rc i (cluster_configs (walk ca roots notes node_id)) =
      Some \<lparr>xc_listener = listener, xc_route_config = rc, virtual_host_index = i,
            xc_clusters = cluster_configs (walk ca roots notes node_id)\<rparr>"
    using i src by (auto simp: try_new_def)
  have "c \<in> watch_clusters (required_watches (walk ca roots notes node_id)) \<and>
      (cluster_configs (walk ca roots notes node_id) c \<noteq> None \<or> pending_below (walker_env ca notes node_id) c)"
    if "r \<in> set (routes (virtual_hosts (arc_value rc) ! i))" "c \<in> set (action_clusters (route_action r))" for r c
    using that roots by (intro walk_root_resolved) (auto simp: cluster_names_eq)
  with new show ?thesis using i by (intro exI conjI) (assumption, simp_all add: virtual_host_def Let_def)
qed

theorem snapshot_covers_routes_witness:
  "\<exists>config. try_new \<lparr>listener_name = ''l'', route_source = Rds ''rc''\<rparr>
      \<lparr>arc_ptr = 0, arc_value = \<lparr>rc_name = ''rc'', virtual_hosts = [\<lparr>vh_name = ''vh'', domains = [DmUniversal],
         routes = [\<lparr>route_match = \<lparr>path_specifier = PathPrefix ''/'', route_headers = [], case_sensitive = True, match_fraction = None\<rparr>,
                    route_action = ActionCluster ''top''\<rparr>]\<rparr> :: string VirtualHost]\<rparr>\<rparr>
      0 (cluster_configs (walk example_cache [''top''] [] None)) = Some config \<and>
    (xc_clusters config ''top'' \<noteq> None \<or> pending_below (walker_env example_cache [] None) ''top'')"
proof -
  let ?rc = "\<lparr>arc_ptr = 0, arc_value = \<lparr>rc_name = ''rc'', virtual_hosts = [\<lparr>vh_name = ''vh'', domains = [DmUniversal],
         routes = [\<lparr>route_match = \<lparr>path_specifier = PathPrefix ''/'', route_headers = [], case_sensitive = True, match_fraction = None\<rparr>,
                    route_action = ActionCluster ''top''\<rparr>]\<rparr> :: string VirtualHost]\<rparr>\<rparr>"
  have h: "find_virtual_host_index ''svc'' (virtual_hosts (arc_value ?rc)) = Some 0" by code_simp
  have "set [''top''] = cluster_names (virtual_hosts (arc_value ?rc) ! 0)" by (simp add: cluster_names_eq)
  from snapshot_covers_routes [OF h _ this, of "\<lparr>listener_name = ''l'', route_source = Rds ''rc''\<rparr>" example_cache "[]" None]
  show ?thesis by auto
qed

end
